(* ===== verification/Kbot_Prelude.thy ===== *)
theory Kbot_Prelude
  imports Main "HOL-Library.Word" "HOL-Library.Sublist"
begin

text \<open>
  Shared vocabulary of the development: the C++ failures that the program can run into, the
  result and state-exception types in which the components are written, the searching and slicing
  operations of \<open>std::string\<close> and \<open>std::string_view\<close> that the source uses, the associative
  container interface (\<open>find\<close>, \<open>insert\<close>, \<open>erase\<close>, subscript assignment), and the generic lemmas
  about them that the component proofs share.
\<close>

unbundle bit_operations_syntax

named_theorems exn_simps \<open>equations that run the result and state-exception combinators\<close>
named_theorems str_simps \<open>facts about string searching and slicing\<close>

declare dropWhile_eq_Nil_conv [simp del]

section \<open>Characters\<close>

abbreviation NUL :: char where "NUL \<equiv> CHR 0x00"
abbreviation LF :: char where "LF \<equiv> CHR 0x0A"
abbreviation CR :: char where "CR \<equiv> CHR 0x0D"
abbreviation SP :: char where "SP \<equiv> CHR '' ''"

section \<open>Failures and results\<close>

text \<open>
  The ways a C++ function of the program leaves without a value: a thrown string literal, the
  standard exceptions that the source throws or lets a container throw, a failed \<open>assert\<close> (only in
  a build without \<open>NDEBUG\<close>), and undefined behaviour, which the model names instead of hiding.
\<close>

datatype cpp_error =
    CStr string
  | RuntimeError string
  | OutOfRange
  | LogicError string
  | Abort string
  | UB string

type_synonym 'a result = "cpp_error + 'a"

definition rbind :: "'a result \<Rightarrow> ('a \<Rightarrow> 'b result) \<Rightarrow> 'b result" where
  "rbind m f = (case m of Inl e \<Rightarrow> Inl e | Inr x \<Rightarrow> f x)"

lemma rbind_simps [simp, exn_simps]:
  "rbind (Inl e) f = Inl e"
  "rbind (Inr x) f = f x"
  by (simp_all add: rbind_def)

lemma rbind_eq_Inr: "rbind m f = Inr y \<longleftrightarrow> (\<exists>x. m = Inr x \<and> f x = Inr y)"
  by (cases m) simp_all

text \<open>\<open>assert(b)\<close>: compiled out when \<open>NDEBUG\<close> is defined, an abort otherwise.\<close>

definition cpp_assert :: "bool \<Rightarrow> bool \<Rightarrow> string \<Rightarrow> unit result" where
  "cpp_assert ndebug b what = (if ndebug \<or> b then Inr () else Inl (Abort what))"

lemma cpp_assert_simps [simp, exn_simps]:
  "cpp_assert True b w = Inr ()"
  "cpp_assert nd True w = Inr ()"
  "cpp_assert False False w = Inl (Abort w)"
  by (simp_all add: cpp_assert_def)

section \<open>Stateful computations\<close>

text \<open>
  A computation that reads and writes a state and may fail. The state survives a failure, as the
  effects before a \<open>throw\<close> do, so that a handler continues from it.
\<close>

type_synonym ('s, 'a) cpp = "'s \<Rightarrow> (cpp_error + 'a) \<times> 's"

definition cret :: "'a \<Rightarrow> ('s, 'a) cpp" where
  "cret x = (\<lambda>s. (Inr x, s))"

definition cthrow :: "cpp_error \<Rightarrow> ('s, 'a) cpp" where
  "cthrow e = (\<lambda>s. (Inl e, s))"

definition cbind :: "('s, 'a) cpp \<Rightarrow> ('a \<Rightarrow> ('s, 'b) cpp) \<Rightarrow> ('s, 'b) cpp" where
  "cbind m f = (\<lambda>s. case m s of (Inl e, s') \<Rightarrow> (Inl e, s') | (Inr x, s') \<Rightarrow> f x s')"

definition cseq :: "('s, 'a) cpp \<Rightarrow> ('s, 'b) cpp \<Rightarrow> ('s, 'b) cpp" where
  "cseq m k = cbind m (\<lambda>_. k)"

definition cget :: "('s \<Rightarrow> 'a) \<Rightarrow> ('s, 'a) cpp" where
  "cget f = (\<lambda>s. (Inr (f s), s))"

definition cmod :: "('s \<Rightarrow> 's) \<Rightarrow> ('s, unit) cpp" where
  "cmod f = (\<lambda>s. (Inr (), f s))"

definition cpure :: "'a result \<Rightarrow> ('s, 'a) cpp" where
  "cpure r = (\<lambda>s. (r, s))"

text \<open>\<open>try m catch (e with handles e) h\<close>\<close>

definition ctry :: "('s, 'a) cpp \<Rightarrow> (cpp_error \<Rightarrow> bool) \<Rightarrow> (cpp_error \<Rightarrow> ('s, 'a) cpp) \<Rightarrow> ('s, 'a) cpp" where
  "ctry m handles h =
     (\<lambda>s. case m s of (Inl e, s') \<Rightarrow> (if handles e then h e s' else (Inl e, s'))
                   | (Inr x, s') \<Rightarrow> (Inr x, s'))"

lemma cbind_apply [exn_simps]:
  "cbind m f s = (case m s of (Inl e, s') \<Rightarrow> (Inl e, s') | (Inr x, s') \<Rightarrow> f x s')"
  by (simp add: cbind_def)

lemma cpp_run [simp, exn_simps]:
  "cret x s = (Inr x, s)"
  "cthrow e s = (Inl e, s)"
  "cget f s = (Inr (f s), s)"
  "cmod g s = (Inr (), g s)"
  "cpure r s = (r, s)"
  by (simp_all add: cret_def cthrow_def cget_def cmod_def cpure_def)

lemma cbind_run [simp]:
  "m s = (Inr x, s') \<Longrightarrow> cbind m f s = f x s'"
  "m s = (Inl e, s') \<Longrightarrow> cbind m f s = (Inl e, s')"
  by (simp_all add: cbind_def)

lemma cseq_run [simp]:
  "m s = (Inr x, s') \<Longrightarrow> cseq m k s = k s'"
  "m s = (Inl e, s') \<Longrightarrow> cseq m k s = (Inl e, s')"
  by (simp_all add: cseq_def)

lemma ctry_run [simp]:
  "m s = (Inr x, s') \<Longrightarrow> ctry m hs h s = (Inr x, s')"
  "m s = (Inl e, s') \<Longrightarrow> ctry m hs h s = (if hs e then h e s' else (Inl e, s'))"
  by (simp_all add: ctry_def)

text \<open>Which failures unwind the stack: an abort and undefined behaviour run no destructor and reach no
  handler.\<close>

fun unwinds :: "cpp_error \<Rightarrow> bool" where
  "unwinds (Abort w) = False"
| "unwinds (UB w) = False"
| "unwinds _ = True"

text \<open>
  Partial-correctness triples with an exceptional postcondition: from \<open>P\<close>, a normal return
  establishes \<open>Q\<close> and an exception that unwinds establishes \<open>E\<close>. \<open>keeps\<close> is the invariant form.
\<close>

definition triple :: "('s \<Rightarrow> bool) \<Rightarrow> ('s, 'a) cpp \<Rightarrow> ('a \<Rightarrow> 's \<Rightarrow> bool) \<Rightarrow> ('s \<Rightarrow> bool) \<Rightarrow> bool" where
  "triple P m Q E \<longleftrightarrow>
     (\<forall>s. P s \<longrightarrow> (case m s of (Inr x, t) \<Rightarrow> Q x t | (Inl err, t) \<Rightarrow> unwinds err \<longrightarrow> E t))"

definition keeps :: "('s \<Rightarrow> bool) \<Rightarrow> ('s, 'a) cpp \<Rightarrow> bool" where
  "keeps I m \<longleftrightarrow> triple I m (\<lambda>_. I) I"

lemma triple_cbind:
  "triple P m R E \<Longrightarrow> (\<And>x. triple (R x) (f x) Q E) \<Longrightarrow> triple P (cbind m f) Q E"
  by (fastforce simp: triple_def cbind_apply split: prod.splits sum.splits)

lemma triple_cseq: "triple P m (\<lambda>_. R) E \<Longrightarrow> triple R k Q E \<Longrightarrow> triple P (cseq m k) Q E"
  unfolding cseq_def by (rule triple_cbind)

lemma triple_weaken:
  "triple P m Q E \<Longrightarrow> (\<And>s. P' s \<Longrightarrow> P s) \<Longrightarrow> (\<And>x s. Q x s \<Longrightarrow> Q' x s) \<Longrightarrow> (\<And>s. E s \<Longrightarrow> E' s) \<Longrightarrow>
     triple P' m Q' E'"
  by (fastforce simp: triple_def split: prod.splits sum.splits)

lemma triple_basic:
  "triple (Q x) (cret x) Q E"
  "triple P (cget f) (\<lambda>x s. P s \<and> x = f s) E"
  "triple E (cthrow err) Q E"
  "triple (\<lambda>s. Q () (g s)) (cmod g) Q E"
  by (simp_all add: triple_def)

lemma keeps_basic [intro]:
  "keeps I (cret x)" "keeps I (cthrow err)" "keeps I (cget f)" "keeps I (cpure r)"
  by (simp_all add: keeps_def triple_def split: sum.split)

lemma keeps_cmod: "(\<And>s. I s \<Longrightarrow> I (g s)) \<Longrightarrow> keeps I (cmod g)"
  by (simp add: keeps_def triple_def)

lemma keeps_cbind [intro]: "keeps I m \<Longrightarrow> (\<And>x. keeps I (f x)) \<Longrightarrow> keeps I (cbind m f)"
  unfolding keeps_def by (rule triple_cbind)

lemma keeps_cseq [intro]: "keeps I m \<Longrightarrow> keeps I k \<Longrightarrow> keeps I (cseq m k)"
  unfolding keeps_def by (rule triple_cseq)

text \<open>Binding a value about which something is known: from a pure result, or from a state with \<open>I\<close>.\<close>

lemma keeps_cpure_cbind: "(\<And>x. r = Inr x \<Longrightarrow> keeps I (f x)) \<Longrightarrow> keeps I (cbind (cpure r) f)"
  by (cases r) (simp_all add: keeps_def triple_def cbind_apply)

lemma keeps_cget_cbind: "(\<And>s. I s \<Longrightarrow> keeps I (f (g s))) \<Longrightarrow> keeps I (cbind (cget g) f)"
  by (simp add: keeps_def triple_def cbind_apply)

lemma keepsD: "keeps I m \<Longrightarrow> I s \<Longrightarrow> m s = (r, t) \<Longrightarrow> (\<And>err. r = Inl err \<Longrightarrow> unwinds err) \<Longrightarrow> I t"
  by (cases r) (auto simp: keeps_def triple_def split: prod.splits sum.splits)

text \<open>The form for computations whose failures end the run: only a normal return has to keep \<open>I\<close>.\<close>

definition returns_keeping :: "('s \<Rightarrow> bool) \<Rightarrow> ('s, 'a) cpp \<Rightarrow> bool" where
  "returns_keeping I m \<longleftrightarrow> triple I m (\<lambda>_. I) (\<lambda>_. True)"

lemma returns_keepingI: "(\<And>s x t. I s \<Longrightarrow> m s = (Inr x, t) \<Longrightarrow> I t) \<Longrightarrow> returns_keeping I m"
  by (auto simp: returns_keeping_def triple_def split: prod.split sum.split)

lemma returns_keepingD: "returns_keeping I m \<Longrightarrow> I s \<Longrightarrow> m s = (Inr x, t) \<Longrightarrow> I t"
  by (auto simp: returns_keeping_def triple_def split: prod.splits)

lemma keeps_returns: "keeps I m \<Longrightarrow> returns_keeping I m"
  unfolding keeps_def returns_keeping_def by (erule triple_weaken) simp_all

lemma returns_keeping_basic:
  "returns_keeping I (cret x)" "returns_keeping I (cthrow err)" "returns_keeping I (cget f)" "returns_keeping I (cpure r)"
  by (intro keeps_returns keeps_basic)+

lemma returns_keeping_cbind:
  "returns_keeping I m \<Longrightarrow> (\<And>x. returns_keeping I (f x)) \<Longrightarrow> returns_keeping I (cbind m f)"
  unfolding returns_keeping_def by (rule triple_cbind)

lemma returns_keeping_cseq: "returns_keeping I m \<Longrightarrow> returns_keeping I k \<Longrightarrow> returns_keeping I (cseq m k)"
  unfolding cseq_def by (rule returns_keeping_cbind)

lemma keeps_ctry:
  assumes "keeps I m" "\<And>err. keeps I (h err)" "\<And>err. hs err \<Longrightarrow> unwinds err"
  shows "keeps I (ctry m hs h)"
  unfolding keeps_def triple_def
proof (intro allI impI)
  fix s assume s: "I s"
  obtain r t where mt: "m s = (r, t)" by fastforce
  show "case ctry m hs h s of (Inr x, t) \<Rightarrow> I t | (Inl err, t) \<Rightarrow> unwinds err \<longrightarrow> I t"
  proof (cases r)
    case (Inl err)
    show ?thesis
    proof (cases "hs err")
      case True
      then have "I t" using keepsD [OF assms(1) s mt] assms(3) Inl by auto
      then show ?thesis using assms(2) [of err] mt Inl True by (simp add: keeps_def triple_def)
    next
      case False
      then show ?thesis using keepsD [OF assms(1) s mt] mt Inl by auto
    qed
  next
    case (Inr x)
    then show ?thesis using keepsD [OF assms(1) s mt] mt by auto
  qed
qed

text \<open>\<open>raises E m\<close>: every failure of \<open>m\<close> is one of \<open>E\<close>.\<close>

definition raises :: "(cpp_error \<Rightarrow> bool) \<Rightarrow> ('s, 'a) cpp \<Rightarrow> bool" where
  "raises E m \<longleftrightarrow> (\<forall>s err. fst (m s) = Inl err \<longrightarrow> E err)"

lemma raisesD: "raises E m \<Longrightarrow> m s = (Inl err, t) \<Longrightarrow> E err"
  by (metis fst_conv raises_def)

lemma raises_basic: "raises E (cret x)" "raises E (cget f)" "raises E (cmod g)"
  by (simp_all add: raises_def)

lemma raises_total: "(\<And>s. \<exists>x t. m s = (Inr x, t)) \<Longrightarrow> raises E m"
  unfolding raises_def by (metis fst_conv sum.distinct(1))

lemma raises_cpure: "(\<And>err. r = Inl err \<Longrightarrow> E err) \<Longrightarrow> raises E (cpure r)"
  by (simp add: raises_def)

lemma raises_cbind: "raises E m \<Longrightarrow> (\<And>x. raises E (f x)) \<Longrightarrow> raises E (cbind m f)"
  unfolding raises_def
proof (intro allI impI)
  fix s err
  assume m: "\<forall>s err. fst (m s) = Inl err \<longrightarrow> E err" and f: "\<And>x. \<forall>s err. fst (f x s) = Inl err \<longrightarrow> E err"
    and r: "fst (cbind m f s) = Inl err"
  obtain x t where mt: "m s = (x, t)" by fastforce
  then show "E err" using m [rule_format, of s] f r by (cases x) auto
qed

lemma raises_cseq: "raises E m \<Longrightarrow> raises E k \<Longrightarrow> raises E (cseq m k)"
  unfolding cseq_def by (rule raises_cbind)

lemma raises_ctry:
  "raises E m \<Longrightarrow> (\<And>err. raises E' (h err)) \<Longrightarrow> (\<And>err. E err \<Longrightarrow> \<not> hs err \<Longrightarrow> E' err) \<Longrightarrow>
     raises E' (ctry m hs h)"
  unfolding raises_def
proof (intro allI impI)
  fix s err
  assume m: "\<forall>s err. fst (m s) = Inl err \<longrightarrow> E err" and h: "\<And>err. \<forall>s e. fst (h err s) = Inl e \<longrightarrow> E' e"
    and E: "\<And>err. E err \<Longrightarrow> \<not> hs err \<Longrightarrow> E' err" and r: "fst (ctry m hs h s) = Inl err"
  obtain x t where mt: "m s = (x, t)" by fastforce
  then show "E' err" using m [rule_format, of s] h E r by (cases x) (auto split: if_splits)
qed

text \<open>\<open>leaves F m\<close>: whatever \<open>m\<close> does and however it ends, the part \<open>F\<close> of the state is as before.\<close>

definition leaves :: "('s \<Rightarrow> 'b) \<Rightarrow> ('s, 'a) cpp \<Rightarrow> bool" where
  "leaves F m \<longleftrightarrow> (\<forall>s. F (snd (m s)) = F s)"

lemma leavesD: "leaves F m \<Longrightarrow> m s = (r, t) \<Longrightarrow> F t = F s"
  by (metis leaves_def snd_conv)

lemma leaves_basic: "leaves F (cret x)" "leaves F (cget f)" "leaves F (cpure r)" "leaves F (cthrow err)"
  by (simp_all add: leaves_def)

lemma leaves_cbind: "leaves F m \<Longrightarrow> (\<And>x. leaves F (f x)) \<Longrightarrow> leaves F (cbind m f)"
  unfolding leaves_def
proof
  fix s
  assume m: "\<forall>s. F (snd (m s)) = F s" and f: "\<And>x. \<forall>s. F (snd (f x s)) = F s"
  obtain r t where "m s = (r, t)" by fastforce
  then show "F (snd (cbind m f s)) = F s" using m [rule_format, of s] f by (cases r) simp_all
qed

lemma leaves_cseq: "leaves F m \<Longrightarrow> leaves F k \<Longrightarrow> leaves F (cseq m k)"
  unfolding cseq_def by (rule leaves_cbind)

lemma leaves_ctry: "leaves F m \<Longrightarrow> (\<And>err. leaves F (h err)) \<Longrightarrow> leaves F (ctry m hs h)"
  unfolding leaves_def
proof
  fix s
  assume m: "\<forall>s. F (snd (m s)) = F s" and h: "\<And>err. \<forall>s. F (snd (h err s)) = F s"
  obtain r t where "m s = (r, t)" by fastforce
  then show "F (snd (ctry m hs h s)) = F s" using m [rule_format, of s] h by (cases r) simp_all
qed

section \<open>Searching and slicing strings\<close>

text \<open>
  \<open>index_from P k xs\<close> is the index, counted from \<open>k\<close>, of the first element of \<open>xs\<close> with \<open>P\<close>.
  \<open>str_find\<close> is \<open>std::string::find(c, pos)\<close> (and \<open>find_first_of\<close> of one character); \<open>None\<close> is
  \<open>npos\<close>, also when \<open>pos\<close> is past the end.
\<close>

fun index_from :: "('a \<Rightarrow> bool) \<Rightarrow> nat \<Rightarrow> 'a list \<Rightarrow> nat option" where
  "index_from P k [] = None"
| "index_from P k (x # xs) = (if P x then Some k else index_from P (Suc k) xs)"

definition str_find :: "char \<Rightarrow> string \<Rightarrow> nat \<Rightarrow> nat option" where
  "str_find c s pos = index_from (\<lambda>x. x = c) pos (drop pos s)"

definition str_find_first_not_of :: "char \<Rightarrow> string \<Rightarrow> nat \<Rightarrow> nat option" where
  "str_find_first_not_of c s pos = index_from (\<lambda>x. x \<noteq> c) pos (drop pos s)"

text \<open>\<open>s[i]\<close> on a \<open>std::string\<close>: the terminating NUL at \<open>size()\<close>, undefined beyond.\<close>

definition str_at :: "string \<Rightarrow> nat \<Rightarrow> char result" where
  "str_at s i = (if i < length s then Inr (s ! i) else if i = length s then Inr NUL
                 else Inl (UB ''string subscript''))"

text \<open>The characters from position \<open>a\<close> up to but excluding position \<open>b\<close>.\<close>

definition seg :: "'a list \<Rightarrow> nat \<Rightarrow> nat \<Rightarrow> 'a list" where
  "seg s a b = take (b - a) (drop a s)"

text \<open>\<open>std::string_view(&s[a], &s[b])\<close>: the range has to be ordered and inside the buffer. The end of the range may
  be \<open>size()\<close>. For a \<open>std::string\<close> this is the terminator. For a \<open>std::string_view\<close>, which the loop over the tags and
  \<open>ParseSourceUser\<close> subscript, the standard asks for a position below \<open>size()\<close>; the model has the address that an
  implementation without assertions computes, which lies inside the line that the view is part of. A hardened
  library would stop there.\<close>

definition sv_range :: "string \<Rightarrow> nat \<Rightarrow> nat \<Rightarrow> string result" where
  "sv_range s a b = (if a \<le> b \<and> b \<le> length s then Inr (seg s a b)
                     else Inl (UB ''string_view range''))"

text \<open>\<open>sv.substr(pos)\<close> throws when \<open>pos\<close> is past the end.\<close>

definition sv_substr :: "string \<Rightarrow> nat \<Rightarrow> string result" where
  "sv_substr s pos = (if pos \<le> length s then Inr (drop pos s) else Inl OutOfRange)"

text \<open>\<open>v.at(i)\<close> on a vector throws when \<open>i\<close> is out of range; \<open>v[i]\<close> is undefined there.\<close>

definition vec_at :: "'a list \<Rightarrow> nat \<Rightarrow> 'a result" where
  "vec_at v i = (if i < length v then Inr (v ! i) else Inl OutOfRange)"

definition vec_idx :: "'a list \<Rightarrow> nat \<Rightarrow> 'a result" where
  "vec_idx v i = (if i < length v then Inr (v ! i) else Inl (UB ''vector subscript''))"

text \<open>The string a \<open>const char *\<close> denotes: up to the first NUL.\<close>

definition c_str :: "string \<Rightarrow> string" where
  "c_str s = takeWhile (\<lambda>c. c \<noteq> NUL) s"

text \<open>
  \<open>break_at c s\<close> is the reference form of a search: what stands before the first \<open>c\<close> and what
  stands after it.
\<close>

definition break_at :: "char \<Rightarrow> string \<Rightarrow> (string \<times> string) option" where
  "break_at c s = (case dropWhile (\<lambda>x. x \<noteq> c) s of [] \<Rightarrow> None
                   | _ # r \<Rightarrow> Some (takeWhile (\<lambda>x. x \<noteq> c) s, r))"

lemma index_from_takeWhile:
  "index_from P k xs =
     (if \<exists>x \<in> set xs. P x then Some (k + length (takeWhile (\<lambda>x. \<not> P x) xs)) else None)"
  by (induction xs arbitrary: k) auto

lemma index_from_None_iff: "index_from P k xs = None \<longleftrightarrow> (\<forall>x \<in> set xs. \<not> P x)"
  by (simp add: index_from_takeWhile)

lemma break_at_None_iff: "break_at c s = None \<longleftrightarrow> c \<notin> set s"
proof -
  have "break_at c s = None \<longleftrightarrow> dropWhile (\<lambda>x. x \<noteq> c) s = []"
    by (simp add: break_at_def split: list.split)
  also have "\<dots> \<longleftrightarrow> c \<notin> set s" by (auto simp: dropWhile_eq_Nil_conv)
  finally show ?thesis .
qed

lemma break_at_Some_iff: "break_at c s = Some (a, r) \<longleftrightarrow> s = a @ c # r \<and> c \<notin> set a"
proof
  assume h: "break_at c s = Some (a, r)"
  then obtain x where dw: "dropWhile (\<lambda>x. x \<noteq> c) s = x # r" and a: "a = takeWhile (\<lambda>x. x \<noteq> c) s"
    by (auto simp: break_at_def split: list.splits)
  from dw have "x = c" using hd_dropWhile [of "\<lambda>x. x \<noteq> c" s] by simp
  moreover have "s = a @ x # r" using takeWhile_dropWhile_id [of "\<lambda>x. x \<noteq> c" s] a dw by simp
  moreover have "c \<notin> set a" using a by (auto dest: set_takeWhileD)
  ultimately show "s = a @ c # r \<and> c \<notin> set a" by simp
next
  assume "s = a @ c # r \<and> c \<notin> set a"
  moreover from this have "dropWhile (\<lambda>x. x \<noteq> c) s = c # r" "takeWhile (\<lambda>x. x \<noteq> c) s = a"
    by (auto simp: dropWhile_append takeWhile_append)
  ultimately show "break_at c s = Some (a, r)" by (simp add: break_at_def)
qed

lemma break_at_Nil [simp, str_simps]: "break_at c [] = None"
  by (simp add: break_at_def)

lemma break_at_Cons [str_simps]:
  "break_at c (x # xs) =
     (if x = c then Some ([], xs) else map_option (\<lambda>(a, r). (x # a, r)) (break_at c xs))"
  by (simp add: break_at_def split: list.split)

text \<open>The bridge between the index form the code uses and the reference form.\<close>

lemma str_find_break:
  assumes "pos \<le> length s"
  shows "str_find c s pos = map_option (\<lambda>(a, r). pos + length a) (break_at c (drop pos s))"
proof (cases "break_at c (drop pos s)")
  case None
  then show ?thesis
    by (auto simp: str_find_def index_from_takeWhile break_at_None_iff)
next
  case (Some ar)
  obtain a r where ar: "ar = (a, r)" by (cases ar)
  with Some have d: "drop pos s = a @ c # r" "c \<notin> set a" by (simp_all add: break_at_Some_iff)
  then have "takeWhile (\<lambda>x. x \<noteq> c) (drop pos s) = a" by (auto simp: takeWhile_append)
  with d ar Some show ?thesis by (simp add: str_find_def index_from_takeWhile)
qed

lemma str_find_SomeD:
  assumes "str_find c s pos = Some i"
  shows "pos \<le> i" "i < length s" "s ! i = c" "drop pos s = seg s pos i @ c # drop (Suc i) s"
    "c \<notin> set (seg s pos i)"
proof -
  have "pos \<le> length s"
    using assms by (cases "pos \<le> length s") (auto simp: str_find_def)
  with assms obtain a r where br: "break_at c (drop pos s) = Some (a, r)" and i: "i = pos + length a"
    by (auto simp: str_find_break)
  from br have d: "drop pos s = a @ c # r" and na: "c \<notin> set a"
    by (simp_all add: break_at_Some_iff)
  have sl: "seg s pos i = a" using d i by (simp add: seg_def)
  have len: "length s = pos + length a + Suc (length r)"
    using arg_cong [OF d, of length] \<open>pos \<le> length s\<close> by simp
  have r: "drop (Suc i) s = r"
    using arg_cong [OF d, of "drop (Suc (length a))"] i by (simp add: add.commute)
  show "pos \<le> i" "i < length s" using i len by simp_all
  show "s ! i = c" using arg_cong [OF d, of "\<lambda>z. z ! length a"] i \<open>pos \<le> length s\<close> by simp
  show "drop pos s = seg s pos i @ c # drop (Suc i) s" using d sl r by simp
  show "c \<notin> set (seg s pos i)" using na sl by simp
qed

lemma str_find_bounds: "str_find c s pos = Some i \<Longrightarrow> pos \<le> i \<and> i < length s"
  by (simp add: str_find_SomeD)

lemma str_find_NoneD: "str_find c s pos = None \<Longrightarrow> c \<notin> set (drop pos s)"
  by (auto simp: str_find_def index_from_None_iff)

lemma str_find_first_not_of_SomeD:
  assumes "str_find_first_not_of c s pos = Some i"
  shows "pos \<le> i" "i < length s" "drop i s = dropWhile (\<lambda>x. x = c) (drop pos s)"
proof -
  let ?t = "takeWhile (\<lambda>x. x = c) (drop pos s)" and ?d = "dropWhile (\<lambda>x. x = c) (drop pos s)"
  from assms have i: "i = pos + length ?t" and ex: "\<exists>x \<in> set (drop pos s). x \<noteq> c"
    by (auto simp: str_find_first_not_of_def index_from_takeWhile split: if_splits)
  show "pos \<le> i" using i by simp
  have "drop i s = drop (length ?t) (drop pos s)" using i by (simp add: add.commute)
  also have "\<dots> = ?d" by (simp add: dropWhile_eq_drop)
  finally show dr: "drop i s = ?d" .
  have "?d \<noteq> []" using ex by (auto simp: dropWhile_eq_Nil_conv)
  with dr show "i < length s" by (metis drop_all not_le)
qed

lemma str_find_first_not_of_bounds:
  "str_find_first_not_of c s pos = Some i \<Longrightarrow> pos \<le> i \<and> i < length s"
  by (simp add: str_find_first_not_of_SomeD)

lemma str_find_first_not_of_NoneD:
  "str_find_first_not_of c s pos = None \<Longrightarrow> dropWhile (\<lambda>x. x = c) (drop pos s) = []"
  by (auto simp: str_find_first_not_of_def index_from_None_iff dropWhile_eq_Nil_conv)

lemma sv_range_ok: "a \<le> b \<Longrightarrow> b \<le> length s \<Longrightarrow> sv_range s a b = Inr (seg s a b)"
  by (simp add: sv_range_def)

lemma seg_to_end [simp]: "seg s a (length s) = drop a s"
  by (simp add: seg_def)

lemma seg_length [simp]: "a \<le> b \<Longrightarrow> b \<le> length s \<Longrightarrow> length (seg s a b) = b - a"
  by (simp add: seg_def)

lemma set_seg_subset: "set (seg s a b) \<subseteq> set s"
  by (auto simp: seg_def dest: in_set_takeD in_set_dropD)

lemma str_at_drop: "i \<le> length s \<Longrightarrow> str_at s i = Inr (case drop i s of [] \<Rightarrow> NUL | c # _ \<Rightarrow> c)"
  by (cases "i < length s") (auto simp: str_at_def Cons_nth_drop_Suc [symmetric])

lemma c_str_id: "NUL \<notin> set s \<Longrightarrow> c_str s = s"
  by (auto simp: c_str_def takeWhile_eq_all_conv)

lemma NUL_notin_c_str: "NUL \<notin> set (c_str s)"
  by (auto simp: c_str_def dest: set_takeWhileD)

lemma length_concat_bound:
  "(\<And>x. x \<in> set xs \<Longrightarrow> length (f x) \<le> n) \<Longrightarrow> length (concat (map f xs)) \<le> length xs * n"
proof (induction xs)
  case (Cons x xs)
  then have "length (f x) \<le> n" "length (concat (map f xs)) \<le> length xs * n" by simp_all
  then show ?case by simp
qed simp

text \<open>Replacing the bits outside a mask.\<close>

lemma mask_replace:
  fixes v c :: "'a::len word"
  assumes "v AND c = 0"
  shows "(x AND c OR v) AND c = x AND c" "(x AND c OR v) AND NOT c = v"
proof -
  show "(x AND c OR v) AND c = x AND c" using assms by (simp add: bit.conj_disj_distrib2 and.assoc)
  have "v AND NOT c = v" 
  proof -
    have "v = (v AND c) OR (v AND NOT c)" by (simp flip: bit.conj_disj_distrib)
    then show ?thesis using assms by simp
  qed
  then show "(x AND c OR v) AND NOT c = v" by (simp add: bit.conj_disj_distrib2 and.assoc)
qed

section \<open>Decimal numbers\<close>

text \<open>\<open>std::to_string\<close> and \<open>{}\<close> of \<open>fmt::format\<close> on unsigned numbers.\<close>

fun show_nat :: "nat \<Rightarrow> string" where
  "show_nat n = (if n < 10 then [char_of (48 + n)] else show_nat (n div 10) @ [char_of (48 + n mod 10)])"

declare show_nat.simps [simp del]

end
