(* ===== verification/IRC_Message.thy ===== *)
theory IRC_Message
  imports Kbot_Prelude
begin

text \<open>
  The IRC message component (\<open>src/src/IRC.hh\<close>, and the message part of \<open>src/src/IRC.cc\<close>): the
  \<open>IRCMessage\<close> constructor that destructures a raw line, the parser of a message source, the
  capability and message predicates, the classification of a command by its 64-bit mask and the
  variant the worker dispatches on. The constructor is modelled with the indices the code computes
  and with every subscript and range checked, then proved equal to a reference parser that splits
  the line.
\<close>

section \<open>Data\<close>

datatype IRCMessageType =
    DEFAULT_TYPE | PING | LOGIN | NICK | JOIN | PART | PRIVMSG | QUIT

record IRCUser =
  u_nickname :: string
  u_hostname :: string
  u_username :: string

text \<open>
  A message. \<open>tags\<close>, \<open>source\<close> and \<open>command\<close> are the contents of the views into \<open>line\<close>; a
  parameter is kept as the view itself, its first position in \<open>line\<close> and the one past its end,
  because \<open>Server::SetNickname\<close> goes back from the view to the buffer.
\<close>

record IRCMessage =
  line :: string
  tags :: string
  tag_kv :: "(string \<times> string) list"
  source :: string
  command :: string
  param_vec :: "(nat \<times> nat) list"
  message_type :: IRCMessageType

section \<open>The constructor\<close>

text \<open>The \<open>while\<close> loop over the tags: the pairs and the final value of the inner \<open>prev\<close>. The last value ends at
  \<open>&tags[tags.size()]\<close>, see \<open>sv_range\<close>.\<close>

function tag_loop :: "string \<Rightarrow> nat \<Rightarrow> (string \<times> string) list \<Rightarrow> ((string \<times> string) list \<times> nat) result" where
  "tag_loop tgs prev kv =
     (case str_find (CHR ''='') tgs prev of
        None \<Rightarrow> Inr (kv, prev)
      | Some i \<Rightarrow>
          (case sv_range tgs prev i of
             Inl e \<Rightarrow> Inl e
           | Inr key \<Rightarrow>
               (case str_find (CHR '';'') tgs (i + 1) of
                  None \<Rightarrow>
                    (case sv_range tgs (i + 1) (length tgs) of
                       Inl e \<Rightarrow> Inl e
                     | Inr val \<Rightarrow> Inr (kv @ [(key, val)], i + 1))
                | Some j \<Rightarrow>
                    (case sv_range tgs (i + 1) j of
                       Inl e \<Rightarrow> Inl e
                     | Inr val \<Rightarrow> tag_loop tgs (j + 1) (kv @ [(key, val)])))))"
  by pat_completeness auto
termination
  by (relation "measure (\<lambda>(tgs, prev, kv). Suc (length tgs) - prev)")
    (auto dest!: str_find_bounds)

text \<open>\<open>if (line[i] == '@') ...\<close>: the position after the tags, the tags and their pairs.\<close>

definition parse_tag_section :: "string \<Rightarrow> (nat \<times> string \<times> (string \<times> string) list) result" where
  "parse_tag_section l =
     rbind (str_at l 0) (\<lambda>c.
       if c = CHR ''@'' then
         (case str_find SP l 1 of
            None \<Rightarrow> Inl (CStr ''No command present'')
          | Some i \<Rightarrow>
              rbind (sv_range l 1 i) (\<lambda>tgs.
              rbind (tag_loop tgs 0 []) (\<lambda>(kv, prev).
                if prev = 0 then Inl (CStr ''Malformed tag'') else Inr (i + 1, tgs, kv))))
       else Inr (0, [], []))"

text \<open>\<open>if (line[i] == ':') ...\<close>: the position after the source, and the source.\<close>

definition parse_source_section :: "string \<Rightarrow> nat \<Rightarrow> (nat \<times> string) result" where
  "parse_source_section l i =
     rbind (str_at l i) (\<lambda>c.
       if c = CHR '':'' then
         (case str_find SP l (i + 1) of
            None \<Rightarrow> Inl (CStr ''No command present'')
          | Some j \<Rightarrow> rbind (sv_range l (i + 1) j) (\<lambda>src. Inr (j + 1, src)))
       else Inr (i, []))"

text \<open>\<open>if (line[i] != '\0') ...\<close>: the position after the command, and the command.\<close>

definition parse_command_section :: "string \<Rightarrow> nat \<Rightarrow> (nat \<times> string) result" where
  "parse_command_section l i =
     rbind (str_at l i) (\<lambda>c.
       if c \<noteq> NUL then
         (case str_find SP l i of
            None \<Rightarrow> Inl (CStr ''No parameter present'')
          | Some j \<Rightarrow>
              rbind (sv_range l i j) (\<lambda>cmd.
                if cmd = [] then Inl (CStr ''No command present'') else Inr (j + 1, cmd)))
       else Inr (i, []))"

text \<open>The \<open>while (prev != line.npos)\<close> loop over the parameters.\<close>

function param_loop :: "string \<Rightarrow> nat \<Rightarrow> (nat \<times> nat) list \<Rightarrow> ((nat \<times> nat) list) result" where
  "param_loop l prev ps =
     (case str_find SP l prev of
        None \<Rightarrow>
          (case sv_range l prev (length l) of
             Inl e \<Rightarrow> Inl e
           | Inr _ \<Rightarrow> Inr (ps @ [(prev, length l)]))
      | Some i \<Rightarrow>
          (case sv_range l prev i of
             Inl e \<Rightarrow> Inl e
           | Inr _ \<Rightarrow>
               (case str_find_first_not_of SP l (i + 1) of
                  None \<Rightarrow> Inr (ps @ [(prev, i)])
                | Some p \<Rightarrow> param_loop l p (ps @ [(prev, i)]))))"
  by pat_completeness auto
termination
  by (relation "measure (\<lambda>(l, prev, ps). length l - prev)")
    (auto dest!: str_find_bounds str_find_first_not_of_bounds)

declare tag_loop.simps [simp del] param_loop.simps [simp del]

definition sv_contents :: "string \<Rightarrow> nat \<times> nat \<Rightarrow> string" where
  "sv_contents l v = seg l (fst v) (snd v)"

text \<open>The second half of the constructor: the command, the parameters, the last check.\<close>

definition parse_command_and_params ::
    "string \<Rightarrow> nat \<Rightarrow> (string \<times> (nat \<times> nat) list) result" where
  "parse_command_and_params l i =
     rbind (parse_command_section l i) (\<lambda>(i, cmd).
     rbind (param_loop l i []) (\<lambda>ps.
       if length ps = 0 then Inl (CStr ''Bad parameter present'')
       else rbind (vec_idx ps 0) (\<lambda>p0.
         if sv_contents l p0 = [] then Inl (CStr ''Bad parameter present'')
         else Inr (cmd, ps))))"

text \<open>The whole body of the constructor, before its function-try-block handler.\<close>

definition IRCMessage_body :: "string \<Rightarrow> IRCMessageType \<Rightarrow> IRCMessage result" where
  "IRCMessage_body l t =
     rbind (parse_tag_section l) (\<lambda>(i, tgs, kv).
     rbind (parse_source_section l i) (\<lambda>(i, src).
       if src \<noteq> [] \<and> str_find (CHR ''!'') src 0 = None \<and> t = PRIVMSG
       then Inl (RuntimeError ''Bad source: Server message'')
       else
         rbind (parse_command_and_params l i) (\<lambda>(cmd, ps).
           Inr \<lparr>line = l, tags = tgs, tag_kv = kv, source = src, command = cmd,
                param_vec = ps, message_type = t\<rparr>)))"

text \<open>The constructor: a thrown \<open>const char *\<close> becomes a \<open>std::runtime_error\<close>.\<close>

definition IRCMessage_new :: "string \<Rightarrow> IRCMessageType \<Rightarrow> IRCMessage result" where
  "IRCMessage_new l t =
     (case IRCMessage_body l t of
        Inl (CStr e) \<Rightarrow> Inl (RuntimeError ''IRCMessage parsing error'')
      | r \<Rightarrow> r)"

definition GetParameters :: "IRCMessage \<Rightarrow> string list" where
  "GetParameters m = map (sv_contents (line m)) (param_vec m)"

section \<open>Reference parser\<close>

text \<open>
  What a line is meant to contain, by splitting: pairs \<open>key=value\<close> separated by \<open>;\<close>, and
  parameters separated by runs of spaces.
\<close>

record msg_view =
  v_tags :: string
  v_kv :: "(string \<times> string) list"
  v_source :: string
  v_command :: string
  v_params :: "string list"

function spec_kv :: "string \<Rightarrow> (string \<times> string) list" where
  "spec_kv s =
     (case break_at (CHR ''='') s of
        None \<Rightarrow> []
      | Some (k, r) \<Rightarrow>
          (case break_at (CHR '';'') r of
             None \<Rightarrow> [(k, r)]
           | Some (v, r') \<Rightarrow> (k, v) # spec_kv r'))"
  by pat_completeness auto
termination
  by (relation "measure length") (auto simp: break_at_Some_iff)

function spec_params :: "string \<Rightarrow> string list" where
  "spec_params s =
     (case break_at SP s of
        None \<Rightarrow> [s]
      | Some (a, r) \<Rightarrow>
          (case dropWhile (\<lambda>c. c = SP) r of [] \<Rightarrow> [a] | t # ts \<Rightarrow> a # spec_params (t # ts)))"
  by pat_completeness auto
termination
proof (relation "measure length")
  fix s ar a r t ts
  assume "break_at SP s = Some ar" and "(a, r) = ar" and d: "dropWhile (\<lambda>c. c = SP) r = t # ts"
  then have s: "s = a @ SP # r" by (auto simp: break_at_Some_iff)
  have "length (t # ts) \<le> length r" using length_dropWhile_le [of "\<lambda>c. c = SP" r] d by simp
  with s show "(t # ts, s) \<in> measure length" by simp
qed simp

declare spec_kv.simps [simp del] spec_params.simps [simp del]

definition spec_tag_section :: "string \<Rightarrow> (string \<times> (string \<times> string) list \<times> string) option" where
  "spec_tag_section l =
     (case l of
        [] \<Rightarrow> Some ([], [], l)
      | c # r \<Rightarrow>
          (if c = CHR ''@'' then
             (case break_at SP r of
                None \<Rightarrow> None
              | Some (tgs, rest) \<Rightarrow>
                  if CHR ''='' \<in> set tgs then Some (tgs, spec_kv tgs, rest) else None)
           else Some ([], [], l)))"

definition spec_source_section :: "string \<Rightarrow> (string \<times> string) option" where
  "spec_source_section s =
     (case s of [] \<Rightarrow> Some ([], s)
      | c # r \<Rightarrow> (if c = CHR '':'' then break_at SP r else Some ([], s)))"

definition spec_command_section :: "string \<Rightarrow> (string \<times> string) option" where
  "spec_command_section s =
     (case s of [] \<Rightarrow> Some ([], s)
      | c # r \<Rightarrow>
          (if c = NUL then Some ([], s)
           else (case break_at SP s of
                   None \<Rightarrow> None
                 | Some (cmd, rest) \<Rightarrow> if cmd = [] then None else Some (cmd, rest))))"

definition spec_message :: "string \<Rightarrow> IRCMessageType \<Rightarrow> msg_view result" where
  "spec_message l t =
     (case spec_tag_section l of None \<Rightarrow> Inl (RuntimeError ''IRCMessage parsing error'')
      | Some (tgs, kv, s1) \<Rightarrow>
     (case spec_source_section s1 of None \<Rightarrow> Inl (RuntimeError ''IRCMessage parsing error'')
      | Some (src, s2) \<Rightarrow>
        if src \<noteq> [] \<and> CHR ''!'' \<notin> set src \<and> t = PRIVMSG
        then Inl (RuntimeError ''Bad source: Server message'')
        else
     (case spec_command_section s2 of None \<Rightarrow> Inl (RuntimeError ''IRCMessage parsing error'')
      | Some (cmd, s3) \<Rightarrow>
        if hd (spec_params s3) = [] then Inl (RuntimeError ''IRCMessage parsing error'')
        else Inr \<lparr>v_tags = tgs, v_kv = kv, v_source = src, v_command = cmd,
                   v_params = spec_params s3\<rparr>)))"

definition msg_observe :: "IRCMessage \<Rightarrow> msg_view" where
  "msg_observe m = \<lparr>v_tags = tags m, v_kv = tag_kv m, v_source = source m,
                     v_command = command m, v_params = GetParameters m\<rparr>"

section \<open>The constructor computes the reference parser\<close>

lemma tag_loop_spec:
  "prev \<le> length tgs \<Longrightarrow>
     \<exists>p. tag_loop tgs prev kv = Inr (kv @ spec_kv (drop prev tgs), p) \<and>
         (p = 0 \<longleftrightarrow> prev = 0 \<and> CHR ''='' \<notin> set tgs)"
proof (induction tgs prev kv rule: tag_loop.induct)
  case (1 tgs prev kv)
  show ?case
  proof (cases "str_find (CHR ''='') tgs prev")
    case None
    then have nf: "CHR ''='' \<notin> set (drop prev tgs)" by (rule str_find_NoneD)
    then have "break_at (CHR ''='') (drop prev tgs) = None" by (simp add: break_at_None_iff)
    with None nf show ?thesis
      by (auto simp: tag_loop.simps [of tgs prev kv] spec_kv.simps [of "drop prev tgs"])
  next
    case (Some i)
    note i = str_find_SomeD [OF Some]
    have eq_in: "CHR ''='' \<in> set tgs" using i(2,3) nth_mem by metis
    have br: "break_at (CHR ''='') (drop prev tgs) = Some (seg tgs prev i, drop (Suc i) tgs)"
      using i(4,5) by (simp add: break_at_Some_iff)
    show ?thesis
    proof (cases "str_find (CHR '';'') tgs (i + 1)")
      case None
      then have "break_at (CHR '';'') (drop (Suc i) tgs) = None"
        by (simp add: break_at_None_iff str_find_NoneD)
      with None Some br i(1,2) eq_in show ?thesis
        by (simp add: tag_loop.simps [of tgs prev kv] spec_kv.simps [of "drop prev tgs"] sv_range_ok)
    next
      case j: (Some j)
      note jf = str_find_SomeD [OF j]
      have brj: "break_at (CHR '';'') (drop (Suc i) tgs) = Some (seg tgs (Suc i) j, drop (Suc j) tgs)"
        using jf(4,5) by (simp add: break_at_Some_iff)
      have "\<exists>p. tag_loop tgs (j + 1) (kv @ [(seg tgs prev i, seg tgs (i + 1) j)]) =
                  Inr ((kv @ [(seg tgs prev i, seg tgs (i + 1) j)]) @ spec_kv (drop (j + 1) tgs), p) \<and>
                (p = 0 \<longleftrightarrow> j + 1 = 0 \<and> CHR ''='' \<notin> set tgs)"
        using "1.IH" [OF Some _ j] i(1,2) jf(1,2) by (simp add: sv_range_ok)
      with Some j br brj i(1,2) jf(1,2) eq_in show ?thesis
        by (auto simp: tag_loop.simps [of tgs prev kv] spec_kv.simps [of "drop prev tgs"] sv_range_ok)
    qed
  qed
qed

text \<open>Each section leaves the index at which the rest of the reference parser's input starts.\<close>

lemma drop_suffix: "suffix r l \<Longrightarrow> drop (length l - length r) l = r"
  by (auto simp: suffix_def)

lemma parse_tag_section_spec:
  "parse_tag_section l = (case spec_tag_section l of
      None \<Rightarrow> Inl (CStr (if SP \<in> set l then ''Malformed tag'' else ''No command present''))
    | Some (tgs, kv, rest) \<Rightarrow> Inr (length l - length rest, tgs, kv))"
proof (cases l)
  case (Cons c r)
  show ?thesis
  proof (cases "c = CHR ''@''")
    case True
    have bs: "str_find SP l 1 = map_option (\<lambda>(a, q). 1 + length a) (break_at SP r)"
      using str_find_break [of 1 l SP] Cons by simp
    show ?thesis
    proof (cases "break_at SP r")
      case None
      moreover from None have "SP \<notin> set r" by (simp add: break_at_None_iff)
      ultimately show ?thesis using Cons True bs
        by (simp add: parse_tag_section_def spec_tag_section_def str_at_def)
    next
      case (Some ar)
      obtain tgs rest where ar: "ar = (tgs, rest)" by (cases ar)
      with Some have r: "r = tgs @ SP # rest" by (simp add: break_at_Some_iff)
      have sl: "sv_range l 1 (1 + length tgs) = Inr tgs"
        using Cons r by (simp add: sv_range_def seg_def)
      obtain p where p: "tag_loop tgs 0 [] = Inr (spec_kv tgs, p)" "p = 0 \<longleftrightarrow> CHR ''='' \<notin> set tgs"
        using tag_loop_spec [of 0 tgs "[]"] by auto
      show ?thesis using Cons True bs Some ar r sl p
        by (auto simp: parse_tag_section_def spec_tag_section_def str_at_def)
    qed
  qed (use Cons in \<open>simp add: parse_tag_section_def spec_tag_section_def str_at_def\<close>)
qed (simp add: parse_tag_section_def spec_tag_section_def str_at_def)

lemma parse_source_section_spec:
  assumes "i \<le> length l"
  shows "parse_source_section l i = (case spec_source_section (drop i l) of
      None \<Rightarrow> Inl (CStr ''No command present'')
    | Some (src, rest) \<Rightarrow> Inr (length l - length rest, src))"
proof (cases "drop i l")
  case Nil
  then show ?thesis using assms
    by (simp add: parse_source_section_def spec_source_section_def str_at_drop)
next
  case (Cons c r)
  then have il: "i < length l" and r: "drop (Suc i) l = r"
    by (metis assms drop_all le_neq_implies_less list.distinct(1) order_refl)
       (metis Cons drop_Suc list.sel(3) tl_drop)
  have bs: "str_find SP l (Suc i) = map_option (\<lambda>(a, q). Suc i + length a) (break_at SP r)"
    using str_find_break [of "Suc i" l SP] il r by simp
  have len: "length l = Suc i + length r" using il r by auto
  have id: "length l - length (drop i l) = i" using il by simp
  show ?thesis
  proof (cases "break_at SP r")
    case None
    then show ?thesis using Cons bs assms id
      by (simp add: parse_source_section_def spec_source_section_def str_at_drop)
  next
    case (Some ar)
    obtain a q where ar: "ar = (a, q)" by (cases ar)
    with Some have rq: "r = a @ SP # q" by (simp add: break_at_Some_iff)
    have sl: "sv_range l (Suc i) (Suc (i + length a)) = Inr a"
      using il r rq len by (simp add: sv_range_def seg_def)
    show ?thesis using Cons bs assms id Some ar sl len rq
      by (simp add: parse_source_section_def spec_source_section_def str_at_drop)
  qed
qed

lemma parse_command_section_spec:
  assumes "i \<le> length l"
  shows "\<exists>w. parse_command_section l i = (case spec_command_section (drop i l) of
      None \<Rightarrow> Inl (CStr w)
    | Some (cmd, rest) \<Rightarrow> Inr (length l - length rest, cmd))"
proof (cases "drop i l")
  case Nil
  then show ?thesis using assms
    by (simp add: parse_command_section_def spec_command_section_def str_at_drop)
next
  case (Cons c r)
  have bs: "str_find SP l i = map_option (\<lambda>(a, q). i + length a) (break_at SP (c # r))"
    using str_find_break [of i l SP] Cons assms by simp
  have id: "length l - length (drop i l) = i" using assms by simp
  show ?thesis
  proof (cases "break_at SP (c # r)")
    case None
    then show ?thesis using Cons bs assms id
      by (simp add: parse_command_section_def spec_command_section_def str_at_drop)
  next
    case (Some ar)
    obtain a q where ar: "ar = (a, q)" by (cases ar)
    with Some have rq: "drop i l = a @ SP # q" using Cons by (simp add: break_at_Some_iff)
    have len: "length l = i + Suc (length a + length q)"
      using arg_cong [OF rq, of length] assms by simp
    have sl: "sv_range l i (i + length a) = Inr a"
      using rq len by (simp add: sv_range_def seg_def)
    show ?thesis using Cons bs assms id Some ar sl len
      by (simp add: parse_command_section_def spec_command_section_def str_at_drop)
  qed
qed

lemma param_loop_spec:
  "prev \<le> length l \<Longrightarrow>
     \<exists>qs. param_loop l prev ps = Inr (ps @ qs) \<and>
          map (sv_contents l) qs = spec_params (drop prev l) \<and>
          (\<forall>(a, b) \<in> set qs. a \<le> b \<and> b \<le> length l)"
proof (induction l prev ps rule: param_loop.induct)
  case (1 l prev ps)
  show ?case
  proof (cases "str_find SP l prev")
    case None
    then have "break_at SP (drop prev l) = None"
      by (simp add: break_at_None_iff str_find_NoneD)
    with None "1.prems" show ?thesis
      by (simp add: param_loop.simps [of l prev ps] spec_params.simps [of "drop prev l"] sv_range_ok
          sv_contents_def)
  next
    case (Some i)
    note i = str_find_SomeD [OF Some]
    have br: "break_at SP (drop prev l) = Some (seg l prev i, drop (Suc i) l)"
      using i(4,5) by (simp add: break_at_Some_iff)
    have rng: "sv_range l prev i = Inr (seg l prev i)" using i by (simp add: sv_range_ok)
    show ?thesis
    proof (cases "str_find_first_not_of SP l (i + 1)")
      case None
      then show ?thesis using Some br rng i(1,2) str_find_first_not_of_NoneD [OF None]
        by (simp add: param_loop.simps [of l prev ps] spec_params.simps [of "drop prev l"]
            sv_contents_def)
    next
      case p: (Some p)
      note pf = str_find_first_not_of_SomeD [OF p]
      then obtain t ts where d: "drop p l = t # ts" by (metis Cons_nth_drop_Suc)
      have dw: "dropWhile (\<lambda>c. c = SP) (drop (Suc i) l) = t # ts" using pf(3) d by simp
      from "1.IH" [OF Some rng p] pf obtain qs where
        qs: "param_loop l p (ps @ [(prev, i)]) = Inr ((ps @ [(prev, i)]) @ qs)"
          "map (sv_contents l) qs = spec_params (drop p l)"
          "\<forall>(a, b) \<in> set qs. a \<le> b \<and> b \<le> length l" by auto
      have "param_loop l prev ps = Inr (ps @ (prev, i) # qs)"
        using Some rng p qs(1) by (simp add: param_loop.simps [of l prev ps])
      moreover have "map (sv_contents l) ((prev, i) # qs) = spec_params (drop prev l)"
        using br qs(2) dw d by (simp add: spec_params.simps [of "drop prev l"] sv_contents_def)
      ultimately show ?thesis using qs(3) i by (intro exI [of _ "(prev, i) # qs"]) simp
    qed
  qed
qed

lemma spec_params_nonempty [simp]: "spec_params s \<noteq> []"
  by (simp add: spec_params.simps [of s] split: option.splits prod.splits list.splits)

lemma spec_section_suffix:
  "spec_tag_section l = Some (tgs, kv, rest) \<Longrightarrow> suffix rest l"
  "spec_source_section s = Some (src, rest) \<Longrightarrow> suffix rest s"
  "spec_command_section s = Some (cmd, rest) \<Longrightarrow> suffix rest s"
  by (auto simp: spec_tag_section_def spec_source_section_def spec_command_section_def
      break_at_Some_iff suffix_def split: list.splits option.splits if_splits)

lemma parse_command_and_params_spec:
  assumes "suffix s l"
  shows "\<exists>w. case spec_command_section s of
      None \<Rightarrow> parse_command_and_params l (length l - length s) = Inl (CStr w)
    | Some (cmd, r) \<Rightarrow>
        if hd (spec_params r) = [] then parse_command_and_params l (length l - length s) = Inl (CStr w)
        else \<exists>qs. parse_command_and_params l (length l - length s) = Inr (cmd, qs) \<and>
               map (sv_contents l) qs = spec_params r \<and>
               (\<forall>(a, b) \<in> set qs. a \<le> b \<and> b \<le> length l)"
proof -
  have s: "drop (length l - length s) l = s" using assms by (rule drop_suffix)
  obtain w where step: "parse_command_section l (length l - length s) =
      (case spec_command_section s of None \<Rightarrow> Inl (CStr w)
       | Some (cmd, rest) \<Rightarrow> Inr (length l - length rest, cmd))"
    using parse_command_section_spec [of "length l - length s" l, unfolded s] by auto
  show ?thesis
  proof (cases "spec_command_section s")
    case None
    then show ?thesis using step by (simp add: parse_command_and_params_def)
  next
    case (Some z)
    obtain cmd r where z: "z = (cmd, r)" by (cases z)
    have "suffix r l"
      using assms spec_section_suffix(3) [OF Some [unfolded z]] suffix_order.trans by blast
    then have r: "drop (length l - length r) l = r" by (rule drop_suffix)
    obtain qs where qs: "param_loop l (length l - length r) [] = Inr qs"
        "map (sv_contents l) qs = spec_params r" "\<forall>(a, b) \<in> set qs. a \<le> b \<and> b \<le> length l"
      using param_loop_spec [of "length l - length r" l "[]", unfolded r] by auto
    have ne: "qs \<noteq> []" using qs(2) spec_params_nonempty by (metis list.map(1))
    have hd: "hd (spec_params r) = sv_contents l (qs ! 0)"
      using qs(2) ne by (metis hd_conv_nth hd_map)
    show ?thesis using step Some z qs ne hd by (auto simp: parse_command_and_params_def vec_idx_def)
  qed
qed

lemma IRCMessage_new_spec:
  "(case spec_message l t of
      Inl e \<Rightarrow> IRCMessage_new l t = Inl e
    | Inr v \<Rightarrow> \<exists>m. IRCMessage_new l t = Inr m \<and> msg_observe m = v \<and> line m = l \<and>
                  message_type m = t \<and> (\<forall>(a, b) \<in> set (param_vec m). a \<le> b \<and> b \<le> length l))"
proof (cases "spec_tag_section l")
  case None
  then show ?thesis
    by (simp add: spec_message_def IRCMessage_new_def IRCMessage_body_def parse_tag_section_spec)
next
  case (Some x)
  obtain tgs kv s1 where x: "x = (tgs, kv, s1)" by (cases x)
  note tag = Some [unfolded x]
  have s1: "drop (length l - length s1) l = s1"
    using drop_suffix [OF spec_section_suffix(1) [OF tag]] .
  note src_step = parse_source_section_spec [of "length l - length s1" l, unfolded s1]
  show ?thesis
  proof (cases "spec_source_section s1")
    case None
    then show ?thesis using tag src_step
      by (simp add: spec_message_def IRCMessage_new_def IRCMessage_body_def parse_tag_section_spec)
  next
    case (Some y)
    obtain src s2 where y: "y = (src, s2)" by (cases y)
    note src = Some [unfolded y]
    have "suffix s2 l"
      using spec_section_suffix(1) [OF tag] spec_section_suffix(2) [OF src] suffix_order.trans by blast
    note tail = parse_command_and_params_spec [OF this]
    have excl: "str_find (CHR ''!'') src 0 = None \<longleftrightarrow> CHR ''!'' \<notin> set src"
      by (simp add: str_find_def index_from_None_iff) blast
    show ?thesis
    proof (cases "spec_command_section s2")
      case None
      then show ?thesis using tag src src_step tail excl
        by (auto simp: spec_message_def IRCMessage_new_def IRCMessage_body_def parse_tag_section_spec)
    next
      case (Some z)
      then show ?thesis using tag src src_step tail excl
        by (cases z) (auto simp: spec_message_def IRCMessage_new_def IRCMessage_body_def
            parse_tag_section_spec msg_observe_def GetParameters_def)
    qed
  qed
qed

lemma IRCMessage_new_InrD:
  assumes "IRCMessage_new l t = Inr m"
  shows "spec_message l t = Inr (msg_observe m)" "line m = l" "message_type m = t"
    "\<forall>(a, b) \<in> set (param_vec m). a \<le> b \<and> b \<le> length l"
  using IRCMessage_new_spec [of l t] assms by (auto split: sum.splits)

lemma IRCMessage_new_error: "IRCMessage_new l t = Inl err \<Longrightarrow> \<exists>w. err = RuntimeError w"
  using IRCMessage_new_spec [of l t]
  by (auto simp: spec_message_def split: sum.splits option.splits prod.splits if_splits)

section \<open>Shape of an accepted message\<close>

lemma spec_params_words:
  "s = [] \<or> hd s \<noteq> SP \<Longrightarrow> s \<noteq> [] \<Longrightarrow> p \<in> set (spec_params s) \<Longrightarrow> p \<noteq> [] \<and> SP \<notin> set p"
proof (induction s rule: spec_params.induct)
  case (1 s)
  show ?case
  proof (cases "break_at SP s")
    case None
    then show ?thesis using "1.prems"
      by (simp add: spec_params.simps [of s]) (simp add: break_at_None_iff)
  next
    case (Some ar)
    obtain a r where ar: "ar = (a, r)" by (cases ar)
    with Some have s: "s = a @ SP # r" "SP \<notin> set a" by (simp_all add: break_at_Some_iff)
    with "1.prems" have a: "a \<noteq> [] \<and> SP \<notin> set a" by (cases a) auto
    show ?thesis
    proof (cases "dropWhile (\<lambda>c. c = SP) r")
      case Nil
      then show ?thesis using "1.prems" Some ar a by (simp add: spec_params.simps [of s])
    next
      case (Cons t ts)
      then have "t \<noteq> SP" using hd_dropWhile [of "\<lambda>c. c = SP" r] by simp
      then have "p \<in> set (spec_params (t # ts)) \<Longrightarrow> p \<noteq> [] \<and> SP \<notin> set p"
        using "1.IH" [OF Some ar [symmetric] Cons] by simp
      moreover have "spec_params s = a # spec_params (t # ts)"
        using Some ar Cons by (simp add: spec_params.simps [of s])
      ultimately show ?thesis using "1.prems"(3) a by auto
    qed
  qed
qed

lemma hd_spec_params: "hd (spec_params s) = takeWhile (\<lambda>c. c \<noteq> SP) s"
proof (cases "break_at SP s")
  case None
  then have "SP \<notin> set s" by (simp add: break_at_None_iff)
  then have "takeWhile (\<lambda>c. c \<noteq> SP) s = s" by (auto simp: takeWhile_eq_all_conv)
  moreover from None have "spec_params s = [s]" by (simp add: spec_params.simps [of s])
  ultimately show ?thesis by (metis list.sel(1))
next
  case (Some ar)
  obtain a r where ar: "ar = (a, r)" by (cases ar)
  have "hd (spec_params s) = a" using Some ar by (simp add: spec_params.simps [of s] split: list.split)
  moreover have "s = a @ SP # r" "SP \<notin> set a" using Some ar by (simp_all add: break_at_Some_iff)
  ultimately show ?thesis by (auto simp: takeWhile_append)
qed

lemma spec_message_params:
  assumes "spec_message l t = Inr v"
  shows "v_params v \<noteq> []" "\<forall>p \<in> set (v_params v). p \<noteq> [] \<and> SP \<notin> set p"
proof -
  from assms obtain s3 where s3: "v_params v = spec_params s3" "hd (spec_params s3) \<noteq> []"
    by (auto simp: spec_message_def split: option.splits prod.splits if_splits)
  show "v_params v \<noteq> []" using s3 by simp
  from s3(2) have "s3 \<noteq> []" "hd s3 \<noteq> SP" by (cases s3; simp add: hd_spec_params split: if_splits)+
  then show "\<forall>p \<in> set (v_params v). p \<noteq> [] \<and> SP \<notin> set p"
    using s3(1) spec_params_words by auto
qed

text \<open>Every section is a part of the line.\<close>

lemma spec_section_sets:
  "spec_tag_section l = Some (tgs, kv, s) \<Longrightarrow> set s \<subseteq> set l"
  "spec_source_section s = Some (src, s') \<Longrightarrow> set s' \<subseteq> set s" "spec_source_section s = Some (src, s') \<Longrightarrow> set src \<subseteq> set s"
  "spec_command_section s = Some (cmd, s') \<Longrightarrow> set cmd \<subseteq> set s"
proof -
  assume "spec_command_section s = Some (cmd, s')"
  then have "cmd = [] \<or> (\<exists>r. s = cmd @ SP # r)"
    by (auto simp: spec_command_section_def break_at_Some_iff split: list.splits option.splits if_splits)
  then show "set cmd \<subseteq> set s" by auto
qed (auto simp: spec_tag_section_def spec_source_section_def break_at_Some_iff
      split: list.splits option.splits if_splits)

lemma spec_message_parts:
  assumes "spec_message l t = Inr v"
  shows "set (v_command v) \<subseteq> set l" "set (v_source v) \<subseteq> set l"
proof -
  from assms obtain tgs kv s1 src s2 cmd s3 where "spec_tag_section l = Some (tgs, kv, s1)"
    "spec_source_section s1 = Some (src, s2)" "spec_command_section s2 = Some (cmd, s3)" "v_command v = cmd" "v_source v = src"
    by (auto simp: spec_message_def split: option.splits prod.splits if_splits)
  then show "set (v_command v) \<subseteq> set l" "set (v_source v) \<subseteq> set l" using spec_section_sets by blast+
qed

section \<open>Rendering\<close>

text \<open>The inverse of parsing, on the parts a message may be made of.\<close>

fun render_kv :: "(string \<times> string) list \<Rightarrow> string" where
  "render_kv [] = []"
| "render_kv [(k, v)] = k @ CHR ''='' # v"
| "render_kv ((k, v) # kv # kvs) = k @ CHR ''='' # v @ CHR '';'' # render_kv (kv # kvs)"

fun render_params :: "string list \<Rightarrow> string" where
  "render_params [] = []"
| "render_params [p] = p"
| "render_params (p # q # ps) = p @ SP # render_params (q # ps)"

definition render_message :: "(string \<times> string) list \<Rightarrow> string \<Rightarrow> string \<Rightarrow> string list \<Rightarrow> string" where
  "render_message kv src cmd ps =
     (if kv = [] then [] else CHR ''@'' # render_kv kv @ [SP]) @
     (if src = [] then [] else CHR '':'' # src @ [SP]) @ cmd @ SP # render_params ps"

fun wf_tag :: "string \<times> string \<Rightarrow> bool" where
  "wf_tag (k, v) \<longleftrightarrow> CHR ''='' \<notin> set k \<and> SP \<notin> set k \<and> CHR '';'' \<notin> set v \<and> SP \<notin> set v"

definition wf_word :: "string \<Rightarrow> bool" where
  "wf_word p \<longleftrightarrow> p \<noteq> [] \<and> SP \<notin> set p"

definition wf_command :: "string \<Rightarrow> bool" where
  "wf_command cmd \<longleftrightarrow> wf_word cmd \<and> hd cmd \<notin> {NUL, CHR ''@'', CHR '':''}"

lemma break_at_append [simp]: "c \<notin> set a \<Longrightarrow> break_at c (a @ c # r) = Some (a, r)"
  by (simp add: break_at_Some_iff)

lemma spec_kv_render: "list_all wf_tag kv \<Longrightarrow> spec_kv (render_kv kv) = kv"
proof (induction kv rule: render_kv.induct)
  case 1
  then show ?case by (simp add: spec_kv.simps)
next
  case (2 k v)
  then have "break_at (CHR '';'') v = None" by (simp add: break_at_None_iff)
  with 2 show ?case by (simp add: spec_kv.simps [of "k @ CHR ''='' # v"])
next
  case (3 k v kv kvs)
  then show ?case
    by (simp add: spec_kv.simps [of "k @ CHR ''='' # v @ CHR '';'' # render_kv (kv # kvs)"])
qed

lemma spec_params_render:
  "ps \<noteq> [] \<Longrightarrow> list_all wf_word ps \<Longrightarrow> spec_params (render_params ps) = ps"
proof (induction ps rule: render_params.induct)
  case (2 p)
  then have "break_at SP p = None" by (simp add: break_at_None_iff wf_word_def)
  then show ?case by (simp add: spec_params.simps [of p])
next
  case (3 p q ps)
  obtain c cs where c: "render_params (q # ps) = c # cs" "c \<noteq> SP"
    using 3 by (cases q; cases ps) (auto simp: wf_word_def)
  with 3 show ?case
    by (simp add: spec_params.simps [of "p @ SP # c # cs"] wf_word_def)
qed simp

lemma render_kv_tags:
  "list_all wf_tag kv \<Longrightarrow> SP \<notin> set (render_kv kv)"
  "kv \<noteq> [] \<Longrightarrow> CHR ''='' \<in> set (render_kv kv)"
  by (induction kv rule: render_kv.induct) auto

lemma spec_message_render:
  assumes "list_all wf_tag kv" "SP \<notin> set src" "wf_command cmd" "ps \<noteq> []" "list_all wf_word ps"
  shows "spec_message (render_message kv src cmd ps) DEFAULT_TYPE =
    Inr \<lparr>v_tags = render_kv kv, v_kv = kv, v_source = src, v_command = cmd, v_params = ps\<rparr>"
proof -
  let ?tail = "cmd @ SP # render_params ps"
  let ?mid = "(if src = [] then [] else CHR '':'' # src @ [SP]) @ ?tail"
  obtain c cs where cmd: "cmd = c # cs" "c \<noteq> NUL" "c \<noteq> CHR ''@''" "c \<noteq> CHR '':''"
    using assms(3) by (cases cmd) (auto simp: wf_command_def wf_word_def)
  have "spec_tag_section (render_message kv src cmd ps) = Some (render_kv kv, kv, ?mid)"
    using assms(1) cmd render_kv_tags [of kv]
    by (auto simp: spec_tag_section_def render_message_def spec_kv_render)
  moreover have "spec_source_section ?mid = Some (src, ?tail)"
    using assms(2) cmd by (auto simp: spec_source_section_def)
  moreover have "break_at SP ?tail = Some (cmd, render_params ps)"
    using assms(3) by (simp add: wf_command_def wf_word_def)
  then have "spec_command_section ?tail = Some (cmd, render_params ps)"
    using cmd by (simp add: spec_command_section_def)
  moreover have "hd ps \<noteq> []" using assms(4,5) by (cases ps) (simp_all add: wf_word_def)
  ultimately show ?thesis using assms(4,5) by (simp add: spec_message_def spec_params_render)
qed

lemma IRCMessage_new_render:
  assumes "list_all wf_tag kv" "SP \<notin> set src" "wf_command cmd" "ps \<noteq> []" "list_all wf_word ps"
  shows "\<exists>m. IRCMessage_new (render_message kv src cmd ps) DEFAULT_TYPE = Inr m \<and>
    line m = render_message kv src cmd ps \<and> message_type m = DEFAULT_TYPE \<and>
    tags m = render_kv kv \<and> tag_kv m = kv \<and> source m = src \<and> command m = cmd \<and>
    GetParameters m = ps"
  using IRCMessage_new_spec [of "render_message kv src cmd ps" DEFAULT_TYPE]
  by (auto simp: spec_message_render [OF assms] msg_observe_def)

section \<open>Properties\<close>

text \<open>The constructor is total and memory safe: on every line it either builds a message or
  throws one of its two \<open>std::runtime_error\<close>s, the second only when the caller asks for a PRIVMSG.
  No subscript or view leaves the buffer and no string literal escapes the function-try-block.\<close>

theorem IRCMessage_new_outcomes:
  "(\<exists>m. IRCMessage_new l t = Inr m) \<or>
   IRCMessage_new l t = Inl (RuntimeError ''IRCMessage parsing error'') \<or>
   (t = PRIVMSG \<and> IRCMessage_new l t = Inl (RuntimeError ''Bad source: Server message''))"
  using IRCMessage_new_spec [of l t]
  by (auto simp: spec_message_def split: sum.splits option.splits prod.splits if_splits)

text \<open>C1. The index-based constructor computes the reference parser: same accepted lines, same
  error, same tags, key-value pairs, source, command and parameters.\<close>

theorem IRCMessage_new_equiv: "map_sum id msg_observe (IRCMessage_new l t) = spec_message l t"
  using IRCMessage_new_spec [of l t] by (auto split: sum.splits)

text \<open>C16. Parsing inverts rendering: a line rendered from tags, a source, a command and
  parameters without separators in them parses back to exactly these parts.\<close>

theorem IRCMessage_roundtrip:
  assumes "list_all wf_tag kv" "SP \<notin> set src" "wf_command cmd" "ps \<noteq> []" "list_all wf_word ps"
  shows "\<exists>m. IRCMessage_new (render_message kv src cmd ps) DEFAULT_TYPE = Inr m \<and>
    tags m = render_kv kv \<and> tag_kv m = kv \<and> source m = src \<and> command m = cmd \<and>
    GetParameters m = ps"
  using IRCMessage_new_render [OF assms] by blast

theorem IRCMessage_roundtrip_witness:
  "\<exists>m. IRCMessage_new ''@url=;netsplit=tur,ty :dan!d@localhost PRIVMSG #chan :hey up!''
      DEFAULT_TYPE = Inr m \<and> source m = ''dan!d@localhost'' \<and> command m = ''PRIVMSG'' \<and>
      tag_kv m = [(''url'', []), (''netsplit'', ''tur,ty'')] \<and>
      GetParameters m = [''#chan'', '':hey'', ''up!'']"
  using IRCMessage_roundtrip [of "[(''url'', []), (''netsplit'', ''tur,ty'')]" "''dan!d@localhost''"
      "''PRIVMSG''" "[''#chan'', '':hey'', ''up!'']"]
  by (simp add: wf_command_def wf_word_def render_message_def) blast

text \<open>An accepted message has at least one parameter, no parameter is empty or contains a
  space, and every parameter view lies inside the line that the message owns.\<close>

theorem IRCMessage_params_wf:
  assumes "IRCMessage_new l t = Inr m"
  shows "GetParameters m \<noteq> [] \<and> (\<forall>p \<in> set (GetParameters m). p \<noteq> [] \<and> SP \<notin> set p) \<and>
    (\<forall>(a, b) \<in> set (param_vec m). a \<le> b \<and> b \<le> length (line m))"
  using IRCMessage_new_InrD [OF assms] spec_message_params [of l t "msg_observe m"]
  by (simp add: msg_observe_def)

theorem IRCMessage_params_wf_witness:
  "\<exists>m. IRCMessage_new '':dan!d@localhost NICK :danny'' DEFAULT_TYPE = Inr m \<and>
      GetParameters m = ['':danny''] \<and> list_all (\<lambda>(a, b). a \<le> b \<and> b \<le> length (line m)) (param_vec m)"
proof -
  obtain m where m: "IRCMessage_new '':dan!d@localhost NICK :danny'' DEFAULT_TYPE = Inr m"
      "GetParameters m = ['':danny'']"
    using IRCMessage_new_render [of "[]" "''dan!d@localhost''" "''NICK''" "['':danny'']"]
    by (auto simp: wf_command_def wf_word_def render_message_def)
  then show ?thesis using IRCMessage_params_wf [OF m(1)] by (simp add: list_all_iff)
qed

end
