(* ===== verification/IRC_Dispatch.thy ===== *)
theory IRC_Dispatch
  imports IRC_Message
begin

text \<open>
  Sources, capabilities and message kinds (\<open>src/src/IRC.hh\<close> from the message types on, and the end
  of \<open>src/src/IRC.cc\<close>): \<open>ParseSourceUser\<close>, the predicates of namespace \<open>Message\<close>, the accessors of
  the message classes, the 64-bit command mask with the \<open>switch\<close> over it, and the construction of
  the variant that the worker visits. The parameter \<open>nd\<close> says whether the build defines \<open>NDEBUG\<close>.
\<close>

section \<open>Sources and capabilities\<close>

definition IsUserMessage :: "string \<Rightarrow> bool" where
  "IsUserMessage src = (if str_find (CHR ''!'') src 0 = None then False else True)"

definition IsServerMessage :: "string \<Rightarrow> bool" where
  "IsServerMessage src = (\<not> IsUserMessage src)"

text \<open>\<open>std::min(source.find(c, pos), src_size)\<close>\<close>

definition find_or_size :: "char \<Rightarrow> string \<Rightarrow> nat \<Rightarrow> nat" where
  "find_or_size c s pos = (case str_find c s pos of None \<Rightarrow> length s | Some i \<Rightarrow> i)"

definition ParseSourceUser :: "bool \<Rightarrow> string \<Rightarrow> IRCUser result" where
  "ParseSourceUser nd src =
     (if \<not> IsUserMessage src
      then Inl (RuntimeError ''Source parameter is not a valid IRCUser specification'')
      else
        (let src_size = length src; cur = 0; nxt = find_or_size (CHR ''!'') src cur in
         rbind (cpp_assert nd (cur \<le> nxt) ''cur <= next'') (\<lambda>_.
         rbind (sv_range src cur nxt) (\<lambda>nick.
         if nxt = src_size then Inr \<lparr>u_nickname = nick, u_hostname = [], u_username = []\<rparr>
         else
           (let cur = nxt + 1; nxt = find_or_size (CHR ''@'') src nxt in
            rbind (cpp_assert nd (cur \<le> nxt) ''cur <= next'') (\<lambda>_.
            rbind (sv_range src cur nxt) (\<lambda>user.
            if nxt = src_size then Inr \<lparr>u_nickname = nick, u_hostname = [], u_username = user\<rparr>
            else
              (let cur = nxt + 1; nxt = src_size in
               rbind (cpp_assert nd (cur \<le> nxt) ''cur <= next'') (\<lambda>_.
               rbind (sv_range src cur nxt) (\<lambda>host.
                 Inr \<lparr>u_nickname = nick, u_hostname = host, u_username = user\<rparr>))))))))))"

datatype IRCUserCapability = kQuit | kPart | kJoin | kNickModify | kMax

fun cap_mask :: "IRCUserCapability \<Rightarrow> 64 word" where
  "cap_mask kQuit = push_bit 0 1"
| "cap_mask kPart = push_bit 1 1"
| "cap_mask kJoin = push_bit 2 1"
| "cap_mask kNickModify = push_bit 3 1"
| "cap_mask kMax = 0xFFFFFFFFFFFFFFFF"

definition IsUserCapable :: "IRCUser \<Rightarrow> 64 word \<Rightarrow> bool" where
  "IsUserCapable u msk =
     (let kkd_cap_mask = (0xFFFFFFFFFFFFFFFF :: 64 word) in
      if u_nickname u = ''kkd'' \<and> u_username u = ''~memxor'' \<and>
         u_hostname u = ''unaffiliated/kartikeya''
      then (if kkd_cap_mask AND msk \<noteq> 0 then True else False)
      else False)"

section \<open>Message predicates and accessors\<close>

definition IsQuitMessage :: "bool \<Rightarrow> IRCMessage \<Rightarrow> bool result" where
  "IsQuitMessage nd m =
     (if IsServerMessage (source m) then Inr False
      else
        let params = GetParameters m in
        rbind (if 1 < length params then rbind (vec_at params 1) (\<lambda>p. Inr (p \<noteq> '':,quit''))
               else Inr False) (\<lambda>other.
        if other then Inr False
        else if message_type m \<noteq> PRIVMSG then Inr False
        else rbind (ParseSourceUser nd (source m)) (\<lambda>u.
          if \<not> IsUserCapable u (cap_mask kQuit) then Inr False else Inr True)))"

definition IsPingMessage :: "IRCMessage \<Rightarrow> bool" where
  "IsPingMessage m = (if command m = ''PING'' then True else False)"

definition IsPrivMsgMessage :: "IRCMessage \<Rightarrow> bool" where
  "IsPrivMsgMessage m =
     (if IsServerMessage (source m) then False
      else if command m \<noteq> ''PRIVMSG'' then False else True)"

text \<open>The accessors of the message classes. \<open>GetUserCommandParameters\<close> returns views.\<close>

definition GetPongParameter :: "IRCMessage \<Rightarrow> string result" where
  "GetPongParameter m = vec_at (GetParameters m) 0"

definition GetNewNickname :: "IRCMessage \<Rightarrow> string result" where
  "GetNewNickname m = rbind (vec_at (GetParameters m) 0) (\<lambda>p. sv_substr p 1)"

definition GetUser :: "bool \<Rightarrow> IRCMessage \<Rightarrow> IRCUser result" where
  "GetUser nd m = ParseSourceUser nd (source m)"

definition GetChannel :: "IRCMessage \<Rightarrow> string result" where
  "GetChannel m = vec_at (GetParameters m) 0"

definition GetUserCommand :: "IRCMessage \<Rightarrow> string result" where
  "GetUserCommand m = vec_at (GetParameters m) 1"

definition GetUserCommandParameters :: "IRCMessage \<Rightarrow> ((nat \<times> nat) list) result" where
  "GetUserCommandParameters m =
     (if length (param_vec m) < 2 then Inl OutOfRange else Inr (drop 2 (param_vec m)))"

section \<open>Classification by the command mask\<close>

text \<open>\<open>mask |= static_cast<uint64_t>(static_cast<unsigned char>(*p++) & 0xff) << (i * 8)\<close>\<close>

fun mask_loop :: "nat \<Rightarrow> string \<Rightarrow> 64 word \<Rightarrow> 64 word" where
  "mask_loop i [] acc = acc"
| "mask_loop i (c # cs) acc =
     mask_loop (Suc i) cs (acc OR push_bit (i * 8) (of_nat (of_char c) AND 0xff))"

definition GetCommandMaskAsUint :: "string \<Rightarrow> 64 word" where
  "GetCommandMaskAsUint cmd = (if length cmd \<le> 8 then mask_loop 0 cmd 0 else 0)"

definition command_type :: "string \<Rightarrow> IRCMessageType" where
  "command_type cmd =
     (let msk = GetCommandMaskAsUint cmd in
      if msk = GetCommandMaskAsUint ''PING'' then PING
      else if msk = GetCommandMaskAsUint ''LOGIN'' then LOGIN
      else if msk = GetCommandMaskAsUint ''NICK'' then NICK
      else if msk = GetCommandMaskAsUint ''JOIN'' then JOIN
      else if msk = GetCommandMaskAsUint ''PART'' then PART
      else if msk = GetCommandMaskAsUint ''PRIVMSG'' then PRIVMSG
      else if msk = GetCommandMaskAsUint ''KILL'' \<or> msk = GetCommandMaskAsUint ''QUIT'' then QUIT
      else DEFAULT_TYPE)"

definition GetSetIRCMessageType :: "IRCMessage \<Rightarrow> IRCMessageType \<times> IRCMessage" where
  "GetSetIRCMessageType m =
     (let t = command_type (command m) in (t, m\<lparr>message_type := t\<rparr>))"

section \<open>The variant\<close>

datatype IRCMessageVariant =
    Monostate
  | VMessage IRCMessage
  | VPing IRCMessage
  | VNick IRCMessage
  | VJoin IRCMessage
  | VPart IRCMessage
  | VPrivMsg IRCMessage
  | VQuit

text \<open>The \<open>IRCMessagePrivMsg\<close> constructor asserts that there is a parameter.\<close>

definition IRCMessagePrivMsg_new :: "bool \<Rightarrow> IRCMessage \<Rightarrow> IRCMessage result" where
  "IRCMessagePrivMsg_new nd m =
     rbind (cpp_assert nd (1 \<le> length (param_vec m)) ''param_vec.size() >= 1'') (\<lambda>_. Inr m)"

definition GetIRCMessageVariantFrom :: "bool \<Rightarrow> IRCMessage \<Rightarrow> IRCMessageVariant result" where
  "GetIRCMessageVariantFrom nd m0 =
     (let (t, m) = GetSetIRCMessageType m0 in
      case t of
        PING \<Rightarrow> Inr (VPing m)
      | NICK \<Rightarrow>
          rbind (cpp_assert nd (IsUserMessage (source m)) ''Message::IsUserMessage(m.GetSource())'')
            (\<lambda>_. Inr (VNick m))
      | JOIN \<Rightarrow> Inr (VJoin m)
      | PART \<Rightarrow> Inr (VPart m)
      | PRIVMSG \<Rightarrow>
          rbind (cpp_assert nd (\<not> IsServerMessage (source m)) ''!Message::IsServerMessage(m.GetSource())'')
            (\<lambda>_. rbind (IsQuitMessage nd m) (\<lambda>q.
              if \<not> q then rbind (IRCMessagePrivMsg_new nd m) (\<lambda>pm. Inr (VPrivMsg pm))
              else Inr VQuit))
      | QUIT \<Rightarrow> Inr VQuit
      | _ \<Rightarrow> Inr (VMessage m))"

section \<open>The mask identifies a command\<close>

text \<open>The value of a mask as a number in base 256.\<close>

fun packed :: "string \<Rightarrow> nat" where
  "packed [] = 0"
| "packed (c # cs) = of_char c + 256 * packed cs"

lemma or_push_bit_nat:
  assumes "x < 2 ^ n"
  shows "x OR push_bit n y = x + push_bit n (y :: nat)"
proof -
  have "x + push_bit n y = x OR push_bit n y"
  proof (rule disjunctive_add)
    fix k
    show "\<not> bit x k \<or> \<not> bit (push_bit n y) k"
    proof (cases "k < n")
      case True
      then show ?thesis by (simp add: bit_push_bit_iff)
    next
      case False
      then have "x < 2 ^ k"
        using assms by (meson linorder_not_less order_less_le_trans power_increasing one_le_numeral)
      then show ?thesis by (simp add: bit_iff_odd)
    qed
  qed
  then show ?thesis by simp
qed

lemma of_char_and_255: "(of_nat (of_char c) :: 64 word) AND 0xff = of_nat (of_char c)"
proof -
  have "(of_char c :: nat) AND 0xff = of_char c"
    using take_bit_eq_mask [of 8 "of_char c :: nat"] take_bit_nat_eq_self [of "of_char c" 8]
    by (simp add: mask_eq_exp_minus_1)
  then show ?thesis by (metis of_nat_and_eq of_nat_numeral)
qed

lemma mask_loop_packed: "mask_loop i cs acc = acc OR push_bit (i * 8) (of_nat (packed cs))"
proof (induction cs arbitrary: i acc)
  case Nil
  then show ?case by simp
next
  case (Cons c cs)
  have "packed (c # cs) = of_char c OR push_bit 8 (packed cs)"
    using or_push_bit_nat [of "of_char c" 8 "packed cs"] by (simp add: push_bit_eq_mult)
  then have "(of_nat (packed (c # cs)) :: 64 word) = of_nat (of_char c) OR push_bit 8 (of_nat (packed cs))"
    by (simp add: of_nat_or_eq push_bit_of_nat)
  then show ?case using Cons [of "Suc i" "acc OR push_bit (i * 8) (of_nat (of_char c))"]
    by (simp add: of_char_and_255 push_bit_or push_bit_push_bit or.assoc add.commute)
qed

lemma packed_bound: "packed cs < 256 ^ length cs"
proof (induction cs)
  case (Cons c cs)
  have "packed (c # cs) < 256 + 256 * packed cs" by simp
  also have "\<dots> \<le> 256 * 256 ^ length cs" using Cons by simp
  finally show ?case by simp
qed simp

lemma of_char_eq_0: "(of_char c :: nat) = 0 \<longleftrightarrow> c = NUL"
  using of_char_eq_iff [of c NUL, where 'a = nat] by simp

lemma packed_inj: "packed a = packed b \<Longrightarrow> NUL \<notin> set a \<Longrightarrow> NUL \<notin> set b \<Longrightarrow> a = b"
proof (induction a arbitrary: b)
  case Nil
  then show ?case by (cases b) (auto simp: of_char_eq_0)
next
  case (Cons c cs)
  show ?case
  proof (cases b)
    case Nil
    then show ?thesis using Cons.prems by (auto simp: of_char_eq_0)
  next
    case b: (Cons d ds)
    have e: "(of_char c :: nat) + 256 * packed cs = of_char d + 256 * packed ds"
      using Cons.prems b by simp
    have cd: "(of_char c :: nat) = of_char d" using arg_cong [OF e, of "\<lambda>n. n mod 256"] by simp
    with e have "packed cs = packed ds" by simp
    with Cons b cd show ?thesis by (simp add: of_char_eq_iff)
  qed
qed

lemma GetCommandMaskAsUint_packed:
  "length cs \<le> 8 \<Longrightarrow> unat (GetCommandMaskAsUint cs) = packed cs"
proof -
  assume l: "length cs \<le> 8"
  have "packed cs < 256 ^ length cs" by (rule packed_bound)
  also have "\<dots> \<le> 256 ^ 8" using l by (intro power_increasing) simp_all
  finally have "packed cs < 2 ^ 64" by simp
  then show ?thesis using l
    by (simp add: GetCommandMaskAsUint_def mask_loop_packed unat_of_nat)
qed

lemma GetCommandMaskAsUint_eq_iff:
  assumes "NUL \<notin> set a" "NUL \<notin> set b" "b \<noteq> []" "length b \<le> 8"
  shows "GetCommandMaskAsUint a = GetCommandMaskAsUint b \<longleftrightarrow> a = b"
proof (cases "length a \<le> 8")
  case True
  then show ?thesis using assms packed_inj [of a b]
    by (metis GetCommandMaskAsUint_packed)
next
  case False
  have "packed b \<noteq> 0" using packed_inj [of b "[]"] assms by auto
  then have "GetCommandMaskAsUint b \<noteq> 0"
    using GetCommandMaskAsUint_packed [of b] assms by auto
  then show ?thesis using False assms by (auto simp: GetCommandMaskAsUint_def)
qed

text \<open>What the \<open>switch\<close> is meant to compute.\<close>

definition spec_command_type :: "string \<Rightarrow> IRCMessageType" where
  "spec_command_type cmd =
     (if cmd = ''PING'' then PING else if cmd = ''LOGIN'' then LOGIN
      else if cmd = ''NICK'' then NICK else if cmd = ''JOIN'' then JOIN
      else if cmd = ''PART'' then PART else if cmd = ''PRIVMSG'' then PRIVMSG
      else if cmd = ''KILL'' \<or> cmd = ''QUIT'' then QUIT else DEFAULT_TYPE)"

lemma command_type_spec: "NUL \<notin> set cmd \<Longrightarrow> command_type cmd = spec_command_type cmd"
  by (simp add: command_type_def spec_command_type_def GetCommandMaskAsUint_eq_iff Let_def)

section \<open>Sources by splitting\<close>

definition spec_source_user :: "string \<Rightarrow> IRCUser option" where
  "spec_source_user src =
     (case break_at (CHR ''!'') src of
        None \<Rightarrow> None
      | Some (nick, r) \<Rightarrow>
          (case break_at (CHR ''@'') r of
             None \<Rightarrow> Some \<lparr>u_nickname = nick, u_hostname = [], u_username = r\<rparr>
           | Some (user, host) \<Rightarrow>
               Some \<lparr>u_nickname = nick, u_hostname = host, u_username = user\<rparr>))"

lemma IsUserMessage_iff: "IsUserMessage src \<longleftrightarrow> CHR ''!'' \<in> set src"
  by (auto simp: IsUserMessage_def str_find_def index_from_None_iff)

lemma find_or_size_break:
  "pos \<le> length s \<Longrightarrow> find_or_size c s pos =
     (case break_at c (drop pos s) of None \<Rightarrow> length s | Some (a, r) \<Rightarrow> pos + length a)"
  by (auto simp: find_or_size_def str_find_break split: option.splits)

lemma ParseSourceUser_spec:
  "ParseSourceUser nd src = (case spec_source_user src of
      None \<Rightarrow> Inl (RuntimeError ''Source parameter is not a valid IRCUser specification'')
    | Some u \<Rightarrow> Inr u)"
proof (cases "break_at (CHR ''!'') src")
  case None
  then have "\<not> IsUserMessage src" by (simp add: IsUserMessage_iff break_at_None_iff)
  with None show ?thesis by (simp add: ParseSourceUser_def spec_source_user_def)
next
  case (Some x)
  obtain n r where x: "x = (n, r)" by (cases x)
  with Some have src: "src = n @ CHR ''!'' # r" and n: "CHR ''!'' \<notin> set n"
    by (simp_all add: break_at_Some_iff)
  have um: "IsUserMessage src" using src by (simp add: IsUserMessage_iff)
  have f1: "find_or_size (CHR ''!'') src 0 = length n"
    using Some x by (simp add: find_or_size_break)
  have s1: "sv_range src 0 (length n) = Inr n" using src by (simp add: sv_range_def seg_def)
  have d: "drop (length n) src = CHR ''!'' # r" using src by simp
  have brd: "break_at (CHR ''@'') (CHR ''!'' # r) =
      map_option (\<lambda>(a, h). (CHR ''!'' # a, h)) (break_at (CHR ''@'') r)"
    by (simp add: break_at_Cons)
  show ?thesis
  proof (cases "break_at (CHR ''@'') r")
    case None
    have f2: "find_or_size (CHR ''@'') src (length n) = length src"
      using None d brd src by (simp add: find_or_size_break)
    have s2: "sv_range src (Suc (length n)) (length src) = Inr r"
      using src by (simp add: sv_range_def seg_def)
    show ?thesis using um f1 s1 f2 s2 Some x None src
      by (simp add: ParseSourceUser_def spec_source_user_def Let_def)
  next
    case y: (Some y)
    obtain u h where y': "y = (u, h)" by (cases y)
    with y have r: "r = u @ CHR ''@'' # h" by (simp add: break_at_Some_iff)
    have f2: "find_or_size (CHR ''@'') src (length n) = Suc (length n + length u)"
      using y y' d brd src by (simp add: find_or_size_break)
    have s2: "sv_range src (Suc (length n)) (Suc (length n + length u)) = Inr u"
      using src r by (simp add: sv_range_def seg_def)
    have s3: "sv_range src (Suc (Suc (length n + length u))) (length src) = Inr h"
      using src r by (simp add: sv_range_def seg_def)
    show ?thesis using um f1 s1 f2 s2 s3 Some x y y' src r
      by (simp add: ParseSourceUser_def spec_source_user_def Let_def)
  qed
qed

lemma ParseSourceUser_ok: "IsUserMessage src \<Longrightarrow> \<exists>u. ParseSourceUser nd src = Inr u"
  by (auto simp: ParseSourceUser_spec spec_source_user_def IsUserMessage_iff break_at_None_iff
      split: option.splits prod.splits)

section \<open>The owner\<close>

text \<open>The only source that \<open>IsUserCapable\<close> accepts.\<close>

definition owner_source :: string where
  "owner_source = ''kkd!~memxor@unaffiliated/kartikeya''"

lemma all_ones_and: "(0xFFFFFFFFFFFFFFFF :: 64 word) AND x = x"
proof -
  have "(0xFFFFFFFFFFFFFFFF :: 64 word) = - 1" by simp
  then show ?thesis by (metis and.left_neutral)
qed

lemma capable_iff_owner:
  assumes "ParseSourceUser nd src = Inr u"
  shows "IsUserCapable u msk \<longleftrightarrow> src = owner_source \<and> msk \<noteq> 0"
proof -
  from assms have "spec_source_user src = Some u"
    by (simp add: ParseSourceUser_spec split: option.splits)
  then have "u_nickname u = ''kkd'' \<and> u_username u = ''~memxor'' \<and>
      u_hostname u = ''unaffiliated/kartikeya'' \<longleftrightarrow> src = owner_source" (is "?l \<longleftrightarrow> ?r")
  proof (intro iffI)
    assume ?l
    with \<open>spec_source_user src = Some u\<close> show ?r
      by (auto simp: spec_source_user_def owner_source_def break_at_Some_iff split: option.splits)
  next
    assume ?r
    with \<open>spec_source_user src = Some u\<close> show ?l
      by (auto simp: spec_source_user_def owner_source_def str_simps)
  qed
  then show ?thesis by (simp add: IsUserCapable_def all_ones_and)
qed

section \<open>The variant by the command\<close>

lemma GetParameters_type [simp]: "GetParameters (m\<lparr>message_type := t\<rparr>) = GetParameters m"
  by (simp add: GetParameters_def)

lemma length_GetParameters [simp]: "length (GetParameters m) = length (param_vec m)"
  by (simp add: GetParameters_def)

definition quit_requested :: "IRCMessage \<Rightarrow> bool" where
  "quit_requested m \<longleftrightarrow> source m = owner_source \<and>
     (length (GetParameters m) \<le> 1 \<or> GetParameters m ! 1 = '':,quit'')"

lemma IsQuitMessage_spec:
  "IsQuitMessage nd m = Inr (message_type m = PRIVMSG \<and> quit_requested m)"
proof (cases "IsUserMessage (source m)")
  case True
  then obtain u where u: "ParseSourceUser nd (source m) = Inr u" using ParseSourceUser_ok by blast
  then have "IsUserCapable u (cap_mask kQuit) \<longleftrightarrow> source m = owner_source"
    by (simp add: capable_iff_owner [OF u])
  with True u show ?thesis
    by (auto simp: IsQuitMessage_def IsServerMessage_def quit_requested_def Let_def vec_at_def)
next
  case False
  then have "source m \<noteq> owner_source" by (auto simp: IsUserMessage_iff owner_source_def)
  with False show ?thesis by (simp add: IsQuitMessage_def IsServerMessage_def quit_requested_def)
qed

definition spec_variant :: "IRCMessage \<Rightarrow> IRCMessageVariant" where
  "spec_variant m =
     (case message_type m of
        PING \<Rightarrow> VPing m | NICK \<Rightarrow> VNick m | JOIN \<Rightarrow> VJoin m | PART \<Rightarrow> VPart m
      | PRIVMSG \<Rightarrow> if quit_requested m then VQuit else VPrivMsg m
      | QUIT \<Rightarrow> VQuit | _ \<Rightarrow> VMessage m)"

definition needs_user_source :: "IRCMessageType \<Rightarrow> bool" where
  "needs_user_source t \<longleftrightarrow> t = NICK \<or> t = PRIVMSG"

text \<open>With \<open>NDEBUG\<close> the variant always exists; without it, exactly the NICK and PRIVMSG messages
  without a user source abort the process.\<close>

lemma GetIRCMessageVariantFrom_spec:
  assumes "param_vec m \<noteq> []"
  shows "GetIRCMessageVariantFrom nd m =
    (if nd \<or> \<not> needs_user_source (command_type (command m)) \<or> IsUserMessage (source m)
     then Inr (spec_variant (m\<lparr>message_type := command_type (command m)\<rparr>))
     else Inl (Abort (if command_type (command m) = NICK then ''Message::IsUserMessage(m.GetSource())''
                      else ''!Message::IsServerMessage(m.GetSource())'')))"
proof -
  have len: "1 \<le> length (param_vec m)" using assms by (cases "param_vec m") auto
  show ?thesis
    using len
    by (cases "command_type (command m)")
      (auto simp: GetIRCMessageVariantFrom_def GetSetIRCMessageType_def spec_variant_def
        needs_user_source_def IsServerMessage_def IsQuitMessage_spec IRCMessagePrivMsg_new_def
        cpp_assert_def Let_def)
qed

section \<open>Properties\<close>

text \<open>C19. The 64-bit mask of \<open>GetCommandMaskAsUint\<close> is a faithful key: for a command without NUL
  bytes (every line the worker tokenises) the \<open>switch\<close> selects exactly the case of the command's
  text, long and unknown commands going to the default case.\<close>

theorem command_mask_classifies:
  assumes "NUL \<notin> set (command m)"
  shows "fst (GetSetIRCMessageType m) = spec_command_type (command m)"
  using assms by (simp add: GetSetIRCMessageType_def command_type_spec Let_def)

theorem command_mask_classifies_witness:
  "fst (GetSetIRCMessageType \<lparr>line = ''PRIVMSG #c :hi'', tags = [], tag_kv = [], source = [],
      command = ''PRIVMSG'', param_vec = [(8, 10), (11, 14)], message_type = DEFAULT_TYPE\<rparr>) = PRIVMSG"
  using command_mask_classifies [of "\<lparr>line = ''PRIVMSG #c :hi'', tags = [], tag_kv = [], source = [],
      command = ''PRIVMSG'', param_vec = [(8, 10), (11, 14)], message_type = DEFAULT_TYPE\<rparr>"]
  by (simp add: spec_command_type_def)

text \<open>C35. \<open>ParseSourceUser\<close> splits a source at the first \<open>!\<close> and at the first \<open>@\<close> after it, in
  both builds: its assertions never fail, no view leaves the source, and it throws exactly when
  there is no \<open>!\<close>.\<close>

theorem ParseSourceUser_equiv:
  "ParseSourceUser nd src =
     (case break_at (CHR ''!'') src of
        None \<Rightarrow> Inl (RuntimeError ''Source parameter is not a valid IRCUser specification'')
      | Some (nick, r) \<Rightarrow>
          Inr (case break_at (CHR ''@'') r of
                 None \<Rightarrow> \<lparr>u_nickname = nick, u_hostname = [], u_username = r\<rparr>
               | Some (user, host) \<Rightarrow> \<lparr>u_nickname = nick, u_hostname = host, u_username = user\<rparr>))"
  by (simp add: ParseSourceUser_spec spec_source_user_def split: option.split prod.split)

text \<open>When a message makes the worker stop: a KILL or QUIT command from any source at all, or
  a PRIVMSG of the hard-coded owner whose second parameter is \<open>:,quit\<close> or missing.\<close>

theorem quit_variant_iff:
  assumes "NUL \<notin> set (command m)" "param_vec m \<noteq> []"
  shows "GetIRCMessageVariantFrom True m = Inr VQuit \<longleftrightarrow>
    command m = ''KILL'' \<or> command m = ''QUIT'' \<or>
    (command m = ''PRIVMSG'' \<and> source m = ''kkd!~memxor@unaffiliated/kartikeya'' \<and>
     (length (GetParameters m) \<le> 1 \<or> GetParameters m ! 1 = '':,quit''))"
  using assms
  by (auto simp: GetIRCMessageVariantFrom_spec command_type_spec spec_command_type_def spec_variant_def
      quit_requested_def owner_source_def)

theorem quit_variant_iff_witness:
  "GetIRCMessageVariantFrom True \<lparr>line = '':eve!e@h QUIT :bye'', tags = [], tag_kv = [],
     source = ''eve!e@h'', command = ''QUIT'', param_vec = [(14, 18)],
     message_type = DEFAULT_TYPE\<rparr> = Inr VQuit"
  using quit_variant_iff [of "\<lparr>line = '':eve!e@h QUIT :bye'', tags = [], tag_kv = [],
     source = ''eve!e@h'', command = ''QUIT'', param_vec = [(14, 18)], message_type = DEFAULT_TYPE\<rparr>"]
  by simp

end
