(* ===== verification/OS_World.thy ===== *)
theory OS_World
  imports Kbot_Prelude
begin

text \<open>
  The outside of the program: the operating system, the dynamic loader and the hash containers'
  iteration order, none of which is code of the repository. They are a parameter of the model, the
  record \<open>env\<close> of functions; an answer may depend on everything that happened before, because each
  function sees the trace of earlier calls. What the program did is the trace in the record \<open>world\<close>,
  which every later state record extends. The flag \<open>ndebug\<close> is the build configuration: the
  Release build of \<open>CMakeLists.txt\<close> defines \<open>NDEBUG\<close>, the Debug build does not.
\<close>

section \<open>Calls and their trace\<close>

abbreviation ENOENT :: int where "ENOENT \<equiv> 2"
abbreviation EINTR :: int where "EINTR \<equiv> 4"
abbreviation EAGAIN :: int where "EAGAIN \<equiv> 11"
abbreviation EEXIST :: int where "EEXIST \<equiv> 17"

datatype ctl_op = EPOLL_CTL_ADD | EPOLL_CTL_DEL | EPOLL_CTL_MOD

text \<open>\<open>struct epoll_event\<close>, with the \<open>fd\<close> member of its data union.\<close>

record epoll_event =
  ev_events :: "32 word"
  ev_fd :: int

text \<open>A negative return of \<open>recv\<close> or \<open>epoll_wait\<close> comes with \<open>errno\<close>; an empty \<open>RecvData\<close> is the
  return value 0.\<close>

datatype recv_result = RecvData string | RecvErr int

datatype wait_result = WaitEvents "epoll_event list" | WaitErr int

datatype io_event =
    EvSend int string int
  | EvPoll int int
  | EvRecv int recv_result
  | EvClose int
  | EvEpollCtl int ctl_op int int
  | EvEpollWait int nat int wait_result
  | EvDlopen string "nat option"
  | EvDlclose nat
  | EvSigmask int
  | EvSetName string
  | EvSocket nat int
  | EvEpollCreate int
  | EvConnect int nat int

type_synonym trace = "io_event list"

record world =
  w_trace :: trace
  w_errno :: int

record env =
  ndebug :: bool
  os_send :: "trace \<Rightarrow> int \<Rightarrow> string \<Rightarrow> int \<times> int"
  os_recv :: "trace \<Rightarrow> int \<Rightarrow> nat \<Rightarrow> recv_result"
  os_epoll_ctl :: "trace \<Rightarrow> int \<Rightarrow> ctl_op \<Rightarrow> int \<Rightarrow> 32 word \<Rightarrow> int \<times> int"
  os_epoll_wait :: "trace \<Rightarrow> int \<Rightarrow> nat \<Rightarrow> int \<Rightarrow> wait_result"
  os_cwd :: "trace \<Rightarrow> string option"
  os_dlopen :: "trace \<Rightarrow> string \<Rightarrow> nat option"
  os_dlsym :: "nat option \<Rightarrow> string \<Rightarrow> nat option"
  os_getaddrinfo :: "trace \<Rightarrow> string \<Rightarrow> string \<Rightarrow> nat list option"
  os_socket :: "trace \<Rightarrow> nat \<Rightarrow> int"
  os_connect :: "trace \<Rightarrow> int \<Rightarrow> nat \<Rightarrow> int"
  os_epoll_create :: "trace \<Rightarrow> int"
  map_order :: "string set \<Rightarrow> string list"

definition log_io :: "io_event \<Rightarrow> 'a world_scheme \<Rightarrow> 'a world_scheme" where
  "log_io ev s = s\<lparr>w_trace := w_trace s @ [ev]\<rparr>"

definition set_errno_if :: "bool \<Rightarrow> int \<Rightarrow> 'a world_scheme \<Rightarrow> 'a world_scheme" where
  "set_errno_if b en s = (if b then s\<lparr>w_errno := en\<rparr> else s)"

definition sys_send :: "env \<Rightarrow> int \<Rightarrow> string \<Rightarrow> ('a world_scheme, int) cpp" where
  "sys_send e fd d = (\<lambda>s. case os_send e (w_trace s) fd d of (r, en) \<Rightarrow>
     (Inr r, set_errno_if (r < 0) en (log_io (EvSend fd d r) s)))"

definition sys_recv :: "env \<Rightarrow> int \<Rightarrow> nat \<Rightarrow> ('a world_scheme, recv_result) cpp" where
  "sys_recv e fd n = (\<lambda>s. let r = os_recv e (w_trace s) fd n in
     (Inr r, set_errno_if (case r of RecvErr _ \<Rightarrow> True | _ \<Rightarrow> False)
               (case r of RecvErr en \<Rightarrow> en | _ \<Rightarrow> 0) (log_io (EvRecv fd r) s)))"

definition sys_poll :: "int \<Rightarrow> int \<Rightarrow> ('a world_scheme, unit) cpp" where
  "sys_poll fd timeout = cmod (log_io (EvPoll fd timeout))"

definition sys_close :: "int \<Rightarrow> ('a world_scheme, unit) cpp" where
  "sys_close fd = cmod (log_io (EvClose fd))"

definition sys_epoll_ctl ::
    "env \<Rightarrow> int \<Rightarrow> ctl_op \<Rightarrow> int \<Rightarrow> 32 word \<Rightarrow> ('a world_scheme, int) cpp" where
  "sys_epoll_ctl e epfd opn fd evs =
     (\<lambda>s. case os_epoll_ctl e (w_trace s) epfd opn fd evs of (r, en) \<Rightarrow>
        (Inr r, set_errno_if (r < 0) en (log_io (EvEpollCtl epfd opn fd r) s)))"

definition sys_epoll_wait :: "env \<Rightarrow> int \<Rightarrow> nat \<Rightarrow> int \<Rightarrow> ('a world_scheme, wait_result) cpp" where
  "sys_epoll_wait e epfd n timeout =
     (\<lambda>s. let r = os_epoll_wait e (w_trace s) epfd n timeout in
        (Inr r, set_errno_if (case r of WaitErr _ \<Rightarrow> True | _ \<Rightarrow> False)
                  (case r of WaitErr en \<Rightarrow> en | _ \<Rightarrow> 0) (log_io (EvEpollWait epfd n timeout r) s)))"

text \<open>Addresses returned by \<open>getaddrinfo\<close> are opaque numbers.\<close>

definition sys_socket :: "env \<Rightarrow> nat \<Rightarrow> ('a world_scheme, int) cpp" where
  "sys_socket e a = (\<lambda>s. let fd = os_socket e (w_trace s) a in (Inr fd, log_io (EvSocket a fd) s))"

definition sys_connect :: "env \<Rightarrow> int \<Rightarrow> nat \<Rightarrow> ('a world_scheme, int) cpp" where
  "sys_connect e fd a = (\<lambda>s. let r = os_connect e (w_trace s) fd a in (Inr r, log_io (EvConnect fd a r) s))"

definition sys_epoll_create :: "env \<Rightarrow> ('a world_scheme, int) cpp" where
  "sys_epoll_create e = (\<lambda>s. let fd = os_epoll_create e (w_trace s) in (Inr fd, log_io (EvEpollCreate fd) s))"

definition sys_dlopen :: "env \<Rightarrow> string \<Rightarrow> ('a world_scheme, nat option) cpp" where
  "sys_dlopen e path = (\<lambda>s. let h = os_dlopen e (w_trace s) path in (Inr h, log_io (EvDlopen path h) s))"

definition sys_dlclose :: "nat \<Rightarrow> ('a world_scheme, unit) cpp" where
  "sys_dlclose h = cmod (log_io (EvDlclose h))"

lemmas sys_defs = sys_send_def sys_recv_def sys_poll_def sys_close_def sys_epoll_ctl_def
  sys_epoll_wait_def sys_dlopen_def sys_dlclose_def

lemma log_io_simps [simp]:
  "w_trace (log_io ev s) = w_trace s @ [ev]"
  "w_errno (log_io ev s) = w_errno s"
  by (simp_all add: log_io_def)

lemma set_errno_if_simps [simp]:
  "w_trace (set_errno_if b en s) = w_trace s"
  "w_errno (set_errno_if b en s) = (if b then en else w_errno s)"
  by (simp_all add: set_errno_if_def)

text \<open>The data that the kernel has accepted on a descriptor: of every \<open>send\<close> as many bytes as it returned,
  and nothing of one that failed.\<close>

fun sent_on :: "int \<Rightarrow> trace \<Rightarrow> string list" where
  "sent_on fd [] = []"
| "sent_on fd (EvSend fd' d r # tr) =
     (if fd' = fd \<and> 0 < r then take (nat r) d # sent_on fd tr else sent_on fd tr)"
| "sent_on fd (_ # tr) = sent_on fd tr"

lemma sent_on_append [simp]: "sent_on fd (xs @ ys) = sent_on fd xs @ sent_on fd ys"
  by (induction fd xs rule: sent_on.induct) simp_all

text \<open>No \<open>send\<close> on a descriptor was short: each failed or took everything.\<close>

fun no_short_send :: "int \<Rightarrow> trace \<Rightarrow> bool" where
  "no_short_send fd [] \<longleftrightarrow> True"
| "no_short_send fd (EvSend fd' d r # tr) \<longleftrightarrow> (fd' = fd \<longrightarrow> r < 0 \<or> r = int (length d)) \<and> no_short_send fd tr"
| "no_short_send fd (_ # tr) \<longleftrightarrow> no_short_send fd tr"

lemma no_short_send_append [simp]: "no_short_send fd (xs @ ys) \<longleftrightarrow> no_short_send fd xs \<and> no_short_send fd ys"
  by (induction fd xs rule: no_short_send.induct) auto

text \<open>The descriptors a trace has closed, in order.\<close>

fun closes :: "trace \<Rightarrow> int list" where
  "closes [] = []"
| "closes (EvClose fd # tr) = fd # closes tr"
| "closes (_ # tr) = closes tr"

lemma closes_append [simp]: "closes (xs @ ys) = closes xs @ closes ys"
  by (induction xs rule: closes.induct) simp_all

text \<open>An environment in which every call succeeds, for concrete runs.\<close>

definition calm_env :: env where
  "calm_env = \<lparr>ndebug = True,
     os_send = (\<lambda>_ _ d. (int (length d), 0)),
     os_recv = (\<lambda>_ _ _. RecvData []),
     os_epoll_ctl = (\<lambda>_ _ _ _ _. (0, 0)),
     os_epoll_wait = (\<lambda>_ _ _ _. WaitErr 9),
     os_cwd = (\<lambda>_. Some ''/srv/kbot''),
     os_dlopen = (\<lambda>_ _. Some 1),
     os_dlsym = (\<lambda>_ _. Some 1),
     os_getaddrinfo = (\<lambda>_ _ _. Some [0]),
     os_socket = (\<lambda>_ _. 3),
     os_connect = (\<lambda>_ _ _. 0),
     os_epoll_create = (\<lambda>_. 4),
     map_order = (\<lambda>_. [])\<rparr>"

end
