(* ===== verification/Interfaces.thy ===== *)
theory Interfaces
  imports Kbot_Prelude
begin

text \<open>
  Contracts that several components share, as locales: the associative container
  (\<open>absl::flat_hash_map\<close> in the source) with the bulk insertion and removal the plugin code relies
  on, and systems whose operations all keep an invariant. The container operations on maps that the
  components use are defined here and discharge the container laws.
\<close>

section \<open>Associative containers\<close>

text \<open>
  \<open>insert\<close> keeps an existing entry, \<open>m[k] = v\<close> (\<open>assign\<close>) overwrites it, \<open>erase\<close> removes it.
\<close>

locale flat_map =
  fixes find :: "'m \<Rightarrow> 'k \<Rightarrow> 'v option"
    and insert :: "'k \<Rightarrow> 'v \<Rightarrow> 'm \<Rightarrow> 'm"
    and assign :: "'k \<Rightarrow> 'v \<Rightarrow> 'm \<Rightarrow> 'm"
    and erase :: "'k \<Rightarrow> 'm \<Rightarrow> 'm"
  assumes find_insert: "find (insert k v m) j =
      (if j = k then Some (case find m k of None \<Rightarrow> v | Some w \<Rightarrow> w) else find m j)"
    and find_assign: "find (assign k v m) j = (if j = k then Some v else find m j)"
    and find_erase: "find (erase k m) j = (if j = k then None else find m j)"
begin

lemma find_insert_all:
  "find (fold (\<lambda>(k, v). insert k v) kvs m) j =
     (case find m j of Some w \<Rightarrow> Some w | None \<Rightarrow> map_of kvs j)"
  by (induction kvs arbitrary: m) (auto simp: find_insert split: option.splits)

lemma find_erase_all: "find (fold erase ks m) j = (if j \<in> set ks then None else find m j)"
  by (induction ks arbitrary: m) (auto simp: find_erase)

lemma erase_inserted:
  assumes "\<And>k. k \<in> fst ` set kvs \<Longrightarrow> find m k = None"
  shows "find (fold erase (map fst kvs) (fold (\<lambda>(k, v). insert k v) kvs m)) j = find m j"
proof (cases "j \<in> fst ` set kvs")
  case True
  then show ?thesis using assms by (simp add: find_erase_all)
next
  case False
  then have "map_of kvs j = None" by (simp add: map_of_eq_None_iff)
  then show ?thesis using False by (simp add: find_erase_all find_insert_all split: option.splits)
qed

end

definition fm_insert :: "'k \<Rightarrow> 'v \<Rightarrow> ('k \<rightharpoonup> 'v) \<Rightarrow> ('k \<rightharpoonup> 'v)" where
  "fm_insert k v m = (case m k of None \<Rightarrow> m(k \<mapsto> v) | Some _ \<Rightarrow> m)"

definition fm_assign :: "'k \<Rightarrow> 'v \<Rightarrow> ('k \<rightharpoonup> 'v) \<Rightarrow> ('k \<rightharpoonup> 'v)" where
  "fm_assign k v m = m(k \<mapsto> v)"

definition fm_erase :: "'k \<Rightarrow> ('k \<rightharpoonup> 'v) \<Rightarrow> ('k \<rightharpoonup> 'v)" where
  "fm_erase k m = m(k := None)"

lemma fm_apply [simp]:
  "fm_insert k v m j = (if j = k then Some (case m k of None \<Rightarrow> v | Some w \<Rightarrow> w) else m j)"
  "fm_assign k v m j = (if j = k then Some v else m j)"
  "fm_erase k m j = (if j = k then None else m j)"
  by (auto simp: fm_insert_def fm_assign_def fm_erase_def split: option.split)

interpretation fm: flat_map "\<lambda>m k. m k" fm_insert fm_assign fm_erase
  by unfold_locales auto

section \<open>Reachable states and invariants\<close>

inductive reachable :: "('s \<Rightarrow> bool) \<Rightarrow> ('s \<Rightarrow> 's \<Rightarrow> bool) \<Rightarrow> 's \<Rightarrow> bool" for init step where
  reach_init: "init s \<Longrightarrow> reachable init step s"
| reach_step: "reachable init step s \<Longrightarrow> step s t \<Longrightarrow> reachable init step t"

text \<open>A system all of whose steps keep \<open>inv\<close>.\<close>

locale invariant_system =
  fixes init :: "'s \<Rightarrow> bool" and step :: "'s \<Rightarrow> 's \<Rightarrow> bool" and inv :: "'s \<Rightarrow> bool"
  assumes inv_init: "init s \<Longrightarrow> inv s"
    and inv_step: "inv s \<Longrightarrow> step s t \<Longrightarrow> inv t"
begin

lemma inv_reachable: "reachable init step s \<Longrightarrow> inv s"
  by (induction rule: reachable.induct) (auto intro: inv_init inv_step)

lemma inv_run: "step\<^sup>*\<^sup>* s t \<Longrightarrow> inv s \<Longrightarrow> inv t"
  by (induction rule: rtranclp_induct) (auto intro: inv_step)

end

end
