(* ===== verification/Epoll.thy ===== *)
theory Epoll
  imports OS_World Interfaces
begin

text \<open>
  The event manager (\<open>src/src/Epoll.hh\<close>, \<open>src/src/Epoll.cc\<close>): the table of registered descriptors,
  the operations that keep it together with the kernel's interest list, and the event loop. A
  callback is a value of the type parameter \<open>'cb\<close>; what it does is the argument \<open>run\<close> of the event
  loop, a computation on the whole state, so a callback may change the manager while the loop runs.
  The static callbacks of a phase are those registered when the phase starts: one that registers
  another of its own phase invalidates the iterators of the source's loop, which no code here does.
\<close>

section \<open>Flags\<close>

definition EPOLLIN :: "32 word" where "EPOLLIN = 0x001"
definition EPOLLPRI :: "32 word" where "EPOLLPRI = 0x002"
definition EPOLLOUT :: "32 word" where "EPOLLOUT = 0x004"
definition EPOLLERR :: "32 word" where "EPOLLERR = 0x008"
definition EPOLLRDHUP :: "32 word" where "EPOLLRDHUP = 0x2000"
definition EPOLLEXCLUSIVE :: "32 word" where "EPOLLEXCLUSIVE = 0x10000000"
definition EPOLLWAKEUP :: "32 word" where "EPOLLWAKEUP = 0x20000000"
definition EPOLLONESHOT :: "32 word" where "EPOLLONESHOT = 0x40000000"
definition EPOLLET :: "32 word" where "EPOLLET = 0x80000000"

definition EpollEventFullMask :: "32 word" where
  "EpollEventFullMask = EPOLLIN OR EPOLLOUT OR EPOLLRDHUP OR EPOLLPRI OR EPOLLERR"

definition EpollConfigFullMask :: "32 word" where
  "EpollConfigFullMask = EPOLLET OR EPOLLONESHOT OR EPOLLWAKEUP OR EPOLLEXCLUSIVE"

lemmas epoll_flag_defs = EPOLLIN_def EPOLLPRI_def EPOLLOUT_def EPOLLERR_def EPOLLRDHUP_def
  EPOLLEXCLUSIVE_def EPOLLWAKEUP_def EPOLLONESHOT_def EPOLLET_def EpollEventFullMask_def
  EpollConfigFullMask_def

section \<open>State\<close>

record 'cb epoll_context =
  ctx_ev :: epoll_event
  ctx_cb :: 'cb
  ctx_enabled :: bool

definition GetConfigMask :: "'cb epoll_context \<Rightarrow> 32 word" where
  "GetConfigMask ctx = ev_events (ctx_ev ctx) AND (EPOLLET OR EPOLLONESHOT OR EPOLLWAKEUP OR EPOLLEXCLUSIVE)"

definition GetEventMask :: "'cb epoll_context \<Rightarrow> 32 word" where
  "GetEventMask ctx = ev_events (ctx_ev ctx) AND (EPOLLIN OR EPOLLOUT OR EPOLLRDHUP OR EPOLLPRI)"

record 'cb epoll_manager = world +
  em_fd :: int
  fd_map :: "int \<rightharpoonup> 'cb epoll_context"
  ev_pre :: "'cb list"
  ev_post :: "'cb list"
  ev_exit :: "'cb list"

datatype StaticEventType = Pre | Post | Exit

section \<open>Operations\<close>

fun RegisterStaticEvent :: "StaticEventType \<Rightarrow> 'cb \<Rightarrow> (('cb, 'a) epoll_manager_scheme, unit) cpp" where
  "RegisterStaticEvent Pre cb = cmod (\<lambda>s. s\<lparr>ev_pre := ev_pre s @ [cb]\<rparr>)"
| "RegisterStaticEvent Post cb = cmod (\<lambda>s. s\<lparr>ev_post := ev_post s @ [cb]\<rparr>)"
| "RegisterStaticEvent Exit cb = cmod (\<lambda>s. s\<lparr>ev_exit := ev_exit s @ [cb]\<rparr>)"

definition RegisterFd ::
    "env \<Rightarrow> int \<Rightarrow> 32 word \<Rightarrow> 'cb \<Rightarrow> 32 word \<Rightarrow> (('cb, 'a) epoll_manager_scheme, bool) cpp" where
  "RegisterFd e fd events callback config =
     cbind (cget fd_map) (\<lambda>m.
     case m fd of
       Some _ \<Rightarrow> cseq (cmod (\<lambda>s. s\<lparr>w_errno := EEXIST\<rparr>)) (cret False)
     | None \<Rightarrow>
         (let ev = \<lparr>ev_events = events OR config, ev_fd = fd\<rparr> in
          cbind (cget em_fd) (\<lambda>ep.
          cbind (sys_epoll_ctl e ep EPOLL_CTL_ADD fd (ev_events ev)) (\<lambda>r.
          if r < 0 then cret False
          else cseq (cmod (\<lambda>s. s\<lparr>fd_map := fm_assign fd
                        \<lparr>ctx_ev = ev, ctx_cb = callback, ctx_enabled = True\<rparr> (fd_map s)\<rparr>))
                 (cret True)))))"

definition set_enabled :: "int \<Rightarrow> 'cb epoll_context \<Rightarrow> bool \<Rightarrow> (('cb, 'a) epoll_manager_scheme, unit) cpp" where
  "set_enabled fd ctx b = cmod (\<lambda>s. s\<lparr>fd_map := fm_assign fd (ctx\<lparr>ctx_enabled := b\<rparr>) (fd_map s)\<rparr>)"

definition EnableFd :: "env \<Rightarrow> int \<Rightarrow> (('cb, 'a) epoll_manager_scheme, bool) cpp" where
  "EnableFd e fd =
     cbind (cget fd_map) (\<lambda>m.
     case m fd of
       None \<Rightarrow> cret False
     | Some ctx \<Rightarrow>
         if ctx_enabled ctx = False then
           cbind (cget em_fd) (\<lambda>ep.
           cbind (sys_epoll_ctl e ep EPOLL_CTL_ADD fd (ev_events (ctx_ev ctx))) (\<lambda>r.
           if r < 0 then
             cbind (cget w_errno) (\<lambda>en.
             cseq (cpure (cpp_assert (ndebug e) (en \<noteq> EEXIST) ''errno != EEXIST'')) (cret False))
           else cseq (set_enabled fd ctx True) (cret True)))
         else cseq (set_enabled fd ctx True) (cret True))"

definition DisableFd :: "env \<Rightarrow> int \<Rightarrow> (('cb, 'a) epoll_manager_scheme, bool) cpp" where
  "DisableFd e fd =
     cbind (cget fd_map) (\<lambda>m.
     case m fd of
       None \<Rightarrow> cret False
     | Some ctx \<Rightarrow>
         if ctx_enabled ctx = True then
           cbind (cget em_fd) (\<lambda>ep.
           cbind (sys_epoll_ctl e ep EPOLL_CTL_DEL fd (ev_events (ctx_ev ctx))) (\<lambda>r.
           if r < 0 then
             cbind (cget w_errno) (\<lambda>en.
             cseq (cpure (cpp_assert (ndebug e) (en \<noteq> ENOENT) ''errno != ENOENT'')) (cret False))
           else cseq (set_enabled fd ctx False) (cret True)))
         else cseq (set_enabled fd ctx False) (cret True))"

text \<open>The part the two modifying operations share after their checks: change the kernel's entry,
  then the table's.\<close>

definition modify_ctx :: "env \<Rightarrow> int \<Rightarrow> ('cb epoll_context \<Rightarrow> 32 word) \<Rightarrow>
    (('cb, 'a) epoll_manager_scheme, bool) cpp" where
  "modify_ctx e fd new_events =
     cbind (cget fd_map) (\<lambda>m.
     case m fd of
       None \<Rightarrow> cseq (cmod (\<lambda>s. s\<lparr>w_errno := ENOENT\<rparr>)) (cret False)
     | Some ctx \<Rightarrow>
         (let ev = (ctx_ev ctx)\<lparr>ev_events := new_events ctx\<rparr> in
          cbind (cget em_fd) (\<lambda>ep.
          cbind (sys_epoll_ctl e ep EPOLL_CTL_MOD fd (ev_events ev)) (\<lambda>r.
          if r < 0 then cret False
          else cseq (cmod (\<lambda>s. s\<lparr>fd_map := fm_assign fd (ctx\<lparr>ctx_ev := ev\<rparr>) (fd_map s)\<rparr>))
                 (cret True)))))"

definition ModifyFdEvents :: "env \<Rightarrow> int \<Rightarrow> 32 word \<Rightarrow> (('cb, 'a) epoll_manager_scheme, bool) cpp" where
  "ModifyFdEvents e fd events =
     (if events AND EpollConfigFullMask \<noteq> 0
      then cthrow (LogicError ''Config flags must not be passed as event flags'')
      else modify_ctx e fd (\<lambda>ctx. GetConfigMask ctx OR events))"

definition ModifyFdConfig :: "env \<Rightarrow> int \<Rightarrow> 32 word \<Rightarrow> (('cb, 'a) epoll_manager_scheme, bool) cpp" where
  "ModifyFdConfig e fd config =
     (if config AND EpollEventFullMask \<noteq> 0
      then cthrow (LogicError ''Event flags must not be passed as config flags'')
      else if config AND EPOLLEXCLUSIVE \<noteq> 0
      then cthrow (LogicError ''EpollExclusive cannot be passed during a modify operation'')
      else modify_ctx e fd (\<lambda>ctx. GetEventMask ctx OR config))"

definition ModifyFdCallback :: "int \<Rightarrow> 'cb \<Rightarrow> (('cb, 'a) epoll_manager_scheme, bool) cpp" where
  "ModifyFdCallback fd callback =
     cbind (cget fd_map) (\<lambda>m.
     case m fd of
       None \<Rightarrow> cseq (cmod (\<lambda>s. s\<lparr>w_errno := ENOENT\<rparr>)) (cret False)
     | Some ctx \<Rightarrow>
         cseq (cmod (\<lambda>s. s\<lparr>fd_map := fm_assign fd (ctx\<lparr>ctx_cb := callback\<rparr>) (fd_map s)\<rparr>)) (cret True))"

definition DeleteFd :: "env \<Rightarrow> int \<Rightarrow> (('cb, 'a) epoll_manager_scheme, bool) cpp" where
  "DeleteFd e fd =
     cbind (cget fd_map) (\<lambda>m.
     case m fd of
       None \<Rightarrow> cseq (cmod (\<lambda>s. s\<lparr>w_errno := ENOENT\<rparr>)) (cret False)
     | Some ctx \<Rightarrow>
         cseq (cmod (\<lambda>s. s\<lparr>fd_map := fm_erase fd (fd_map s)\<rparr>))
         (cbind (cget em_fd) (\<lambda>ep.
          cbind (sys_epoll_ctl e ep EPOLL_CTL_DEL fd 0) (\<lambda>r.
          if r < 0 then cret False else cret True))))"

section \<open>The event loop\<close>

type_synonym ('cb, 'a) runner =
  "'cb \<Rightarrow> epoll_event option \<Rightarrow> (('cb, 'a) epoll_manager_scheme, unit) cpp"

fun run_static :: "('cb, 'a) runner \<Rightarrow> 'cb list \<Rightarrow> (('cb, 'a) epoll_manager_scheme, unit) cpp" where
  "run_static run [] = cret ()"
| "run_static run (cb # cbs) = cseq (run cb None) (run_static run cbs)"

text \<open>The \<open>for (;;)\<close> around \<open>epoll_wait\<close>: it goes on while the call is interrupted.\<close>

partial_function (option) wait_loop ::
    "env \<Rightarrow> nat \<Rightarrow> int \<Rightarrow> ('cb, 'a) epoll_manager_scheme \<Rightarrow>
       (wait_result \<times> ('cb, 'a) epoll_manager_scheme) option" where
  "wait_loop e n timeout s =
     (let r = os_epoll_wait e (w_trace s) (em_fd s) n timeout;
          s' = snd (sys_epoll_wait e (em_fd s) n timeout s)
      in if r = WaitErr EINTR then wait_loop e n timeout s' else Some (r, s'))"

text \<open>The loop over the delivered events. Dereferencing a missing entry is caught by the
  assertion in a debug build and undefined otherwise.\<close>

fun dispatch_events :: "env \<Rightarrow> ('cb, 'a) runner \<Rightarrow> epoll_event list \<Rightarrow>
    (('cb, 'a) epoll_manager_scheme, unit) cpp" where
  "dispatch_events e run [] = cret ()"
| "dispatch_events e run (ev # evs) =
     cbind (cget fd_map) (\<lambda>m.
     case m (ev_fd ev) of
       None \<Rightarrow> cseq (cpure (cpp_assert (ndebug e) False ''it != fd_map.end()''))
                 (cthrow (UB ''fd_map.end()''))
     | Some ctx \<Rightarrow>
         cseq (if ctx_enabled ctx then run (ctx_cb ctx) (Some ev) else cret ())
           (dispatch_events e run evs))"

definition RunEventLoop :: "env \<Rightarrow> ('cb, 'a) runner \<Rightarrow> int \<Rightarrow> ('cb, 'a) epoll_manager_scheme \<Rightarrow>
    ((cpp_error + int) \<times> ('cb, 'a) epoll_manager_scheme) option" where
  "RunEventLoop e run timeout s0 =
     (case cbind (cget ev_pre) (run_static run) s0 of
        (Inl err, s) \<Rightarrow> Some (Inl err, s)
      | (Inr _, s) \<Rightarrow>
          (case wait_loop e (card (dom (fd_map s))) timeout s of
             None \<Rightarrow> None
           | Some (WaitErr en, s) \<Rightarrow> Some (Inr (-1), s)
           | Some (WaitEvents evs, s) \<Rightarrow>
               Some (cseq (cpure (cpp_assert (ndebug e) (evs \<noteq> []) ''r''))
                     (cseq (dispatch_events e run evs)
                     (cseq (cbind (cget ev_post) (run_static run)) (cret 0))) s)))"

text \<open>The destructor runs the exit callbacks and closes the epoll descriptor.\<close>

definition EpollManager_dtor :: "('cb, 'a) runner \<Rightarrow> (('cb, 'a) epoll_manager_scheme, unit) cpp" where
  "EpollManager_dtor run =
     cseq (cbind (cget ev_exit) (run_static run))
     (cbind (cget em_fd) (\<lambda>ep. if 0 \<le> ep then sys_close ep else cret ()))"

section \<open>The kernel's interest list\<close>

text \<open>What \<open>epoll_ctl\<close> and \<open>close\<close> calls of a trace leave in the interest list of a descriptor, which is
  empty when the descriptor is created.\<close>

fun interest_step :: "int \<Rightarrow> io_event \<Rightarrow> int set \<Rightarrow> int set" where
  "interest_step ep (EvEpollCtl ep' opn fd r) S =
     (if ep' = ep \<and> \<not> r < 0 then
        (case opn of EPOLL_CTL_ADD \<Rightarrow> insert fd S | EPOLL_CTL_DEL \<Rightarrow> S - {fd} | EPOLL_CTL_MOD \<Rightarrow> S)
      else S)"
| "interest_step ep (EvClose fd) S = S - {fd}"
| "interest_step ep (EvEpollCreate ep') S = (if ep' = ep then {} else S)"
| "interest_step ep _ S = S"

definition interest :: "int \<Rightarrow> trace \<Rightarrow> int set" where
  "interest ep tr = fold (interest_step ep) tr {}"

lemma interest_Nil [simp]: "interest ep [] = {}"
  by (simp add: interest_def)

lemma interest_snoc [simp]: "interest ep (tr @ [ev]) = interest_step ep ev (interest ep tr)"
  by (simp add: interest_def)

text \<open>
  The documented behaviour of \<open>epoll_ctl(2)\<close> that the assertions rely on: EEXIST only for a
  descriptor that is registered, ENOENT only for one that is not.
\<close>

definition ctl_errors_documented :: "env \<Rightarrow> bool" where
  "ctl_errors_documented e \<longleftrightarrow>
     (\<forall>tr ep fd evs. (fst (os_epoll_ctl e tr ep EPOLL_CTL_ADD fd evs) < 0 \<and>
        snd (os_epoll_ctl e tr ep EPOLL_CTL_ADD fd evs) = EEXIST \<longrightarrow> fd \<in> interest ep tr) \<and>
      (fst (os_epoll_ctl e tr ep EPOLL_CTL_DEL fd evs) < 0 \<and>
        snd (os_epoll_ctl e tr ep EPOLL_CTL_DEL fd evs) = ENOENT \<longrightarrow> fd \<notin> interest ep tr))"

text \<open>The table and the kernel agree: a descriptor is in the interest list exactly when the table
  has it enabled; and every entry carries its own descriptor as event data.\<close>

definition enabled_fds :: "(int \<rightharpoonup> 'cb epoll_context) \<Rightarrow> int set" where
  "enabled_fds m = {fd. case m fd of None \<Rightarrow> False | Some ctx \<Rightarrow> ctx_enabled ctx}"

definition own_data :: "(int \<rightharpoonup> 'cb epoll_context) \<Rightarrow> bool" where
  "own_data m \<longleftrightarrow> (\<forall>fd ctx. m fd = Some ctx \<longrightarrow> ev_fd (ctx_ev ctx) = fd)"

definition epoll_inv :: "('cb, 'a) epoll_manager_scheme \<Rightarrow> bool" where
  "epoll_inv s \<longleftrightarrow>
     interest (em_fd s) (w_trace s) = enabled_fds (fd_map s) \<and> own_data (fd_map s)"

lemma enabled_fds_simps [simp]:
  "enabled_fds (fm_assign fd ctx m) =
     (if ctx_enabled ctx then insert fd (enabled_fds m) else enabled_fds m - {fd})"
  "enabled_fds (fm_erase fd m) = enabled_fds m - {fd}"
  "enabled_fds Map.empty = {}"
  by (auto simp: enabled_fds_def)

lemma own_data_simps [simp]:
  "own_data m \<Longrightarrow> own_data (fm_assign fd ctx m) \<longleftrightarrow> ev_fd (ctx_ev ctx) = fd"
  "own_data m \<Longrightarrow> own_data (fm_erase fd m)"
  "own_data Map.empty"
  by (auto simp: own_data_def)

lemma enabled_fds_entry:
  "m fd = None \<Longrightarrow> fd \<notin> enabled_fds m"
  "m fd = Some ctx \<Longrightarrow> fd \<in> enabled_fds m \<longleftrightarrow> ctx_enabled ctx"
  by (simp_all add: enabled_fds_def)

lemma own_dataD: "own_data m \<Longrightarrow> m fd = Some ctx \<Longrightarrow> ev_fd (ctx_ev ctx) = fd"
  by (simp add: own_data_def)

lemmas epoll_op_defs = RegisterFd_def EnableFd_def DisableFd_def modify_ctx_def ModifyFdEvents_def
  ModifyFdConfig_def ModifyFdCallback_def DeleteFd_def set_enabled_def sys_epoll_ctl_def

lemmas epoll_inv_defs = epoll_inv_def log_io_def set_errno_if_def

lemma RegisterFd_inv: "epoll_inv s \<Longrightarrow> epoll_inv (snd (RegisterFd e fd evs cb cfg s))"
  by (cases "fd_map s fd")
    (auto simp: epoll_op_defs epoll_inv_defs cbind_apply cseq_def Let_def cpp_assert_def
      enabled_fds_entry dest: own_dataD split: prod.splits)

section \<open>The manager as a system\<close>

text \<open>One step is one operation of the manager's interface, with any arguments.\<close>

inductive em_step :: "env \<Rightarrow> 'cb epoll_manager \<Rightarrow> 'cb epoll_manager \<Rightarrow> bool" for e where
  register_static: "em_step e s (snd (RegisterStaticEvent t cb s))"
| register: "em_step e s (snd (RegisterFd e fd evs cb cfg s))"
| enable: "em_step e s (snd (EnableFd e fd s))"
| disable: "em_step e s (snd (DisableFd e fd s))"
| modify_events: "em_step e s (snd (ModifyFdEvents e fd evs s))"
| modify_config: "em_step e s (snd (ModifyFdConfig e fd cfg s))"
| modify_callback: "em_step e s (snd (ModifyFdCallback fd cb s))"
| delete: "em_step e s (snd (DeleteFd e fd s))"

definition fresh_manager :: "'cb epoll_manager \<Rightarrow> bool" where
  "fresh_manager s \<longleftrightarrow> fd_map s = Map.empty \<and> interest (em_fd s) (w_trace s) = {}"

text \<open>
  \<open>DeleteFd\<close> erases the entry before it removes the descriptor from the kernel. When the removal
  fails the kernel goes on watching a descriptor that the table no longer has; nothing else makes
  the two differ.
\<close>

definition failed_removals :: "int \<Rightarrow> trace \<Rightarrow> int set" where
  "failed_removals ep tr = {fd. \<exists>r < 0. EvEpollCtl ep EPOLL_CTL_DEL fd r \<in> set tr}"

lemma failed_removals_snoc [simp]:
  "failed_removals ep (tr @ [EvEpollCtl ep EPOLL_CTL_DEL fd r]) =
     (if r < 0 then insert fd (failed_removals ep tr) else failed_removals ep tr)"
  "opn \<noteq> EPOLL_CTL_DEL \<Longrightarrow> failed_removals ep (tr @ [EvEpollCtl ep' opn fd r]) = failed_removals ep tr"
  by (auto simp: failed_removals_def)

definition epoll_sound :: "('cb, 'a) epoll_manager_scheme \<Rightarrow> bool" where
  "epoll_sound s \<longleftrightarrow> enabled_fds (fd_map s) \<subseteq> interest (em_fd s) (w_trace s) \<and>
     interest (em_fd s) (w_trace s) \<subseteq> enabled_fds (fd_map s) \<union> failed_removals (em_fd s) (w_trace s) \<and>
     own_data (fd_map s)"

lemmas epoll_sound_defs = epoll_sound_def log_io_def set_errno_if_def

lemma modify_ctx_sound: "epoll_sound s \<Longrightarrow> epoll_sound (snd (modify_ctx e fd f s))"
  by (cases "fd_map s fd")
    (auto simp: epoll_op_defs epoll_sound_defs cbind_apply cseq_def Let_def enabled_fds_entry
      dest: own_dataD split: prod.splits)

lemma em_step_sound: "em_step e s t \<Longrightarrow> epoll_sound s \<Longrightarrow> epoll_sound t"
proof (induction rule: em_step.induct)
  case (register_static s t cb)
  then show ?case by (cases t) (simp_all add: epoll_sound_defs)
next
  case (register s fd evs cb cfg)
  then show ?case
    by (cases "fd_map s fd")
      (auto simp: epoll_op_defs epoll_sound_defs cbind_apply cseq_def Let_def enabled_fds_entry
        dest: own_dataD split: prod.splits)
next
  case (enable s fd)
  then show ?case
    by (cases "fd_map s fd")
      (auto simp: epoll_op_defs epoll_sound_defs cbind_apply cseq_def cpp_assert_def enabled_fds_entry
        dest: own_dataD split: prod.splits)
next
  case (disable s fd)
  then show ?case
    by (cases "fd_map s fd")
      (auto simp: epoll_op_defs epoll_sound_defs cbind_apply cseq_def cpp_assert_def enabled_fds_entry
        dest: own_dataD split: prod.splits)
next
  case (modify_callback s fd cb)
  then show ?case
    by (cases "fd_map s fd")
      (auto simp: epoll_op_defs epoll_sound_defs cbind_apply cseq_def enabled_fds_entry dest: own_dataD)
next
  case (delete s fd)
  then show ?case
    by (cases "fd_map s fd")
      (auto simp: epoll_op_defs epoll_sound_defs cbind_apply cseq_def enabled_fds_entry split: prod.splits)
qed (simp_all add: ModifyFdEvents_def ModifyFdConfig_def modify_ctx_sound)

interpretation em: invariant_system fresh_manager "em_step e" epoll_sound for e
  by unfold_locales (simp_all add: em_step_sound, simp add: fresh_manager_def epoll_sound_def)

section \<open>Behaviour of the operations\<close>

lemma EnableFd_no_abort:
  assumes "epoll_sound s" "ctl_errors_documented e" "fd \<notin> failed_removals (em_fd s) (w_trace s)"
  shows "fst (EnableFd e fd s) \<noteq> Inl err"
proof (cases "fd_map s fd")
  case (Some ctx)
  obtain r en where ctl: "os_epoll_ctl e (w_trace s) (em_fd s) EPOLL_CTL_ADD fd (ev_events (ctx_ev ctx)) = (r, en)"
    by fastforce
  have "en \<noteq> EEXIST" if "r < 0" "\<not> ctx_enabled ctx"
    using assms that Some ctl enabled_fds_entry(2) [of "fd_map s" fd, OF Some]
    unfolding ctl_errors_documented_def epoll_sound_def by (metis UnE fst_conv snd_conv subsetD)
  with Some ctl show ?thesis
    by (auto simp: epoll_op_defs epoll_sound_defs cbind_apply cseq_def cpp_assert_def)
qed (simp add: EnableFd_def cbind_apply)

lemma DisableFd_no_abort:
  assumes "epoll_sound s" "ctl_errors_documented e" "fd \<notin> failed_removals (em_fd s) (w_trace s)"
  shows "fst (DisableFd e fd s) \<noteq> Inl err"
proof (cases "fd_map s fd")
  case (Some ctx)
  obtain r en where ctl: "os_epoll_ctl e (w_trace s) (em_fd s) EPOLL_CTL_DEL fd (ev_events (ctx_ev ctx)) = (r, en)"
    by fastforce
  have "en \<noteq> ENOENT" if "r < 0" "ctx_enabled ctx"
    using assms that Some ctl enabled_fds_entry(2) [of "fd_map s" fd, OF Some]
    unfolding ctl_errors_documented_def epoll_sound_def by (metis UnE fst_conv snd_conv subsetD)
  with Some ctl show ?thesis
    by (auto simp: epoll_op_defs epoll_sound_defs cbind_apply cseq_def cpp_assert_def)
qed (simp add: DisableFd_def cbind_apply)

lemma modify_ctx_True:
  assumes "modify_ctx e fd f s = (Inr True, s')"
  shows "\<exists>ctx. fd_map s fd = Some ctx \<and>
    fd_map s' = (fd_map s)(fd \<mapsto> ctx\<lparr>ctx_ev := (ctx_ev ctx)\<lparr>ev_events := f ctx\<rparr>\<rparr>)"
  using assms
  by (cases "fd_map s fd")
    (auto simp: modify_ctx_def sys_epoll_ctl_def cbind_apply cseq_def Let_def log_io_def set_errno_if_def
      fm_assign_def split: prod.splits if_splits)

text \<open>A disabled descriptor is not in the kernel's interest list, which \<open>epoll_ctl(2)\<close> reports for the two
  operations that need it there: the entry can be neither modified nor deleted with success, and the
  deletion that reports a failure has erased it.\<close>

definition ctl_needs_registration :: "env \<Rightarrow> bool" where
  "ctl_needs_registration e \<longleftrightarrow> (\<forall>tr ep opn fd evs. opn \<noteq> EPOLL_CTL_ADD \<longrightarrow> fd \<notin> interest ep tr \<longrightarrow>
     os_epoll_ctl e tr ep opn fd evs = (-1, ENOENT))"

lemma disabled_entry:
  assumes "epoll_inv s" "ctl_needs_registration e" "fd_map s fd = Some ctx" "\<not> ctx_enabled ctx"
  shows "\<exists>t. DeleteFd e fd s = (Inr False, t) \<and> fd_map t fd = None"
    and "\<exists>t. modify_ctx e fd f s = (Inr False, t) \<and> fd_map t = fd_map s"
proof -
  have "fd \<notin> interest (em_fd s) (w_trace s)"
    using assms(1,4) enabled_fds_entry(2) [of "fd_map s", OF assms(3)] by (simp add: epoll_inv_def)
  then have ctl: "opn \<noteq> EPOLL_CTL_ADD \<Longrightarrow> os_epoll_ctl e (w_trace s) (em_fd s) opn fd evs = (-1, ENOENT)" for opn evs
    using assms(2) by (simp add: ctl_needs_registration_def)
  show "\<exists>t. DeleteFd e fd s = (Inr False, t) \<and> fd_map t fd = None"
    using assms(3) ctl [of EPOLL_CTL_DEL 0]
    by (auto simp: DeleteFd_def sys_epoll_ctl_def cbind_apply cseq_def log_io_def set_errno_if_def fm_erase_def)
  show "\<exists>t. modify_ctx e fd f s = (Inr False, t) \<and> fd_map t = fd_map s"
    using assms(3) ctl [of EPOLL_CTL_MOD]
    by (auto simp: modify_ctx_def sys_epoll_ctl_def cbind_apply cseq_def Let_def log_io_def set_errno_if_def)
qed

text \<open>Interruptions of the wait, as the trace records them.\<close>

definition interrupted :: "nat \<Rightarrow> int \<Rightarrow> nat \<Rightarrow> int \<Rightarrow> trace" where
  "interrupted k ep n timeout = replicate k (EvEpollWait ep n timeout (WaitErr EINTR))"

lemma wait_loop_returns:
  "os_epoll_wait e (w_trace s @ interrupted k (em_fd s) n timeout) (em_fd s) n timeout \<noteq> WaitErr EINTR \<Longrightarrow>
     \<exists>r s'. wait_loop e n timeout s = Some (r, s') \<and> r \<noteq> WaitErr EINTR \<and> fd_map s' = fd_map s"
proof (induction k arbitrary: s)
  case 0
  then show ?case
    by (subst wait_loop.simps)
      (simp add: interrupted_def sys_epoll_wait_def Let_def log_io_def set_errno_if_def)
next
  case (Suc k)
  show ?case
  proof (cases "os_epoll_wait e (w_trace s) (em_fd s) n timeout = WaitErr EINTR")
    case True
    let ?s = "snd (sys_epoll_wait e (em_fd s) n timeout s)"
    have eq: "em_fd ?s = em_fd s" "fd_map ?s = fd_map s"
      "w_trace ?s = w_trace s @ [EvEpollWait (em_fd s) n timeout (WaitErr EINTR)]"
      using True by (simp_all add: sys_epoll_wait_def Let_def log_io_def set_errno_if_def)
    have "wait_loop e n timeout s = wait_loop e n timeout ?s"
      using True by (subst wait_loop.simps) simp
    with Suc.IH [of ?s] Suc.prems eq show ?thesis by (simp add: interrupted_def)
  next
    case False
    then show ?thesis
      by (subst wait_loop.simps) (simp add: sys_epoll_wait_def Let_def log_io_def set_errno_if_def)
  qed
qed

text \<open>The calls a batch of events amounts to when no callback touches the table.\<close>

fun run_calls :: "('cb, 'a) runner \<Rightarrow> ('cb \<times> epoll_event) list \<Rightarrow> (('cb, 'a) epoll_manager_scheme, unit) cpp" where
  "run_calls run [] = cret ()"
| "run_calls run ((cb, ev) # cs) = cseq (run cb (Some ev)) (run_calls run cs)"

definition calls_of :: "(int \<rightharpoonup> 'cb epoll_context) \<Rightarrow> epoll_event list \<Rightarrow> ('cb \<times> epoll_event) list" where
  "calls_of m evs = map (\<lambda>ev. (ctx_cb (the (m (ev_fd ev))), ev)) (filter (\<lambda>ev. ev_fd ev \<in> enabled_fds m) evs)"

lemma dispatch_calls:
  assumes "\<And>cb ev s. fd_map (snd (run cb ev s)) = fd_map s"
    and "\<forall>ev \<in> set evs. ev_fd ev \<in> dom (fd_map s)"
  shows "dispatch_events e run evs s = run_calls run (calls_of (fd_map s) evs) s"
  using assms(2)
proof (induction evs arbitrary: s)
  case Nil
  then show ?case by (simp add: calls_of_def)
next
  case (Cons ev evs)
  then obtain ctx where ctx: "fd_map s (ev_fd ev) = Some ctx" by auto
  obtain res s' where run: "run (ctx_cb ctx) (Some ev) s = (res, s')" by fastforce
  then have same: "fd_map s' = fd_map s" using assms(1) by (metis snd_conv)
  show ?case
  proof (cases "ctx_enabled ctx")
    case True
    then show ?thesis using ctx run same Cons.IH [of s'] Cons.prems
      by (cases res) (simp_all add: cbind_apply calls_of_def enabled_fds_entry)
  next
    case False
    then show ?thesis using ctx Cons.IH [of s] Cons.prems
      by (simp add: cbind_apply calls_of_def enabled_fds_entry)
  qed
qed

section \<open>Properties\<close>

definition manager0 :: "nat epoll_manager" where
  "manager0 = \<lparr>w_trace = [], w_errno = 0, em_fd = 4, fd_map = Map.empty,
     ev_pre = [], ev_post = [], ev_exit = []\<rparr>"

lemma reach_manager0: "reachable fresh_manager (em_step e) manager0"
  by (rule reach_init) (simp add: fresh_manager_def manager0_def)

text \<open>C9. In every state that a fresh manager can reach by its operations, in any order and with
  any failures of the kernel, the kernel watches every enabled entry of the table, every entry has its
  own descriptor as event data, and the kernel watches nothing else but descriptors whose removal
  it has refused. As long as it refuses none, table and kernel agree exactly.\<close>

theorem epoll_table_matches_kernel:
  assumes "reachable fresh_manager (em_step e) s"
    and "on = {fd. \<exists>ctx. fd_map s fd = Some ctx \<and> ctx_enabled ctx}"
    and "refused = {fd. \<exists>r < 0. EvEpollCtl (em_fd s) EPOLL_CTL_DEL fd r \<in> set (w_trace s)}"
  shows "on \<subseteq> interest (em_fd s) (w_trace s) \<and> interest (em_fd s) (w_trace s) \<subseteq> on \<union> refused \<and>
    (\<forall>fd ctx. fd_map s fd = Some ctx \<longrightarrow> ev_fd (ctx_ev ctx) = fd) \<and>
    (refused = {} \<longrightarrow> interest (em_fd s) (w_trace s) = on)"
proof -
  have "on = enabled_fds (fd_map s)" by (auto simp: assms(2) enabled_fds_def split: option.splits)
  then show ?thesis using em.inv_reachable [OF assms(1)]
    by (auto simp: assms(3) epoll_sound_def failed_removals_def own_data_def)
qed

definition refusing_env :: env where
  "refusing_env = calm_env\<lparr>os_epoll_ctl := \<lambda>_ _ opn _ _. if opn = EPOLL_CTL_DEL then (-1, 12) else (0, 0)\<rparr>"

theorem epoll_table_matches_kernel_witness:
  "interest 4 (w_trace (snd (RegisterFd calm_env 7 EPOLLIN 1 0 manager0))) = {7} \<and>
   interest 4 (w_trace (snd (DeleteFd refusing_env 7 (snd (RegisterFd refusing_env 7 EPOLLIN 1 0 manager0))))) \<subseteq> {7}"
proof -
  let ?f = refusing_env
  let ?s = "snd (RegisterFd calm_env 7 EPOLLIN 1 0 manager0)" and ?t = "snd (RegisterFd ?f 7 EPOLLIN 1 0 manager0)"
  let ?u = "snd (DeleteFd ?f 7 ?t)"
  note run = RegisterFd_def DeleteFd_def manager0_def sys_epoll_ctl_def cbind_apply cseq_def calm_env_def
    set_errno_if_def log_io_def
  have "reachable fresh_manager (em_step calm_env) ?s"
    by (rule reach_step [OF reach_manager0 em_step.register])
  from epoll_table_matches_kernel [OF this refl refl] have "interest 4 (w_trace ?s) = {7}" by (auto simp: run)
  moreover have "reachable fresh_manager (em_step ?f) ?u"
    by (rule reach_step [OF reach_step [OF reach_manager0 em_step.register] em_step.delete])
  from epoll_table_matches_kernel [OF this refl refl] have "interest 4 (w_trace ?u) \<subseteq> {7}"
    by (auto simp: run refusing_env_def split: if_splits)
  ultimately show ?thesis by blast
qed

text \<open>The assertions of \<open>EnableFd\<close> and \<open>DisableFd\<close> cannot fail: from every reachable state
  both return normally, in debug builds too, for a descriptor whose removal was never refused, when
  the kernel reports EEXIST and ENOENT only as documented.\<close>

theorem enable_disable_never_abort:
  assumes "reachable fresh_manager (em_step e) s" "ctl_errors_documented e"
    and "fd \<notin> failed_removals (em_fd s) (w_trace s)"
  shows "(\<exists>b t. EnableFd e fd s = (Inr b, t)) \<and> (\<exists>b t. DisableFd e fd s = (Inr b, t))"
  using EnableFd_no_abort [OF em.inv_reachable [OF assms(1)] assms(2,3)]
    DisableFd_no_abort [OF em.inv_reachable [OF assms(1)] assms(2,3)]
  by (metis prod.collapse sum.exhaust_sel sum.collapse)

theorem enable_disable_never_abort_witness:
  "\<exists>b t. DisableFd (calm_env\<lparr>ndebug := False\<rparr>) 7 manager0 = (Inr b, t)"
proof -
  have "ctl_errors_documented (calm_env\<lparr>ndebug := False\<rparr>)"
    by (simp add: ctl_errors_documented_def calm_env_def)
  from enable_disable_never_abort [OF reach_manager0 this] show ?thesis
    by (simp add: failed_removals_def manager0_def)
qed

text \<open>\<open>ModifyFdEvents\<close> replaces the event bits and nothing else: after a successful call the
  entry has exactly the new events and its old configuration bits, callback and state, and every
  other entry is untouched.\<close>

theorem ModifyFdEvents_effect:
  assumes "ModifyFdEvents e fd evs s = (Inr True, s')"
  shows "\<exists>ctx ctx'. fd_map s fd = Some ctx \<and> fd_map s' = (fd_map s)(fd \<mapsto> ctx') \<and>
    GetConfigMask ctx' = GetConfigMask ctx \<and>
    ev_events (ctx_ev ctx') AND NOT EpollConfigFullMask = evs \<and>
    ctx_cb ctx' = ctx_cb ctx \<and> ctx_enabled ctx' = ctx_enabled ctx \<and>
    ev_fd (ctx_ev ctx') = ev_fd (ctx_ev ctx)"
proof -
  from assms have cfg: "evs AND EpollConfigFullMask = 0"
    and mc: "modify_ctx e fd (\<lambda>ctx. GetConfigMask ctx OR evs) s = (Inr True, s')"
    by (auto simp: ModifyFdEvents_def split: if_splits)
  from modify_ctx_True [OF mc] obtain ctx where ctx: "fd_map s fd = Some ctx"
    "fd_map s' = (fd_map s)(fd \<mapsto> ctx\<lparr>ctx_ev := (ctx_ev ctx)\<lparr>ev_events := GetConfigMask ctx OR evs\<rparr>\<rparr>)"
    by blast
  have gm: "GetConfigMask c = ev_events (ctx_ev c) AND EpollConfigFullMask" for c :: "'a epoll_context"
    by (simp add: GetConfigMask_def EpollConfigFullMask_def)
  have "(o' AND EpollConfigFullMask OR evs) AND EpollConfigFullMask = o' AND EpollConfigFullMask"
    "(o' AND EpollConfigFullMask OR evs) AND NOT EpollConfigFullMask = evs" for o'
    using mask_replace [OF cfg] by blast+
  then show ?thesis using ctx by (auto simp: gm)
qed

theorem ModifyFdEvents_effect_witness:
  "\<exists>ctx ctx'. fd_map (snd (RegisterFd calm_env 7 EPOLLIN 1 EPOLLET manager0)) 7 = Some ctx \<and>
     fd_map (snd (ModifyFdEvents calm_env 7 EPOLLOUT
       (snd (RegisterFd calm_env 7 EPOLLIN 1 EPOLLET manager0)))) 7 = Some ctx' \<and>
     GetConfigMask ctx' = GetConfigMask ctx \<and>
     ev_events (ctx_ev ctx') AND NOT EpollConfigFullMask = EPOLLOUT"
proof -
  let ?s = "snd (RegisterFd calm_env 7 EPOLLIN 1 EPOLLET manager0)"
  have "ModifyFdEvents calm_env 7 EPOLLOUT ?s = (Inr True, snd (ModifyFdEvents calm_env 7 EPOLLOUT ?s))"
    by (simp add: epoll_op_defs cbind_apply cseq_def calm_env_def manager0_def set_errno_if_def
        log_io_def epoll_flag_defs)
  from ModifyFdEvents_effect [OF this] show ?thesis by auto
qed

text \<open>C32. The event loop returns: if the kernel interrupts the wait only finitely often, one call
  of \<open>RunEventLoop\<close> ends, whatever the callbacks do.\<close>

theorem RunEventLoop_returns:
  assumes "s1 = snd (cbind (cget ev_pre) (run_static run) s)"
    and "n = card (dom (fd_map s1))"
    and "os_epoll_wait e (w_trace s1 @ interrupted k (em_fd s1) n timeout) (em_fd s1) n timeout \<noteq> WaitErr EINTR"
  shows "\<exists>res s'. RunEventLoop e run timeout s = Some (res, s')"
proof -
  obtain res where pre: "cbind (cget ev_pre) (run_static run) s = (res, s1)"
    using assms(1) by (metis prod.collapse)
  obtain w t where "wait_loop e n timeout s1 = Some (w, t)"
    using wait_loop_returns [OF assms(3)] by blast
  then show ?thesis using pre assms(2)
    by (cases res; cases w) (auto simp: RunEventLoop_def surj_pair split: prod.split)
qed

theorem RunEventLoop_returns_witness:
  "\<exists>res s'. RunEventLoop (calm_env\<lparr>os_epoll_wait := \<lambda>tr _ _ _. if length tr < 2 then WaitErr EINTR
       else WaitEvents [\<lparr>ev_events = 1, ev_fd = 7\<rparr>]\<rparr>) (\<lambda>_ _. cret ()) (-1) manager0 = Some (res, s')"
  by (rule RunEventLoop_returns [where k = 2, OF refl refl])
    (simp add: manager0_def cbind_apply interrupted_def)

text \<open>Delivery: for a batch of events on descriptors of the table, the loop calls the callbacks
  of the enabled entries, each event once and in the kernel's order, and reaches neither the
  assertion nor the undefined dereference, provided no callback changes the table.\<close>

theorem dispatch_delivers_in_order:
  assumes "\<And>cb ev s. fd_map (snd (run cb ev s)) = fd_map s"
    and "\<forall>ev \<in> set evs. ev_fd ev \<in> dom (fd_map s)"
  shows "dispatch_events e run evs s =
    run_calls run (map (\<lambda>ev. (ctx_cb (the (fd_map s (ev_fd ev))), ev))
      (filter (\<lambda>ev. \<exists>ctx. fd_map s (ev_fd ev) = Some ctx \<and> ctx_enabled ctx) evs)) s"
proof -
  have "(\<lambda>ev :: epoll_event. ev_fd ev \<in> enabled_fds (fd_map s)) =
      (\<lambda>ev. \<exists>ctx. fd_map s (ev_fd ev) = Some ctx \<and> ctx_enabled ctx)"
    by (auto simp: fun_eq_iff enabled_fds_def split: option.splits)
  then show ?thesis using dispatch_calls [of run evs s e, OF assms] by (simp add: calls_of_def)
qed

theorem dispatch_delivers_in_order_witness:
  "dispatch_events calm_env (\<lambda>cb ev. cmod (\<lambda>s. s\<lparr>ev_exit := ev_exit s @ [cb]\<rparr>))
      [\<lparr>ev_events = 1, ev_fd = 7\<rparr>] (snd (RegisterFd calm_env 7 EPOLLIN 1 0 manager0)) =
    (Inr (), (snd (RegisterFd calm_env 7 EPOLLIN 1 0 manager0))\<lparr>ev_exit := [1]\<rparr>)"
proof -
  let ?run = "\<lambda>cb (ev :: epoll_event option). cmod (\<lambda>s :: nat epoll_manager. s\<lparr>ev_exit := ev_exit s @ [cb]\<rparr>)"
  let ?s = "snd (RegisterFd calm_env 7 EPOLLIN 1 0 manager0)"
  have "fd_map (snd (?run cb ev s)) = fd_map s" for cb ev s by simp
  moreover have "\<forall>ev \<in> set [\<lparr>ev_events = 1, ev_fd = 7\<rparr>]. ev_fd ev \<in> dom (fd_map ?s)"
    by (simp add: dom_def epoll_op_defs cbind_apply cseq_def calm_env_def manager0_def set_errno_if_def log_io_def)
  ultimately show ?thesis
    using dispatch_delivers_in_order [of ?run "[\<lparr>ev_events = 1, ev_fd = 7\<rparr>]" ?s calm_env]
    by (simp add: epoll_op_defs cbind_apply cseq_def calm_env_def manager0_def set_errno_if_def log_io_def)
qed

end
