(* ===== verification/IRC_Client.thy ===== *)
theory IRC_Client
  imports OS_World
begin

text \<open>
  The low-level IRC client (class \<open>IRC\<close> of \<open>src/src/IRC.hh\<close> and \<open>src/src/IRC.cc\<close>): the commands it
  formats and sends, login, quit with its flush, and the receive loop that collects complete lines.
  The object's only mutable state is its descriptor, which is an argument here. Logging is left out.
\<close>

section \<open>Commands\<close>

definition SendMsg :: "env \<Rightarrow> int \<Rightarrow> string \<Rightarrow> ('a world_scheme, int) cpp" where
  "SendMsg e fd msg = sys_send e fd msg"

definition IRC_Nick :: "env \<Rightarrow> int \<Rightarrow> string \<Rightarrow> ('a world_scheme, int) cpp" where
  "IRC_Nick e fd nickname = SendMsg e fd (CR # ''NICK '' @ nickname @ [CR, LF])"

definition IRC_Join :: "env \<Rightarrow> int \<Rightarrow> string \<Rightarrow> ('a world_scheme, int) cpp" where
  "IRC_Join e fd channel = SendMsg e fd (CR # ''JOIN '' @ channel @ [CR, LF])"

definition IRC_Part :: "env \<Rightarrow> int \<Rightarrow> string \<Rightarrow> ('a world_scheme, int) cpp" where
  "IRC_Part e fd channel = SendMsg e fd (CR # ''PART '' @ channel @ [CR, LF])"

definition PrivMsg :: "env \<Rightarrow> int \<Rightarrow> string \<Rightarrow> string \<Rightarrow> ('a world_scheme, int) cpp" where
  "PrivMsg e fd recipient msg = SendMsg e fd (CR # ''PRIVMSG '' @ recipient @ '' :'' @ msg @ [CR, LF])"

definition IRC_Quit :: "env \<Rightarrow> int \<Rightarrow> string \<Rightarrow> ('a world_scheme, int) cpp" where
  "IRC_Quit e fd msg =
     (if 0 \<le> fd then
        cbind (SendMsg e fd (CR # ''QUIT '' @ msg @ [CR, LF])) (\<lambda>r.
          if r < 0 then cret r else cseq (sys_poll fd 5000) (cret r))
      else cret 0)"

definition IRC_Login :: "env \<Rightarrow> int \<Rightarrow> string \<Rightarrow> string \<Rightarrow> ('a world_scheme, int) cpp" where
  "IRC_Login e fd nickname password =
     (let fail = 0 in
      cbind (SendMsg e fd (CR # ''USER '' @ nickname @ '' 0 * :'' @ nickname @ [CR, LF])) (\<lambda>r.
      let fail = (if r < 0 then r else fail) in
      cbind (IRC_Nick e fd nickname) (\<lambda>r.
      let fail = (if r < 0 then r else fail) in
      if password \<noteq> [] then
        cbind (PrivMsg e fd ''NickServ'' (''identify '' @ password)) (\<lambda>r.
        let fail = r in cret fail)
      else cret fail)))"

text \<open>\<open>~IRC\<close> closes an owned descriptor.\<close>

definition IRC_dtor :: "int \<Rightarrow> ('a world_scheme, unit) cpp" where
  "IRC_dtor fd = (if 0 \<le> fd then sys_close fd else cret ())"

section \<open>Receiving\<close>

text \<open>
  The \<open>do ... while (buf[r - 1] != '\n' && tries--)\<close> loop; \<open>buf\<close> is the filled part of the buffer, so
  \<open>r\<close> is its length. \<open>None\<close> is one of the early \<open>return ""\<close>.
\<close>

fun recv_loop :: "env \<Rightarrow> int \<Rightarrow> nat \<Rightarrow> string \<Rightarrow> ('a world_scheme, string option) cpp" where
  "recv_loop e fd tries buf =
     cbind (sys_recv e fd 4096) (\<lambda>p.
       case p of
         RecvErr en \<Rightarrow>
           if en \<noteq> EAGAIN then cret None
           else if length buf \<noteq> 0 then cret (Some buf) else cret None
       | RecvData d \<Rightarrow>
           if d = [] then cret None
           else if last (buf @ d) \<noteq> LF
           then (case tries of 0 \<Rightarrow> cret (Some (buf @ d)) | Suc t \<Rightarrow> recv_loop e fd t (buf @ d))
           else cret (Some (buf @ d)))"

declare recv_loop.simps [simp del]

text \<open>\<open>while (--r && buf[r - 1] != '\n');\<close> where \<open>--r\<close> on 0 would wrap around.\<close>

fun discard_loop :: "string \<Rightarrow> nat \<Rightarrow> nat result" where
  "discard_loop buf 0 = Inl (UB ''size_t underflow'')"
| "discard_loop buf (Suc r) =
     (if r = 0 then Inr r
      else (case str_at buf (r - 1) of
              Inl err \<Rightarrow> Inl err
            | Inr c \<Rightarrow> if c \<noteq> LF then discard_loop buf r else Inr r))"

definition RecvMsg :: "env \<Rightarrow> int \<Rightarrow> ('a world_scheme, string) cpp" where
  "RecvMsg e fd =
     cbind (recv_loop e fd 5 []) (\<lambda>res.
       case res of
         None \<Rightarrow> cret []
       | Some buf \<Rightarrow>
           cbind (cpure (if length buf = 0 then Inl (UB ''buf[r - 1]'') else str_at buf (length buf - 1))) (\<lambda>c.
           cbind (cpure (if c \<noteq> LF then discard_loop buf (length buf) else Inr (length buf))) (\<lambda>r.
             cret (take r buf))))"

section \<open>What is received\<close>

text \<open>The longest prefix of a buffer that ends with a newline.\<close>

definition complete_lines :: "string \<Rightarrow> string" where
  "complete_lines s = rev (dropWhile (\<lambda>c. c \<noteq> LF) (rev s))"

fun recv_data :: "recv_result \<Rightarrow> string" where
  "recv_data (RecvData d) = d"
| "recv_data (RecvErr en) = []"

lemma complete_lines_snoc: "complete_lines (s @ [c]) = (if c = LF then s @ [c] else complete_lines s)"
  by (simp add: complete_lines_def)

lemma complete_lines_Nil [simp]: "complete_lines [] = []"
  by (simp add: complete_lines_def)

lemma complete_lines_prefix: "prefix (complete_lines s) s"
  by (metis complete_lines_def dropWhile_eq_drop rev_rev_ident suffix_dropWhile suffix_to_prefix)

lemma complete_lines_take: "take (length (complete_lines s)) (s @ t) = complete_lines s"
proof -
  obtain z where z: "s = complete_lines s @ z" using complete_lines_prefix by (auto simp: prefix_def)
  have "take (length (complete_lines s)) ((complete_lines s @ z) @ t) = complete_lines s" by simp
  then show ?thesis using z by simp
qed

lemma complete_lines_last: "complete_lines s = [] \<or> last (complete_lines s) = LF"
proof (cases "dropWhile (\<lambda>c. c \<noteq> LF) (rev s)")
  case (Cons c cs)
  then show ?thesis using hd_dropWhile [of "\<lambda>c. c \<noteq> LF" "rev s"] by (simp add: complete_lines_def)
qed (simp add: complete_lines_def)

lemma discard_loop_spec:
  "0 < r \<Longrightarrow> r \<le> length buf \<Longrightarrow> discard_loop buf r = Inr (length (complete_lines (take (r - 1) buf)))"
proof (induction buf r rule: discard_loop.induct)
  case (2 buf r)
  show ?case
  proof (cases r)
    case (Suc k)
    then have "take r buf = take k buf @ [buf ! k]" using "2.prems" by (simp add: take_Suc_conv_app_nth)
    with Suc 2 show ?thesis by (auto simp: str_at_def complete_lines_snoc)
  qed simp
qed simp

text \<open>The answers the kernel may give to the loop's calls.\<close>

definition recv_answers :: "env \<Rightarrow> int \<Rightarrow> recv_result set" where
  "recv_answers e fd = range (\<lambda>tr. os_recv e tr fd 4096)"

lemma recv_answersI [intro]: "os_recv e tr fd 4096 = p \<Longrightarrow> p \<in> recv_answers e fd"
  by (auto simp: recv_answers_def)

text \<open>The loop makes at most \<open>tries + 1\<close> calls and returns what they delivered.\<close>

lemma recv_loop_spec:
  "\<exists>rs res s'. recv_loop e fd tries buf s = (Inr res, s') \<and>
     w_trace s' = w_trace s @ map (EvRecv fd) rs \<and> length rs \<le> Suc tries \<and>
     set rs \<subseteq> recv_answers e fd \<and>
     (res = None \<or> (res = Some (buf @ concat (map recv_data rs)) \<and>
                     buf @ concat (map recv_data rs) \<noteq> []))"
proof (induction tries arbitrary: buf s)
  case 0
  let ?p = "os_recv e (w_trace s) fd 4096"
  show ?case
    by (rule exI [of _ "[?p]"])
      (auto simp: recv_loop.simps [of e fd 0] sys_recv_def cbind_apply Let_def split: recv_result.split)
next
  case (Suc tries)
  let ?p = "os_recv e (w_trace s) fd 4096"
  show ?case
  proof (cases "\<exists>d. ?p = RecvData d \<and> d \<noteq> [] \<and> last (buf @ d) \<noteq> LF")
    case True
    then obtain d where d: "?p = RecvData d" "d \<noteq> []" "last (buf @ d) \<noteq> LF" by blast
    let ?s = "set_errno_if False 0 (log_io (EvRecv fd ?p) s)"
    obtain rs res s' where IH: "recv_loop e fd tries (buf @ d) ?s = (Inr res, s')"
        "w_trace s' = w_trace ?s @ map (EvRecv fd) rs" "length rs \<le> Suc tries"
        "set rs \<subseteq> recv_answers e fd"
        "res = None \<or> (res = Some ((buf @ d) @ concat (map recv_data rs)) \<and>
           (buf @ d) @ concat (map recv_data rs) \<noteq> [])"
      using Suc.IH by blast
    have "recv_loop e fd (Suc tries) buf s = (Inr res, s')"
      using d IH(1) by (simp add: recv_loop.simps [of e fd "Suc tries"] sys_recv_def cbind_apply Let_def)
    then show ?thesis using IH d by (intro exI [of _ "?p # rs"]) auto
  next
    case False
    then show ?thesis
      by (intro exI [of _ "[?p]"])
        (auto simp: recv_loop.simps [of e fd "Suc tries"] sys_recv_def cbind_apply Let_def
          split: recv_result.split)
  qed
qed

lemma RecvMsg_run:
  "\<exists>rs r s'. RecvMsg e fd s = (Inr r, s') \<and> w_trace s' = w_trace s @ map (EvRecv fd) rs \<and>
     length rs \<le> 6 \<and> (r = [] \<or> r = complete_lines (concat (map recv_data rs))) \<and>
     set rs \<subseteq> recv_answers e fd"
proof -
  obtain rs res s' where l: "recv_loop e fd 5 [] s = (Inr res, s')"
      "w_trace s' = w_trace s @ map (EvRecv fd) rs" "length rs \<le> 6"
      "set rs \<subseteq> recv_answers e fd"
      "res = None \<or> (res = Some (concat (map recv_data rs)) \<and> concat (map recv_data rs) \<noteq> [])"
    using recv_loop_spec [of e fd 5 "[]" s] by auto
  show ?thesis
  proof (cases res)
    case None
    then show ?thesis using l by (intro exI [of _ rs]) (auto simp: RecvMsg_def cbind_apply)
  next
    case (Some buf)
    with l have buf: "buf = concat (map recv_data rs)" "buf \<noteq> []" by auto
    then obtain b c where bc: "buf = b @ [c]" by (metis rev_exhaust)
    have "RecvMsg e fd s = (Inr (complete_lines buf), s')"
      using l(1) Some bc discard_loop_spec [of "length buf" buf] complete_lines_take [of b "[c]"]
      by (simp add: RecvMsg_def cbind_apply str_at_def complete_lines_snoc
          del: discard_loop.simps)
    then show ?thesis using l(2,3,4) buf(1) by blast
  qed
qed

section \<open>Properties\<close>

text \<open>C18. \<open>RecvMsg\<close> always returns, after at most six \<open>recv\<close> calls, and never indexes outside its
  buffer: its result is empty or the received bytes up to and including the last newline, so a
  line cut by the end of the data is never handed on; while every call delivers at most the 4096
  bytes asked for, the result has at most 24576.\<close>

theorem RecvMsg_complete_lines:
  assumes "\<forall>tr d. os_recv e tr fd 4096 = RecvData d \<longrightarrow> length d \<le> 4096"
  shows "\<exists>rs r s'. RecvMsg e fd s = (Inr r, s') \<and> w_trace s' = w_trace s @ map (EvRecv fd) rs \<and>
     length rs \<le> 6 \<and> (r = [] \<or> (r = complete_lines (concat (map recv_data rs)) \<and> last r = LF)) \<and>
     length r \<le> 24576"
proof -
  obtain rs r s' where run: "RecvMsg e fd s = (Inr r, s')"
      "w_trace s' = w_trace s @ map (EvRecv fd) rs" "length rs \<le> 6"
      "r = [] \<or> r = complete_lines (concat (map recv_data rs))"
      "set rs \<subseteq> recv_answers e fd"
    using RecvMsg_run [of e fd s] by blast
  have "length (recv_data p) \<le> 4096" if "p \<in> set rs" for p
  proof -
    from that run(5) obtain tr where "os_recv e tr fd 4096 = p"
      unfolding recv_answers_def by blast
    then show ?thesis using assms by (cases p) simp_all
  qed
  then have "length (concat (map recv_data rs)) \<le> length rs * 4096" by (rule length_concat_bound)
  also have "\<dots> \<le> 24576" using run(3) by simp
  finally have "length r \<le> 24576"
    using run(4) prefix_length_le [OF complete_lines_prefix] by (auto intro: le_trans)
  then show ?thesis using run complete_lines_last by blast
qed

theorem RecvMsg_complete_lines_witness:
  "\<exists>rs r s'. RecvMsg (calm_env\<lparr>os_recv := \<lambda>tr _ _. if tr = [] then RecvData (''PING :a'' @ [CR, LF] @ ''PI'')
        else RecvErr EAGAIN\<rparr>) 3 \<lparr>w_trace = [], w_errno = 0\<rparr> = (Inr r, s') \<and>
     length rs \<le> 6 \<and> (r = [] \<or> (r = complete_lines (concat (map recv_data rs)) \<and> last r = LF)) \<and>
     length r \<le> 24576"
proof -
  let ?e = "calm_env\<lparr>os_recv := \<lambda>tr _ _. if tr = [] then RecvData (''PING :a'' @ [CR, LF] @ ''PI'')
        else RecvErr EAGAIN\<rparr>"
  have "\<forall>tr d. os_recv ?e tr 3 4096 = RecvData d \<longrightarrow> length d \<le> 4096" by auto
  from RecvMsg_complete_lines [OF this, of "\<lparr>w_trace = [], w_errno = 0\<rparr>"] show ?thesis by blast
qed

text \<open>What \<open>Login\<close> reports. It always sends USER and NICK, and without a password it returns a
  negative value exactly when one of the two failed. With a password the result of the third
  message overwrites both, so an earlier failure is forgotten.\<close>

lemma Login_result:
  "\<exists>r1 r2 r3 s'. IRC_Login e fd nick pw s =
      (Inr (if pw = [] then (if r2 < 0 then r2 else if r1 < 0 then r1 else 0) else r3), s') \<and>
    w_trace s' = w_trace s @
      [EvSend fd (CR # ''USER '' @ nick @ '' 0 * :'' @ nick @ [CR, LF]) r1,
       EvSend fd (CR # ''NICK '' @ nick @ [CR, LF]) r2] @
      (if pw = [] then []
       else [EvSend fd (CR # ''PRIVMSG NickServ :identify '' @ pw @ [CR, LF]) r3])"
  by (auto simp: IRC_Login_def IRC_Nick_def PrivMsg_def SendMsg_def sys_send_def cbind_apply Let_def
      split: prod.splits)

end
