(* ===== verification/Server.thy ===== *)
theory Server
  imports Epoll IRC_Client
begin

text \<open>
  The server object (\<open>src/src/Server.hh\<close>, \<open>src/src/Server.cc\<close>): the plugin handles, the connection
  state, the nickname, the channel table with its join and part requests, and the table of plugin
  commands. A \<open>Manager\<close> is an \<open>EpollManager\<close> with a \<open>Server\<close> in it, so the server's fields extend the
  event manager's record. A callback is a code address, a number. The mutexes of the class guard
  one operation each; operations are atomic here. \<open>Locks\<close> treats the mutexes, and \<open>Atomicity\<close> shows that
  interleaved calls have the effect of atomic ones.
\<close>

section \<open>State\<close>

datatype ServerState = kSetup | kConnected | kLoggedIn | kFailed | ServerState_kMax

datatype ChannelState = JoinRequested | Joined | PartRequested

type_synonym callback = nat

type_synonym CommandPlugin = "nat option"

record 'cb server = "'cb epoll_manager" +
  irc_fd :: int
  srv_state :: ServerState
  address :: string
  port :: "16 word"
  chan_map :: "string \<rightharpoonup> ChannelState"
  nickname :: string
  user_command_map :: "string \<rightharpoonup> callback"
  plugins_map :: "string \<rightharpoonup> CommandPlugin"

section \<open>Plugin handles\<close>

definition PATH_MAX :: nat where "PATH_MAX = 4096"

text \<open>\<open>OpenHandle\<close> with the handle it leaves in the object.\<close>

definition OpenHandle :: "env \<Rightarrow> string \<Rightarrow> ('a world_scheme, bool \<times> CommandPlugin) cpp" where
  "OpenHandle e name =
     cbind (cget (\<lambda>s. os_cwd e (w_trace s))) (\<lambda>ptr.
     case ptr of
       Some dir \<Rightarrow>
         (let cwd = dir @ ''/lib'' @ name @ ''.so'' in
          if PATH_MAX < length cwd then cret (False, None)
          else cbind (sys_dlopen e (c_str cwd)) (\<lambda>handle.
            case handle of Some h \<Rightarrow> cret (True, Some h) | None \<Rightarrow> cret (False, None)))
     | None \<Rightarrow> cret (False, None))"

definition GetFunc :: "env \<Rightarrow> CommandPlugin \<Rightarrow> string \<Rightarrow> nat option" where
  "GetFunc e handle symbol = os_dlsym e handle (c_str symbol)"

definition GetRegistrationFunc :: "env \<Rightarrow> CommandPlugin \<Rightarrow> string \<Rightarrow> nat option" where
  "GetRegistrationFunc e h plugin_name = GetFunc e h (''RegisterPluginCommands_'' @ plugin_name)"

definition GetDeletionFunc :: "env \<Rightarrow> CommandPlugin \<Rightarrow> string \<Rightarrow> nat option" where
  "GetDeletionFunc e h plugin_name = GetFunc e h (''DeletePluginCommands_'' @ plugin_name)"

definition GetHelpFunc :: "env \<Rightarrow> CommandPlugin \<Rightarrow> string \<Rightarrow> nat option" where
  "GetHelpFunc e h plugin_name = GetFunc e h (''HelpPluginCommands_'' @ plugin_name)"

text \<open>\<open>~CommandPlugin\<close>\<close>

definition CloseHandle :: "CommandPlugin \<Rightarrow> ('a world_scheme, unit) cpp" where
  "CloseHandle handle = (case handle of Some h \<Rightarrow> sys_dlclose h | None \<Rightarrow> cret ())"

section \<open>Basic interface\<close>

definition GetState :: "(('cb, 'a) server_scheme, ServerState) cpp" where
  "GetState = cget srv_state"

text \<open>The log message of \<open>SetState\<close> is left out; it subscripts the table of \<open>Diagnostics\<close>.\<close>

definition SetState :: "ServerState \<Rightarrow> (('cb, 'a) server_scheme, unit) cpp" where
  "SetState st = cmod (\<lambda>s. s\<lparr>srv_state := st\<rparr>)"

definition GetNickname :: "(('cb, 'a) server_scheme, string) cpp" where
  "GetNickname = cget nickname"

definition UpdateNickname :: "string \<Rightarrow> string \<Rightarrow> (('cb, 'a) server_scheme, unit) cpp" where
  "UpdateNickname old_nick new_nick =
     cbind (cget nickname) (\<lambda>cur.
       if old_nick = cur then cmod (\<lambda>s. s\<lparr>nickname := new_nick\<rparr>) else cret ())"

text \<open>\<open>SetNickname\<close> passes \<open>nickname_.data()\<close>, a \<open>const char *\<close>: the argument here is the buffer
  from the view's first character on.\<close>

definition SetNickname :: "env \<Rightarrow> string \<Rightarrow> (('cb, 'a) server_scheme, unit) cpp" where
  "SetNickname e data =
     cbind (cget irc_fd) (\<lambda>fd. cbind (IRC_Nick e fd (c_str data)) (\<lambda>r. cret ()))"

section \<open>Channels\<close>

definition JoinChannel :: "env \<Rightarrow> string \<Rightarrow> (('cb, 'a) server_scheme, unit) cpp" where
  "JoinChannel e channel =
     cbind (cget chan_map) (\<lambda>m.
     cbind (cget irc_fd) (\<lambda>fd.
     cbind (IRC_Join e fd channel) (\<lambda>r.
       if r < 0 then cret ()
       else (case m channel of
               None \<Rightarrow> cmod (\<lambda>s. s\<lparr>chan_map := fm_insert channel JoinRequested (chan_map s)\<rparr>)
             | Some _ \<Rightarrow> cmod (\<lambda>s. s\<lparr>chan_map := fm_assign channel JoinRequested (chan_map s)\<rparr>)))))"

definition UpdateJoinChannel :: "string \<Rightarrow> (('cb, 'a) server_scheme, unit) cpp" where
  "UpdateJoinChannel channel =
     cbind (cget chan_map) (\<lambda>m.
       case m channel of
         Some st \<Rightarrow>
           if st = JoinRequested
           then cmod (\<lambda>s. s\<lparr>chan_map := fm_assign channel Joined (chan_map s)\<rparr>) else cret ()
       | None \<Rightarrow> cret ())"

definition UpdatePartChannel :: "string \<Rightarrow> (('cb, 'a) server_scheme, unit) cpp" where
  "UpdatePartChannel channel =
     cbind (cget chan_map) (\<lambda>m.
       case m channel of
         Some st \<Rightarrow>
           if st = PartRequested
           then cmod (\<lambda>s. s\<lparr>chan_map := fm_erase channel (chan_map s)\<rparr>) else cret ()
       | None \<Rightarrow> cret ())"

text \<open>The \<open>ssize_t\<close> of \<open>PrivMsg\<close> converts to \<open>bool\<close>: everything but 0 is true.\<close>

definition SendChannel :: "env \<Rightarrow> string \<Rightarrow> string \<Rightarrow> (('cb, 'a) server_scheme, bool) cpp" where
  "SendChannel e channel msg =
     cbind (cget irc_fd) (\<lambda>fd. cbind (PrivMsg e fd channel msg) (\<lambda>r. cret (r \<noteq> 0)))"

definition PartChannel :: "env \<Rightarrow> string \<Rightarrow> (('cb, 'a) server_scheme, bool) cpp" where
  "PartChannel e channel =
     cbind (cget chan_map) (\<lambda>m.
       case m channel of
         Some st \<Rightarrow>
           cbind (cget irc_fd) (\<lambda>fd.
           cbind (IRC_Part e fd channel) (\<lambda>r.
             if r < 0 then cret False
             else cseq (cmod (\<lambda>s. s\<lparr>chan_map := fm_assign channel PartRequested (chan_map s)\<rparr>)) (cret True)))
       | None \<Rightarrow> cret False)"

section \<open>Plugin commands\<close>

definition AddPluginCommands :: "(string \<times> callback) list \<Rightarrow> (('cb, 'a) server_scheme, unit) cpp" where
  "AddPluginCommands sp =
     cmod (\<lambda>s. s\<lparr>user_command_map := fold (\<lambda>(k, v). fm_insert k v) sp (user_command_map s)\<rparr>)"

definition RemovePluginCommands :: "string list \<Rightarrow> (('cb, 'a) server_scheme, unit) cpp" where
  "RemovePluginCommands sp =
     cmod (\<lambda>s. s\<lparr>user_command_map := fold fm_erase sp (user_command_map s)\<rparr>)"

section \<open>Connecting\<close>

text \<open>The \<open>for\<close> loop over the addresses; the descriptor is what the variable \<open>fd\<close> holds.\<close>

fun connect_loop :: "env \<Rightarrow> nat list \<Rightarrow> int \<Rightarrow> ('a world_scheme, int) cpp" where
  "connect_loop e [] fd = cret fd"
| "connect_loop e (i # ais) fd =
     cbind (sys_socket e i) (\<lambda>fd.
       if fd < 0 then cret fd
       else cbind (sys_connect e fd i) (\<lambda>r. if r = 0 then cret fd else connect_loop e ais fd))"

definition GetConnectionFd :: "env \<Rightarrow> string \<Rightarrow> 16 word \<Rightarrow> ('a world_scheme, int) cpp" where
  "GetConnectionFd e addr prt =
     cbind (cget (\<lambda>s. os_getaddrinfo e (w_trace s) addr (show_nat (unat prt)))) (\<lambda>result.
       case result of None \<Rightarrow> cret (-1) | Some ais \<Rightarrow> connect_loop e ais (-1))"

text \<open>The fields of the server that a successful \<open>ConnectionNew\<close> returns.\<close>

record connection =
  c_fd :: int
  c_address :: string
  c_port :: "16 word"
  c_nickname :: string

definition ConnectionNew :: "env \<Rightarrow> string \<Rightarrow> 16 word \<Rightarrow> string \<Rightarrow> ('a world_scheme, connection option) cpp" where
  "ConnectionNew e addr prt nick =
     cbind (GetConnectionFd e (c_str addr) prt) (\<lambda>fd.
       if fd < 0 then cret None
       else cret (Some \<lparr>c_fd = fd, c_address = addr, c_port = prt, c_nickname = nick\<rparr>))"

section \<open>The channel protocol\<close>

text \<open>
  The entry of one channel as an automaton: the bot sends a JOIN (from anywhere, as a channel that is
  being left may be joined again) or a PART, and the server confirms a join or a part. A confirmation
  counts only for what was requested last.
\<close>

datatype chan_event = JoinSent | JoinConfirmed | PartSent | PartConfirmed

fun chan_next :: "chan_event \<Rightarrow> ChannelState option \<Rightarrow> ChannelState option" where
  "chan_next JoinSent x = Some JoinRequested"
| "chan_next JoinConfirmed x = (if x = Some JoinRequested then Some Joined else x)"
| "chan_next PartSent x = (if x = None then None else Some PartRequested)"
| "chan_next PartConfirmed x = (if x = Some PartRequested then None else x)"

lemmas irc_send_defs = IRC_Join_def IRC_Part_def IRC_Nick_def PrivMsg_def SendMsg_def sys_send_def

lemmas channel_op_defs = JoinChannel_def UpdateJoinChannel_def UpdatePartChannel_def PartChannel_def

text \<open>The result of handing a line to \<open>send\<close> in a state.\<close>

abbreviation send_result :: "env \<Rightarrow> string \<Rightarrow> ('cb, 'a) server_scheme \<Rightarrow> int" where
  "send_result e d s \<equiv> fst (os_send e (w_trace s) (irc_fd s) d)"

lemma JoinChannel_effect:
  assumes "d = CR # ''JOIN '' @ c @ [CR, LF]"
  shows "w_trace (snd (JoinChannel e c s)) = w_trace s @ [EvSend (irc_fd s) d (send_result e d s)]"
    "chan_map (snd (JoinChannel e c s)) =
       (if send_result e d s < 0 then chan_map s else (chan_map s)(c := chan_next JoinSent (chan_map s c)))"
  by (auto simp: assms channel_op_defs irc_send_defs cbind_apply log_io_def set_errno_if_def fun_eq_iff
      split: option.splits prod.splits)

lemma PartChannel_effect:
  assumes "d = CR # ''PART '' @ c @ [CR, LF]"
  shows "w_trace (snd (PartChannel e c s)) =
      (if chan_map s c = None then w_trace s else w_trace s @ [EvSend (irc_fd s) d (send_result e d s)])"
    "chan_map (snd (PartChannel e c s)) =
       (if chan_map s c = None \<or> send_result e d s < 0 then chan_map s
        else (chan_map s)(c := chan_next PartSent (chan_map s c)))"
    "fst (PartChannel e c s) = Inr (chan_map s c \<noteq> None \<and> \<not> send_result e d s < 0)"
  by (auto simp: assms channel_op_defs irc_send_defs cbind_apply cseq_def log_io_def set_errno_if_def fun_eq_iff
      split: option.splits prod.splits)

lemma confirmation_effects:
  "snd (UpdateJoinChannel c s) = s\<lparr>chan_map := (chan_map s)(c := chan_next JoinConfirmed (chan_map s c))\<rparr>"
  "snd (UpdatePartChannel c s) = s\<lparr>chan_map := (chan_map s)(c := chan_next PartConfirmed (chan_map s c))\<rparr>"
  by (auto simp: channel_op_defs fm_assign_def fm_erase_def fun_upd_idem split: option.splits)

inductive server_step :: "env \<Rightarrow> ('cb, 'a) server_scheme \<Rightarrow> ('cb, 'a) server_scheme \<Rightarrow> bool" for e where
  step_join: "server_step e s (snd (JoinChannel e c s))"
| step_joined: "server_step e s (snd (UpdateJoinChannel c s))"
| step_part: "server_step e s (snd (PartChannel e c s))"
| step_parted: "server_step e s (snd (UpdatePartChannel c s))"
| step_send: "server_step e s (snd (SendChannel e c msg s))"
| step_nick: "server_step e s (snd (SetNickname e d s))"
| step_update_nick: "server_step e s (snd (UpdateNickname old new s))"
| step_state: "server_step e s (snd (SetState st s))"
| step_add: "server_step e s (snd (AddPluginCommands sp s))"
| step_remove: "server_step e s (snd (RemovePluginCommands ks s))"

text \<open>What the bytes on the wire justify: no entry without a JOIN that was sent, no pending part
  without a PART that was sent.\<close>

definition sent_ok :: "int \<Rightarrow> string \<Rightarrow> trace \<Rightarrow> bool" where
  "sent_ok fd msg tr \<longleftrightarrow> (\<exists>r \<ge> 0. EvSend fd msg r \<in> set tr)"

definition chan_inv :: "('cb, 'a) server_scheme \<Rightarrow> bool" where
  "chan_inv s \<longleftrightarrow> (\<forall>c st. chan_map s c = Some st \<longrightarrow>
     sent_ok (irc_fd s) (CR # ''JOIN '' @ c @ [CR, LF]) (w_trace s) \<and>
     (st = PartRequested \<longrightarrow> sent_ok (irc_fd s) (CR # ''PART '' @ c @ [CR, LF]) (w_trace s)))"

lemma sent_ok_snoc [simp]:
  "sent_ok fd msg (tr @ [ev]) \<longleftrightarrow> sent_ok fd msg tr \<or> (\<exists>r \<ge> 0. ev = EvSend fd msg r)"
  by (auto simp: sent_ok_def)

lemma server_step_inv: "server_step e s t \<Longrightarrow> chan_inv s \<Longrightarrow> chan_inv t"
  by (induction rule: server_step.induct)
    (auto simp: chan_inv_def channel_op_defs irc_send_defs SendChannel_def SetNickname_def
      UpdateNickname_def SetState_def AddPluginCommands_def RemovePluginCommands_def cbind_apply cseq_def
      log_io_def set_errno_if_def split: option.splits prod.splits if_splits)

definition fresh_server :: "('cb, 'a) server_scheme \<Rightarrow> bool" where
  "fresh_server s \<longleftrightarrow> chan_map s = Map.empty"

lemma fresh_server_inv: "fresh_server s \<Longrightarrow> chan_inv s"
  by (simp add: fresh_server_def chan_inv_def)

interpretation srv: invariant_system fresh_server "server_step e" chan_inv for e
  by unfold_locales (auto intro: server_step_inv fresh_server_inv)

section \<open>Connection attempts\<close>

lemma connect_loop_all_fail:
  assumes "\<And>tr a. 0 \<le> os_socket e tr a" "\<And>tr f a. os_connect e tr f a \<noteq> 0"
  shows "ais \<noteq> [] \<or> 0 \<le> fd \<Longrightarrow> \<exists>fd' s'. connect_loop e ais fd s = (Inr fd', s') \<and> 0 \<le> fd'"
proof (induction ais arbitrary: fd s)
  case (Cons a ais)
  show ?case
    using Cons.IH assms by (simp add: sys_socket_def sys_connect_def cbind_apply Let_def not_less)
qed simp

lemma connect_loop_result:
  "\<exists>fd' s' tr. connect_loop e ais fd s = (Inr fd', s') \<and> w_trace s' = w_trace s @ tr \<and>
     (fd' < 0 \<or> (\<exists>i tr0. tr = tr0 @ [EvSocket i fd', EvConnect fd' i 0]) \<or>
      (length tr = 2 * length ais \<and> (\<forall>f i r. EvConnect f i r \<in> set tr \<longrightarrow> r \<noteq> 0)))"
proof (induction ais arbitrary: fd s)
  case Nil
  then show ?case by simp
next
  case (Cons i ais)
  let ?fd = "os_socket e (w_trace s) i"
  let ?s1 = "log_io (EvSocket i ?fd) s"
  let ?r = "os_connect e (w_trace ?s1) ?fd i"
  let ?s2 = "log_io (EvConnect ?fd i ?r) ?s1"
  consider "?fd < 0" | "\<not> ?fd < 0" "?r = 0" | "\<not> ?fd < 0" "?r \<noteq> 0" by blast
  then show ?case
  proof cases
    case 3
    obtain fd' s' tr where IH: "connect_loop e ais ?fd ?s2 = (Inr fd', s')" "w_trace s' = w_trace ?s2 @ tr"
      "fd' < 0 \<or> (\<exists>i tr0. tr = tr0 @ [EvSocket i fd', EvConnect fd' i 0]) \<or>
       (length tr = 2 * length ais \<and> (\<forall>f i r. EvConnect f i r \<in> set tr \<longrightarrow> r \<noteq> 0))"
      using Cons.IH [of ?fd ?s2] by blast
    have "connect_loop e (i # ais) fd s = (Inr fd', s')"
      using 3 IH(1) by (simp add: sys_socket_def sys_connect_def cbind_apply Let_def)
    then show ?thesis using IH(2,3) 3
      by (intro exI [of _ fd'] exI [of _ s'] exI [of _ "EvSocket i ?fd # EvConnect ?fd i ?r # tr"])
        (auto intro: exI [of _ "_ # _ # _"])
  qed (simp_all add: sys_socket_def sys_connect_def cbind_apply Let_def)
qed

section \<open>Properties\<close>

definition server0 :: "nat server" where
  "server0 = \<lparr>w_trace = [], w_errno = 0, em_fd = 4, fd_map = Map.empty, ev_pre = [], ev_post = [],
     ev_exit = [], irc_fd = 3, srv_state = kSetup, address = ''irc'', port = 6667, chan_map = Map.empty,
     nickname = ''kbot'', user_command_map = Map.empty, plugins_map = Map.empty\<rparr>"

text \<open>C15. Channel protocol: what each operation sends and what becomes of the table. \<open>JoinChannel\<close> sends one
  JOIN and, unless that fails, moves the entry of its channel as the automaton says; \<open>PartChannel\<close> sends
  a PART for a known channel only, moves the entry unless that fails, and tells whether it did; the two
  confirmations send nothing and move the entry only if the matching request was the last. No
  operation touches another channel.\<close>

theorem channel_protocol:
  assumes "join = CR # ''JOIN '' @ c @ [CR, LF]" "part = CR # ''PART '' @ c @ [CR, LF]"
  shows "w_trace (snd (JoinChannel e c s)) = w_trace s @ [EvSend (irc_fd s) join (send_result e join s)] \<and>
    chan_map (snd (JoinChannel e c s)) =
      (if send_result e join s < 0 then chan_map s else (chan_map s)(c \<mapsto> JoinRequested)) \<and>
    w_trace (snd (PartChannel e c s)) =
      (if c \<in> dom (chan_map s) then w_trace s @ [EvSend (irc_fd s) part (send_result e part s)] else w_trace s) \<and>
    fst (PartChannel e c s) = Inr (c \<in> dom (chan_map s) \<and> 0 \<le> send_result e part s) \<and>
    chan_map (snd (PartChannel e c s)) =
      (if c \<in> dom (chan_map s) \<and> 0 \<le> send_result e part s then (chan_map s)(c \<mapsto> PartRequested) else chan_map s) \<and>
    snd (UpdateJoinChannel c s) = s\<lparr>chan_map := (chan_map s)(c := chan_next JoinConfirmed (chan_map s c))\<rparr> \<and>
    snd (UpdatePartChannel c s) = s\<lparr>chan_map := (chan_map s)(c := chan_next PartConfirmed (chan_map s c))\<rparr>"
  using JoinChannel_effect [OF assms(1), of e s] PartChannel_effect [OF assms(2), of e s] confirmation_effects [of c s]
  by (auto simp: not_less domIff)

text \<open>A channel is joined, confirmed, left and forgotten.\<close>

theorem channel_protocol_witness:
  "chan_map (snd (UpdateJoinChannel ''#c'' (snd (JoinChannel calm_env ''#c'' server0)))) = [''#c'' \<mapsto> Joined] \<and>
   chan_map (snd (UpdatePartChannel ''#c'' (snd (PartChannel calm_env ''#c''
     (snd (JoinChannel calm_env ''#c'' server0)))))) = Map.empty"
proof -
  let ?j = "snd (JoinChannel calm_env ''#c'' server0)" and ?p = "\<lambda>s. snd (PartChannel calm_env ''#c'' s)"
  note prot = channel_protocol [OF refl refl, where c = "''#c''" and e = calm_env]
  have j: "chan_map ?j = [''#c'' \<mapsto> JoinRequested]" using prot [where s = server0] by (simp add: server0_def calm_env_def)
  then have "chan_map (snd (UpdateJoinChannel ''#c'' ?j)) = [''#c'' \<mapsto> Joined]" using prot [where s = ?j] by simp
  moreover have "chan_map (?p ?j) = [''#c'' \<mapsto> PartRequested]" using prot [where s = ?j] j by (simp add: calm_env_def)
  then have "chan_map (snd (UpdatePartChannel ''#c'' (?p ?j))) = Map.empty" using prot [where s = "?p ?j"] by simp
  ultimately show ?thesis by simp
qed

text \<open>C23. The channel table tells the truth about the wire: in every state that a server without
  channels reaches through its operations, every known channel has been requested by a JOIN that
  was sent, and every channel waiting for a part by a PART that was sent.\<close>

theorem channels_were_requested:
  assumes "reachable fresh_server (server_step e) s" "chan_map s c = Some st"
  shows "sent_ok (irc_fd s) (CR # ''JOIN '' @ c @ [CR, LF]) (w_trace s) \<and>
    (st = PartRequested \<longrightarrow> sent_ok (irc_fd s) (CR # ''PART '' @ c @ [CR, LF]) (w_trace s))"
  using srv.inv_reachable [OF assms(1)] assms(2) by (simp add: chan_inv_def)

theorem channels_were_requested_witness:
  "chan_map (snd (JoinChannel calm_env ''#c'' server0)) ''#c'' = Some JoinRequested \<and>
   sent_ok 3 (CR # ''JOIN '' @ ''#c'' @ [CR, LF]) (w_trace (snd (JoinChannel calm_env ''#c'' server0)))"
proof -
  let ?s = "snd (JoinChannel calm_env ''#c'' server0)"
  have "reachable fresh_server (server_step calm_env) server0"
    by (rule reach_init) (simp add: fresh_server_def server0_def)
  then have r: "reachable fresh_server (server_step calm_env) ?s"
    by (rule reach_step) (rule step_join)
  have m: "chan_map ?s ''#c'' = Some JoinRequested" and fd: "irc_fd ?s = 3"
    by (simp_all add: JoinChannel_def irc_send_defs cbind_apply calm_env_def server0_def log_io_def
        set_errno_if_def)
  show ?thesis using channels_were_requested [OF r m] m fd by simp
qed

text \<open>Loading a plugin's commands and removing them again leaves the server as it was, when
  none of the names was taken; and no registration replaces a command that is already there.\<close>

theorem plugin_commands_roundtrip:
  assumes "\<And>k. k \<in> fst ` set sp \<Longrightarrow> user_command_map s k = None"
  shows "snd (RemovePluginCommands (map fst sp) (snd (AddPluginCommands sp s))) = s \<and>
    (\<forall>k cb. user_command_map s k = Some cb \<longrightarrow> user_command_map (snd (AddPluginCommands ks s)) k = Some cb)"
proof -
  have "fold fm_erase (map fst sp) (fold (\<lambda>(k, v). fm_insert k v) sp (user_command_map s)) = user_command_map s"
    using fm.erase_inserted [of sp "user_command_map s"] assms by (simp add: fun_eq_iff)
  then show ?thesis
    by (simp add: AddPluginCommands_def RemovePluginCommands_def fm.find_insert_all)
qed

theorem plugin_commands_roundtrip_witness:
  "snd (RemovePluginCommands [''version''] (snd (AddPluginCommands [(''version'', 9)] server0))) = server0"
  using plugin_commands_roundtrip [of "[(''version'', 9)]" server0 "[]"] by (simp add: server0_def)

text \<open>What \<open>GetConnectionFd\<close> returns: a negative number, or a descriptor whose \<open>connect\<close> just
  succeeded, or, after every address was tried, the descriptor of a socket that is not connected.\<close>

theorem GetConnectionFd_result:
  "\<exists>fd s' tr. GetConnectionFd e addr prt s = (Inr fd, s') \<and> w_trace s' = w_trace s @ tr \<and>
     (fd < 0 \<or> (\<exists>i tr0. tr = tr0 @ [EvSocket i fd, EvConnect fd i 0]) \<or>
      (\<exists>ais. os_getaddrinfo e (w_trace s) addr (show_nat (unat prt)) = Some ais \<and>
        length tr = 2 * length ais \<and> (\<forall>f i. EvConnect f i 0 \<notin> set tr)))"
proof (cases "os_getaddrinfo e (w_trace s) addr (show_nat (unat prt))")
  case None
  then show ?thesis by (simp add: GetConnectionFd_def cbind_apply)
next
  case (Some ais)
  then show ?thesis using connect_loop_result [of e ais "- 1" s]
    by (simp add: GetConnectionFd_def cbind_apply) blast
qed

text \<open>The third case happens: when every \<open>connect\<close> is refused, \<open>ConnectionNew\<close> still returns a
  server, on an unconnected socket.\<close>

lemma ConnectionNew_unconnected:
  assumes "os_getaddrinfo e (w_trace s) (c_str addr) (show_nat (unat prt)) = Some ais" "ais \<noteq> []"
    and "\<And>tr a. 0 \<le> os_socket e tr a" "\<And>tr f a. os_connect e tr f a \<noteq> 0"
  shows "\<exists>c s'. ConnectionNew e addr prt nick s = (Inr (Some c), s')"
proof -
  obtain fd s' where "connect_loop e ais (-1) s = (Inr fd, s')" "0 \<le> fd"
    using connect_loop_all_fail [of e ais "- 1" s] assms by blast
  then show ?thesis using assms(1)
    by (simp add: ConnectionNew_def GetConnectionFd_def cbind_apply not_less)
qed

text \<open>A failed send, with the return value -1, reads as success.\<close>

lemma SendChannel_failure_is_true:
  "fst (os_send e (w_trace s) (irc_fd s) (CR # ''PRIVMSG '' @ c @ '' :'' @ msg @ [CR, LF])) = -1 \<Longrightarrow>
     fst (SendChannel e c msg s) = Inr True"
  by (auto simp: SendChannel_def irc_send_defs cbind_apply split: prod.splits)

end
