(* ===== verification/UserCommand.thy ===== *)
theory UserCommand
  imports IRC_Dispatch Server
begin

text \<open>
  The user commands (\<open>src/src/UserCommand.hh\<close>, \<open>src/src/UserCommand.cc\<close>): replies to the invoker,
  the permission check, the arity guard of \<open>UserCommandForward\<close>, the seven built-in commands and
  their table. The code of a loaded plugin is reached through addresses; what stands at an address
  is the parameter \<open>plugin_code\<close>, a record of functions on the state of the manager. A null address
  is an abort where the source asserts (in a debug build) and undefined behaviour otherwise.
\<close>

section \<open>Plugin code\<close>

record 's plugin_code =
  fn_register :: "nat \<Rightarrow> ('s, unit) cpp"
  fn_delete :: "nat \<Rightarrow> ('s, unit) cpp"
  fn_help :: "nat \<Rightarrow> IRCMessage \<Rightarrow> ('s, unit) cpp"
  fn_command :: "nat \<Rightarrow> IRCMessage \<Rightarrow> ('s, unit) cpp"

text \<open>Calling through a function pointer.\<close>

definition call_ptr :: "(nat \<Rightarrow> ('s, 'a) cpp) \<Rightarrow> nat option \<Rightarrow> ('s, 'a) cpp" where
  "call_ptr f p = (case p of Some a \<Rightarrow> f a | None \<Rightarrow> cthrow (UB ''call of a null pointer''))"

section \<open>Replies and guards\<close>

definition SendInvokerReply :: "env \<Rightarrow> IRCMessage \<Rightarrow> string \<Rightarrow> (('cb, 'a) server_scheme, unit) cpp" where
  "SendInvokerReply e msg reply =
     cbind (cpure (GetUser (ndebug e) msg)) (\<lambda>u.
     cbind (cpure (GetChannel msg)) (\<lambda>recv.
     cbind GetNickname (\<lambda>own.
     let recv = (if recv = own then u_nickname u else recv) in
     cbind (cpure (GetUser (ndebug e) msg)) (\<lambda>u'.
     cbind (SendChannel e recv (u_nickname u' @ '': '' @ reply)) (\<lambda>_. cret ())))))"

definition InvokerPermissionCheck ::
    "env \<Rightarrow> IRCMessage \<Rightarrow> IRCUserCapability \<Rightarrow> (('cb, 'a) server_scheme, bool) cpp" where
  "InvokerPermissionCheck e msg msk =
     cbind (cpure (GetUser (ndebug e) msg)) (\<lambda>u.
       if IsUserCapable u (cap_mask msk) then cret True
       else cseq (SendInvokerReply e msg ''Error: Permission denied.'') (cret False))"

definition ExpectArgsRange :: "nat \<Rightarrow> nat \<Rightarrow> IRCMessage \<Rightarrow> bool" where
  "ExpectArgsRange mn mx m =
     (if mn + 2 \<le> length (GetParameters m) \<and> length (GetParameters m) \<le> mx + 2 then True else False)"

definition COMMAND_PREFIX :: string where
  "COMMAND_PREFIX = '',''"

definition UserCommandForward ::
    "env \<Rightarrow> nat \<Rightarrow> nat \<Rightarrow> (IRCMessage \<Rightarrow> (('cb, 'a) server_scheme, unit) cpp) \<Rightarrow>
       IRCMessage \<Rightarrow> (('cb, 'a) server_scheme, unit) cpp" where
  "UserCommandForward e mn mx cb_ptr msg =
     (if ExpectArgsRange mn mx msg then cb_ptr msg
      else SendInvokerReply e msg (''Incorrect number of arguments passed to command, see '' @ COMMAND_PREFIX @ ''help''))"

declare COMMAND_PREFIX_def [simp]

section \<open>Built-in commands\<close>

text \<open>\<open>msg.GetUserCommandParameters().at(0)\<close>, a view, and the string it shows.\<close>

definition first_arg :: "IRCMessage \<Rightarrow> (nat \<times> nat) result" where
  "first_arg msg = rbind (GetUserCommandParameters msg) (\<lambda>v. vec_at v 0)"

definition BuiltinCommandHi :: "env \<Rightarrow> IRCMessage \<Rightarrow> (('cb, 'a) server_scheme, unit) cpp" where
  "BuiltinCommandHi e msg = SendInvokerReply e msg ''Hello!''"

definition BuiltinCommandNick :: "env \<Rightarrow> IRCMessage \<Rightarrow> (('cb, 'a) server_scheme, unit) cpp" where
  "BuiltinCommandNick e msg =
     cbind (InvokerPermissionCheck e msg kNickModify) (\<lambda>ok.
       if ok then cbind (cpure (first_arg msg)) (\<lambda>v. SetNickname e (drop (fst v) (line msg)))
       else cret ())"

definition BuiltinCommandJoin :: "env \<Rightarrow> IRCMessage \<Rightarrow> (('cb, 'a) server_scheme, unit) cpp" where
  "BuiltinCommandJoin e msg =
     cbind (InvokerPermissionCheck e msg kJoin) (\<lambda>ok.
       if ok then cbind (cpure (first_arg msg)) (\<lambda>v. JoinChannel e (sv_contents (line msg) v))
       else cret ())"

definition BuiltinCommandPart :: "env \<Rightarrow> IRCMessage \<Rightarrow> (('cb, 'a) server_scheme, unit) cpp" where
  "BuiltinCommandPart e msg =
     cbind (InvokerPermissionCheck e msg kPart) (\<lambda>ok.
       if ok then
         cbind (cpure (first_arg msg)) (\<lambda>v.
         cbind (PartChannel e (sv_contents (line msg) v)) (\<lambda>r.
           if \<not> r then SendInvokerReply e msg ''Error: No such channel exists.'' else cret ()))
       else cret ())"

text \<open>Leaving the scope of a local \<open>CommandPlugin\<close> by an exception closes its handle.\<close>

definition guard_handle :: "CommandPlugin \<Rightarrow> ('a world_scheme, 'b) cpp \<Rightarrow> ('a world_scheme, 'b) cpp" where
  "guard_handle h m = ctry m unwinds (\<lambda>err. cseq (CloseHandle h) (cthrow err))"

text \<open>\<open>plugins_map.insert\<close> leaves an existing entry alone; the pair that was not inserted is then
  destroyed with the handle in it.\<close>

definition insert_plugin :: "string \<Rightarrow> CommandPlugin \<Rightarrow> (('cb, 'a) server_scheme, unit) cpp" where
  "insert_plugin name h =
     cbind (cget plugins_map) (\<lambda>m.
     case m name of
       None \<Rightarrow> cmod (\<lambda>s. s\<lparr>plugins_map := fm_insert name h (plugins_map s)\<rparr>)
     | Some _ \<Rightarrow> CloseHandle h)"

definition BuiltinCommandLoadPlugin ::
    "env \<Rightarrow> ('cb, 'a) server_scheme plugin_code \<Rightarrow> IRCMessage \<Rightarrow> (('cb, 'a) server_scheme, unit) cpp" where
  "BuiltinCommandLoadPlugin e P msg =
     cbind (cpure (first_arg msg)) (\<lambda>v.
     let plugin_name = sv_contents (line msg) v in
     cbind (OpenHandle e plugin_name) (\<lambda>(ok, u).
       if ok then
         cseq (guard_handle u
                (let reg_func = GetRegistrationFunc e u plugin_name in
                 cseq (cpure (cpp_assert (ndebug e) (reg_func \<noteq> None) ''reg_func''))
                   (call_ptr (fn_register P) reg_func)))
         (cseq (insert_plugin plugin_name u)
           (SendInvokerReply e msg (''Loaded '' @ plugin_name)))
       else SendInvokerReply e msg ''Failed to load plugin.''))"

definition BuiltinCommandUnloadPlugin ::
    "env \<Rightarrow> ('cb, 'a) server_scheme plugin_code \<Rightarrow> IRCMessage \<Rightarrow> (('cb, 'a) server_scheme, unit) cpp" where
  "BuiltinCommandUnloadPlugin e P msg =
     cbind (cpure (first_arg msg)) (\<lambda>v.
     let plugin_name = sv_contents (line msg) v in
     cbind (cget plugins_map) (\<lambda>m.
     case m plugin_name of
       Some h \<Rightarrow>
         (let del_func = GetDeletionFunc e h plugin_name in
          cseq (cpure (cpp_assert (ndebug e) (del_func \<noteq> None) ''del_func''))
          (cseq (call_ptr (fn_delete P) del_func)
          (cseq (cmod (\<lambda>s. s\<lparr>plugins_map := fm_erase plugin_name (plugins_map s)\<rparr>))
          (cseq (CloseHandle h)
            (SendInvokerReply e msg (''Unloaded '' @ plugin_name))))))
     | None \<Rightarrow> SendInvokerReply e msg ''No such plugin loaded.''))"

text \<open>The loop over the command map: \<open>plugin_list.append(p.first.substr(1)).append(" ")\<close>.\<close>

fun plugin_list_loop :: "string list \<Rightarrow> string \<Rightarrow> string result" where
  "plugin_list_loop [] acc = Inr acc"
| "plugin_list_loop (k # ks) acc =
     rbind (sv_substr k 1) (\<lambda>n. plugin_list_loop ks (acc @ n @ '' ''))"

definition BuiltinCommandHelp ::
    "env \<Rightarrow> ('cb, 'a) server_scheme plugin_code \<Rightarrow> IRCMessage \<Rightarrow> (('cb, 'a) server_scheme, unit) cpp" where
  "BuiltinCommandHelp e P msg =
     cbind (cpure (GetUserCommandParameters msg)) (\<lambda>v.
       if length v \<noteq> 0 then
         cbind (cpure (vec_idx v 0)) (\<lambda>v0.
         let name = sv_contents (line msg) v0 in
         cbind (cget plugins_map) (\<lambda>m.
         case m name of
           Some h \<Rightarrow> call_ptr (\<lambda>a. fn_help P a msg) (GetHelpFunc e h name)
         | None \<Rightarrow> SendInvokerReply e msg ''No such plugin loaded.''))
       else
         cseq (SendInvokerReply e msg
                 ''Commands available: ,hi ,nick ,join ,part ,load ,unload ,quit ,help'')
         (cbind (cget user_command_map) (\<lambda>m.
          cbind (cpure (plugin_list_loop (map_order e (dom m)) ''Plugin commands available: '')) (\<lambda>l.
            SendInvokerReply e msg l))))"

section \<open>The table\<close>

text \<open>An entry is the name behind a colon, as the trailing parameter of a message has it, with the guarded callback.\<close>

definition STATIC_REGISTER_USER_COMMAND ::
    "env \<Rightarrow> string \<Rightarrow> (IRCMessage \<Rightarrow> (('cb, 'a) server_scheme, unit) cpp) \<Rightarrow> nat \<Rightarrow> nat \<Rightarrow>
       string \<times> (IRCMessage \<Rightarrow> (('cb, 'a) server_scheme, unit) cpp)" where
  "STATIC_REGISTER_USER_COMMAND e name callback mn mx =
     ('':'' @ COMMAND_PREFIX @ name, UserCommandForward e mn mx callback)"

definition static_command_map ::
    "env \<Rightarrow> ('cb, 'a) server_scheme plugin_code \<Rightarrow>
       string \<rightharpoonup> (IRCMessage \<Rightarrow> (('cb, 'a) server_scheme, unit) cpp)" where
  "static_command_map e P = map_of [
     STATIC_REGISTER_USER_COMMAND e ''hi'' (BuiltinCommandHi e) 0 0,
     STATIC_REGISTER_USER_COMMAND e ''nick'' (BuiltinCommandNick e) 1 1,
     STATIC_REGISTER_USER_COMMAND e ''join'' (BuiltinCommandJoin e) 1 1,
     STATIC_REGISTER_USER_COMMAND e ''part'' (BuiltinCommandPart e) 1 1,
     STATIC_REGISTER_USER_COMMAND e ''load'' (BuiltinCommandLoadPlugin e P) 1 1,
     STATIC_REGISTER_USER_COMMAND e ''unload'' (BuiltinCommandUnloadPlugin e P) 1 1,
     STATIC_REGISTER_USER_COMMAND e ''help'' (BuiltinCommandHelp e P) 0 1]"

section \<open>What a reply is\<close>

definition invoker :: "IRCMessage \<Rightarrow> string" where
  "invoker m = takeWhile (\<lambda>c. c \<noteq> CHR ''!'') (source m)"

definition reply_target :: "string \<Rightarrow> IRCMessage \<Rightarrow> string" where
  "reply_target own m = (if hd (GetParameters m) = own then invoker m else hd (GetParameters m))"

definition reply_line :: "string \<Rightarrow> IRCMessage \<Rightarrow> string \<Rightarrow> string" where
  "reply_line own m reply =
     CR # ''PRIVMSG '' @ reply_target own m @ '' :'' @ invoker m @ '': '' @ reply @ [CR, LF]"

text \<open>The state after sending \<open>d\<close> to the server, which is all that a reply changes.\<close>

definition after_send :: "env \<Rightarrow> string \<Rightarrow> ('cb, 'a) server_scheme \<Rightarrow> ('cb, 'a) server_scheme" where
  "after_send e d s = snd (sys_send e (irc_fd s) d s)"

lemma after_send_eq:
  "\<exists>r en. after_send e d s = s\<lparr>w_trace := w_trace s @ [EvSend (irc_fd s) d r], w_errno := en\<rparr>"
proof -
  obtain r en where "os_send e (w_trace s) (irc_fd s) d = (r, en)" by fastforce
  then show ?thesis
    by (intro exI [of _ r] exI [of _ "if r < 0 then en else w_errno s"])
      (simp add: after_send_def sys_send_def log_io_def set_errno_if_def)
qed

lemma after_send_fields [simp]:
  "irc_fd (after_send e d s) = irc_fd s" "nickname (after_send e d s) = nickname s"
  "chan_map (after_send e d s) = chan_map s" "plugins_map (after_send e d s) = plugins_map s"
  "user_command_map (after_send e d s) = user_command_map s" "fd_map (after_send e d s) = fd_map s"
  "srv_state (after_send e d s) = srv_state s"
  using after_send_eq [of e d s] by auto

lemma GetUser_invoker:
  assumes "IsUserMessage (source m)"
  shows "\<exists>u. GetUser nd m = Inr u \<and> u_nickname u = invoker m"
proof -
  obtain x where x: "break_at (CHR ''!'') (source m) = Some x"
    using assms by (cases "break_at (CHR ''!'') (source m)") (auto simp: IsUserMessage_iff break_at_None_iff)
  obtain n r where n: "x = (n, r)" by (cases x)
  with x have "source m = n @ CHR ''!'' # r" "CHR ''!'' \<notin> set n" by (simp_all add: break_at_Some_iff)
  then have "invoker m = n" by (auto simp: invoker_def takeWhile_append)
  then show ?thesis using x n
    by (auto simp: GetUser_def ParseSourceUser_spec spec_source_user_def split: option.splits)
qed

lemma GetUser_server:
  "\<not> IsUserMessage (source m) \<Longrightarrow> GetUser nd m =
     Inl (RuntimeError ''Source parameter is not a valid IRCUser specification'')"
  by (simp add: GetUser_def ParseSourceUser_def)

lemma GetChannel_hd: "param_vec m \<noteq> [] \<Longrightarrow> GetChannel m = Inr (hd (GetParameters m))"
  by (cases "param_vec m") (simp_all add: GetChannel_def vec_at_def GetParameters_def)

lemma SendChannel_run:
  "SendChannel e c msg s =
     (Inr (fst (os_send e (w_trace s) (irc_fd s) (CR # ''PRIVMSG '' @ c @ '' :'' @ msg @ [CR, LF])) \<noteq> 0),
      after_send e (CR # ''PRIVMSG '' @ c @ '' :'' @ msg @ [CR, LF]) s)"
  by (simp add: SendChannel_def PrivMsg_def SendMsg_def sys_send_def after_send_def cbind_apply
      split: prod.split)

lemma SendInvokerReply_run:
  assumes "IsUserMessage (source m)" "param_vec m \<noteq> []"
  shows "SendInvokerReply e m reply s = (Inr (), after_send e (reply_line (nickname s) m reply) s)"
proof -
  obtain u where "GetUser (ndebug e) m = Inr u" "u_nickname u = invoker m"
    using GetUser_invoker [OF assms(1)] by blast
  then show ?thesis using GetChannel_hd [OF assms(2)]
    by (simp add: SendInvokerReply_def GetNickname_def SendChannel_run Let_def reply_line_def
        reply_target_def cbind_apply)
qed

lemma InvokerPermissionCheck_run:
  assumes "IsUserMessage (source m)" "param_vec m \<noteq> []" "cap_mask k \<noteq> 0"
  shows "InvokerPermissionCheck e m k s =
    (if source m = owner_source then (Inr True, s)
     else (Inr False, after_send e (reply_line (nickname s) m ''Error: Permission denied.'') s))"
proof -
  obtain u where u: "ParseSourceUser (ndebug e) (source m) = Inr u"
    using ParseSourceUser_ok [OF assms(1)] by blast
  then show ?thesis using capable_iff_owner [OF u, of "cap_mask k"] assms
    by (simp add: InvokerPermissionCheck_def GetUser_def SendInvokerReply_run)
qed

lemma cap_mask_nonzero [simp]: "cap_mask k \<noteq> 0"
  by (cases k) simp_all

section \<open>The arity guard\<close>

lemma guarded_arg:
  assumes "ExpectArgsRange 1 1 m"
  obtains v where "first_arg m = Inr v" "sv_contents (line m) v = GetParameters m ! 2"
    "v = param_vec m ! 2" "length (param_vec m) = 3" "param_vec m \<noteq> []"
proof (rule that [of "param_vec m ! 2"])
  have len: "length (param_vec m) = 3" using assms by (auto simp: ExpectArgsRange_def split: if_splits)
  then show "first_arg m = Inr (param_vec m ! 2)" "sv_contents (line m) (param_vec m ! 2) = GetParameters m ! 2"
      "param_vec m \<noteq> []"
    by (auto simp: first_arg_def GetUserCommandParameters_def vec_at_def GetParameters_def)
qed (use assms in \<open>auto simp: ExpectArgsRange_def split: if_splits\<close>)

lemma static_commands:
  "static_command_map e P c = Some f \<longleftrightarrow>
     (c = '':,hi'' \<and> f = UserCommandForward e 0 0 (BuiltinCommandHi e)) \<or>
     (c = '':,nick'' \<and> f = UserCommandForward e 1 1 (BuiltinCommandNick e)) \<or>
     (c = '':,join'' \<and> f = UserCommandForward e 1 1 (BuiltinCommandJoin e)) \<or>
     (c = '':,part'' \<and> f = UserCommandForward e 1 1 (BuiltinCommandPart e)) \<or>
     (c = '':,load'' \<and> f = UserCommandForward e 1 1 (BuiltinCommandLoadPlugin e P)) \<or>
     (c = '':,unload'' \<and> f = UserCommandForward e 1 1 (BuiltinCommandUnloadPlugin e P)) \<or>
     (c = '':,help'' \<and> f = UserCommandForward e 0 1 (BuiltinCommandHelp e P))"
  unfolding static_command_map_def STATIC_REGISTER_USER_COMMAND_def by (simp split: if_split) metis

section \<open>Behaviour of the commands\<close>

lemma UserCommandForward_arity:
  "IsUserMessage (source m) \<Longrightarrow> param_vec m \<noteq> [] \<Longrightarrow> \<not> ExpectArgsRange mn mx m \<Longrightarrow>
     UserCommandForward e mn mx cb m s =
       (Inr (), after_send e (reply_line (nickname s) m
          ''Incorrect number of arguments passed to command, see ,help'') s)"
  by (simp add: UserCommandForward_def SendInvokerReply_run)

lemma privileged_refused:
  assumes "IsUserMessage (source m)" "param_vec m \<noteq> []" "source m \<noteq> owner_source"
    and "cb \<in> {BuiltinCommandNick e, BuiltinCommandJoin e, BuiltinCommandPart e}"
  shows "cb m s = (Inr (), after_send e (reply_line (nickname s) m ''Error: Permission denied.'') s)"
  using assms
  by (auto simp: BuiltinCommandNick_def BuiltinCommandJoin_def BuiltinCommandPart_def
      InvokerPermissionCheck_run cbind_apply)

lemma IsUserMessage_owner: "IsUserMessage owner_source"
  by (simp add: IsUserMessage_iff owner_source_def)

lemma owner_check: "source m = owner_source \<Longrightarrow> param_vec m \<noteq> [] \<Longrightarrow>
    InvokerPermissionCheck e m k s = (Inr True, s)"
  using IsUserMessage_owner by (simp add: InvokerPermissionCheck_run)

text \<open>
  The failures of the plugin commands. Those of the plugin are what its functions raise. The other is the
  program's own: it calls what the loader returned without a test, which is a call of a null pointer when
  the loader did not find the symbol; the assertions in front of two of the calls are there in a debug
  build only.
\<close>

definition null_call :: "env \<Rightarrow> cpp_error \<Rightarrow> bool" where
  "null_call e err \<longleftrightarrow> (\<exists>h sym. os_dlsym e h sym = None) \<and>
     (err = UB ''call of a null pointer'' \<or> (\<not> ndebug e \<and> err \<in> {Abort ''reg_func'', Abort ''del_func''}))"

definition plugin_failure :: "env \<Rightarrow> 's plugin_code \<Rightarrow> cpp_error \<Rightarrow> bool" where
  "plugin_failure e P err \<longleftrightarrow>
     (\<exists>a m t. fst (fn_register P a t) = Inl err \<or> fst (fn_delete P a t) = Inl err \<or>
        fst (fn_help P a m t) = Inl err) \<or>
     null_call e err"

lemma null_call_missing: "null_call e err \<Longrightarrow> \<exists>h sym. os_dlsym e h sym = None"
  by (simp add: null_call_def)

lemma call_ptr_failure:
  "fst (call_ptr f p s) = Inl err \<Longrightarrow> (\<exists>a t. fst (f a t) = Inl err) \<or> (p = None \<and> err = UB ''call of a null pointer'')"
  by (cases p) (auto simp: call_ptr_def)

lemma plugin_list_loop_failure:
  "plugin_list_loop ks acc = Inl err \<Longrightarrow> err = OutOfRange \<and> [] \<in> set ks"
  by (induction ks arbitrary: acc) (auto simp: sv_substr_def Suc_le_eq split: if_splits)

lemma CloseHandle_run [simp]: "\<exists>s'. CloseHandle h s = (Inr (), s')"
  by (cases h) (simp_all add: CloseHandle_def sys_dlclose_def)

lemma nickname_dl [simp]:
  "nickname (snd (CloseHandle h s)) = nickname s" "irc_fd (snd (CloseHandle h s)) = irc_fd s"
  by (cases h; simp add: CloseHandle_def sys_dlclose_def log_io_def)+

lemma insert_plugin_run: "\<exists>s'. insert_plugin name h s = (Inr (), s')"
  using CloseHandle_run [of h s] by (auto simp: insert_plugin_def cbind_apply split: option.splits)

lemma OpenHandle_run: "\<exists>ok u s'. OpenHandle e name s = (Inr (ok, u), s')"
  by (auto simp: OpenHandle_def sys_dlopen_def cbind_apply Let_def split: option.splits)

lemma guard_handle_failure:
  "fst (guard_handle h m s) = Inl err \<Longrightarrow> fst (m s) = Inl err"
proof -
  obtain r t where mst: "m s = (r, t)" by fastforce
  obtain t' where "CloseHandle h t = (Inr (), t')" using CloseHandle_run by blast
  then show "fst (guard_handle h m s) = Inl err \<Longrightarrow> fst (m s) = Inl err"
    using mst by (cases r) (auto simp: guard_handle_def split: if_splits)
qed

lemma load_failure:
  assumes "IsUserMessage (source m)" "ExpectArgsRange 1 1 m"
    "fst (BuiltinCommandLoadPlugin e P m s) = Inl err"
  shows "plugin_failure e P err"
proof -
  obtain v where v: "first_arg m = Inr v" "param_vec m \<noteq> []" using guarded_arg [OF assms(2)] by metis
  let ?name = "sv_contents (line m) v"
  obtain ok u s1 where o: "OpenHandle e ?name s = (Inr (ok, u), s1)" using OpenHandle_run by blast
  let ?reg = "GetRegistrationFunc e u ?name"
  let ?g = "guard_handle u (cseq (cpure (cpp_assert (ndebug e) (?reg \<noteq> None) ''reg_func''))
              (call_ptr (fn_register P) ?reg))"
  obtain r t where g: "?g s1 = (r, t)" by fastforce
  obtain t' where ins: "insert_plugin ?name u t = (Inr (), t')" using insert_plugin_run by blast
  have ok: "ok" and r: "r = Inl err"
    using assms v o g ins
    by (cases ok; cases r; simp add: BuiltinCommandLoadPlugin_def Let_def SendInvokerReply_run)+
  have "fst (cseq (cpure (cpp_assert (ndebug e) (?reg \<noteq> None) ''reg_func''))
              (call_ptr (fn_register P) ?reg) s1) = Inl err"
    by (rule guard_handle_failure [where h = u]) (simp only: g r fst_conv)
  then show ?thesis
    by (cases ?reg) (auto simp: plugin_failure_def null_call_def call_ptr_def cpp_assert_def cseq_def cbind_apply
        GetRegistrationFunc_def GetFunc_def split: if_splits)
qed

lemma unload_failure:
  assumes "IsUserMessage (source m)" "ExpectArgsRange 1 1 m"
    "fst (BuiltinCommandUnloadPlugin e P m s) = Inl err"
  shows "plugin_failure e P err"
proof -
  obtain v where v: "first_arg m = Inr v" "param_vec m \<noteq> []" using guarded_arg [OF assms(2)] by metis
  let ?name = "sv_contents (line m) v"
  show ?thesis
  proof (cases "plugins_map s ?name")
    case None
    then show ?thesis using assms v
      by (simp add: BuiltinCommandUnloadPlugin_def Let_def SendInvokerReply_run cbind_apply)
  next
    case (Some h)
    let ?del = "GetDeletionFunc e h ?name"
    let ?a = "cpure (cpp_assert (ndebug e) (?del \<noteq> None) ''del_func'')"
    obtain r t where c: "call_ptr (fn_delete P) ?del s = (r, t)" by fastforce
    obtain t' where "CloseHandle h (t\<lparr>plugins_map := fm_erase ?name (plugins_map t)\<rparr>) = (Inr (), t')"
      using CloseHandle_run by blast
    then have "?del = None \<and> err = (if ndebug e then UB ''call of a null pointer'' else Abort ''del_func'') \<or> (\<exists>a. ?del = Some a \<and> fst (fn_delete P a s) = Inl err)"
      using assms v Some c
      by (cases ?del; cases r) (auto simp: BuiltinCommandUnloadPlugin_def Let_def SendInvokerReply_run
          cbind_apply cseq_def cpp_assert_def call_ptr_def split: if_splits)
    then show ?thesis
      by (auto simp: plugin_failure_def null_call_def GetDeletionFunc_def GetFunc_def split: if_splits)
  qed
qed

lemma help_failure:
  assumes "IsUserMessage (source m)" "ExpectArgsRange 0 1 m"
    "fst (BuiltinCommandHelp e P m s) = Inl err"
  shows "plugin_failure e P err \<or> (err = OutOfRange \<and> [] \<in> set (map_order e (dom (user_command_map s))))"
proof -
  have p: "param_vec m \<noteq> []" "2 \<le> length (param_vec m)"
    using assms(2) by (auto simp: ExpectArgsRange_def split: if_splits)
  then have v: "GetUserCommandParameters m = Inr (drop 2 (param_vec m))"
    by (simp add: GetUserCommandParameters_def)
  show ?thesis
  proof (cases "drop 2 (param_vec m) = []")
    case True
    then show ?thesis using assms p v
        plugin_list_loop_failure [of "map_order e (dom (user_command_map s))" "''Plugin commands available: ''" err]
      by (auto simp: BuiltinCommandHelp_def SendInvokerReply_run cbind_apply split: sum.splits)
  next
    case False
    then obtain v0 where v0: "vec_idx (drop 2 (param_vec m)) 0 = Inr v0" by (simp add: vec_idx_def)
    let ?name = "sv_contents (line m) v0"
    have "\<exists>h. fst (call_ptr (\<lambda>a. fn_help P a m) (GetHelpFunc e h ?name) s) = Inl err"
      using assms(1,3) p v v0 False
      by (cases "plugins_map s ?name")
        (auto simp: BuiltinCommandHelp_def SendInvokerReply_run cbind_apply Let_def)
    then show ?thesis
      by (auto simp: plugin_failure_def null_call_def GetHelpFunc_def GetFunc_def dest!: call_ptr_failure)
  qed
qed

lemma PartChannel_run: "\<exists>b s'. PartChannel e c s = (Inr b, s') \<and> nickname s' = nickname s"
  by (cases "chan_map s c") (auto simp: PartChannel_def irc_send_defs cbind_apply cseq_def log_io_def
      set_errno_if_def split: prod.splits)

lemma JoinChannel_run: "\<exists>s'. JoinChannel e c s = (Inr (), s')"
  by (cases "chan_map s c") (auto simp: JoinChannel_def irc_send_defs cbind_apply split: prod.splits)

lemma SetNickname_run: "SetNickname e d s = (Inr (), after_send e (CR # ''NICK '' @ c_str d @ [CR, LF]) s)"
  by (simp add: SetNickname_def irc_send_defs after_send_def cbind_apply split: prod.split)

lemma privileged_total:
  assumes "IsUserMessage (source m)" "ExpectArgsRange 1 1 m"
    and "cb \<in> {BuiltinCommandNick e, BuiltinCommandJoin e, BuiltinCommandPart e}"
  shows "fst (cb m s) = Inr ()"
proof -
  obtain v where v: "first_arg m = Inr v" "param_vec m \<noteq> []" using guarded_arg [OF assms(2)] by metis
  let ?c = "sv_contents (line m) v"
  obtain s1 where j: "JoinChannel e ?c s = (Inr (), s1)" using JoinChannel_run by blast
  obtain b s2 where pc: "PartChannel e ?c s = (Inr b, s2)" using PartChannel_run by blast
  show ?thesis using assms v j pc
    by (cases "source m = owner_source")
      (auto simp: BuiltinCommandNick_def BuiltinCommandJoin_def BuiltinCommandPart_def cbind_apply
        InvokerPermissionCheck_run SetNickname_run SendInvokerReply_run)
qed

section \<open>Ownership of plugin handles\<close>

text \<open>
  How often a trace has opened a handle minus how often it has closed it. The owners of a handle
  are the entries of \<open>plugins_map\<close> and the local \<open>CommandPlugin\<close> of a command that is running.
\<close>

fun handle_delta :: "nat \<Rightarrow> io_event \<Rightarrow> int" where
  "handle_delta h (EvDlopen p (Some h')) = (if h' = h then 1 else 0)"
| "handle_delta h (EvDlclose h') = (if h' = h then - 1 else 0)"
| "handle_delta h _ = 0"

definition handle_balance :: "nat \<Rightarrow> trace \<Rightarrow> int" where
  "handle_balance h tr = sum_list (map (handle_delta h) tr)"

definition entry_owners :: "nat \<Rightarrow> (string \<rightharpoonup> CommandPlugin) \<Rightarrow> string set" where
  "entry_owners h m = {k. m k = Some (Some h)}"

definition owned_with :: "CommandPlugin \<Rightarrow> ('cb, 'a) server_scheme \<Rightarrow> bool" where
  "owned_with u s \<longleftrightarrow> finite (dom (plugins_map s)) \<and>
     (\<forall>h. handle_balance h (w_trace s) =
        int (card (entry_owners h (plugins_map s))) + (if u = Some h then 1 else 0))"

lemma handle_balance_simps [simp]:
  "handle_balance h [] = 0"
  "handle_balance h (tr @ tr') = handle_balance h tr + handle_balance h tr'"
  "handle_balance h (ev # tr) = handle_delta h ev + handle_balance h tr"
  by (simp_all add: handle_balance_def)

lemma finite_entry_owners: "finite (dom m) \<Longrightarrow> finite (entry_owners h m)"
  by (rule finite_subset [of _ "dom m"]) (auto simp: entry_owners_def)

lemma entry_owners_insert:
  "m k = None \<Longrightarrow> entry_owners h (fm_insert k (Some g) m) =
     (if g = h then insert k (entry_owners h m) else entry_owners h m)"
  by (auto simp: entry_owners_def)

lemma entry_owners_erase:
  "entry_owners h (fm_erase k m) = entry_owners h m - {k}"
  by (auto simp: entry_owners_def)

lemma dom_fm [simp]:
  "dom (fm_insert k v m) = insert k (dom m)" "dom (fm_erase k m) = dom m - {k}"
  "dom (fm_assign k v m) = insert k (dom m)"
  by (auto simp: dom_def)

text \<open>What a computation may do without touching handles.\<close>

definition handle_quiet :: "(('cb, 'a) server_scheme, 'b) cpp \<Rightarrow> bool" where
  "handle_quiet m \<longleftrightarrow> leaves (\<lambda>s. (plugins_map s, \<lambda>h. handle_balance h (w_trace s))) m"

lemma handle_quiet_iff:
  "handle_quiet m \<longleftrightarrow> (\<forall>s. plugins_map (snd (m s)) = plugins_map s \<and>
     (\<forall>h. handle_balance h (w_trace (snd (m s))) = handle_balance h (w_trace s)))"
  by (auto simp: handle_quiet_def leaves_def fun_eq_iff)

lemma handle_quiet_state: "handle_quiet m \<Longrightarrow> owned_with u s \<Longrightarrow> owned_with u (snd (m s))"
  by (simp add: handle_quiet_iff owned_with_def)

lemma handle_quiet_keeps: "handle_quiet m \<Longrightarrow> keeps (owned_with u) m"
  using handle_quiet_state [of m u] by (auto simp: keeps_def triple_def split: prod.split sum.split)
    (metis snd_conv)+

lemma handle_quietI:
  "(\<And>s. plugins_map (snd (m s)) = plugins_map s) \<Longrightarrow>
   (\<And>s h. handle_balance h (w_trace (snd (m s))) = handle_balance h (w_trace s)) \<Longrightarrow> handle_quiet m"
  by (simp add: handle_quiet_iff)

lemma handle_quiet_ops:
  "handle_quiet (SendChannel e c msg)" "handle_quiet (SetNickname e d)"
  "handle_quiet (JoinChannel e c)" "handle_quiet (PartChannel e c)"
  "handle_quiet (UpdateJoinChannel c)" "handle_quiet (UpdatePartChannel c)"
  "handle_quiet (UpdateNickname old new)" "handle_quiet (SetState st)"
  "handle_quiet (AddPluginCommands sp)" "handle_quiet (RemovePluginCommands ks)"
  by (rule handle_quietI;
      auto simp: channel_op_defs irc_send_defs SendChannel_def SetNickname_def UpdateNickname_def
        SetState_def AddPluginCommands_def RemovePluginCommands_def cbind_apply cseq_def log_io_def
        set_errno_if_def split: option.splits prod.splits)+

lemma handle_quiet_basic:
  "handle_quiet (cret x)" "handle_quiet (cget f)" "handle_quiet (cpure r)" "handle_quiet (cthrow err)"
  by (simp_all add: handle_quiet_def leaves_basic)

lemma handle_quiet_cbind:
  "handle_quiet m \<Longrightarrow> (\<And>x. handle_quiet (f x)) \<Longrightarrow> handle_quiet (cbind m f)"
  unfolding handle_quiet_def by (rule leaves_cbind)

lemma handle_quiet_reply: "handle_quiet (SendInvokerReply e m reply)"
  unfolding SendInvokerReply_def GetNickname_def Let_def
  by (intro handle_quiet_cbind handle_quiet_basic handle_quiet_ops)

lemmas quiet_keeps = handle_quiet_ops [THEN handle_quiet_keeps]

lemma keeps_reply [intro]: "keeps (owned_with u) (SendInvokerReply e m reply)"
  by (rule handle_quiet_keeps [OF handle_quiet_reply])

lemma keeps_permission [intro]: "keeps (owned_with u) (InvokerPermissionCheck e m k)"
  unfolding InvokerPermissionCheck_def by (auto intro!: keeps_cbind keeps_cseq)

lemma OpenHandle_owns:
  "triple (owned_with None) (OpenHandle e name) (\<lambda>(ok, u) s. owned_with u s \<and> (ok \<longleftrightarrow> u \<noteq> None)) E"
  by (auto simp: triple_def OpenHandle_def sys_dlopen_def cbind_apply Let_def owned_with_def log_io_def
      split: option.splits)

lemma CloseHandle_releases: "triple (owned_with u) (CloseHandle u) (\<lambda>_. owned_with None) E"
  by (cases u) (auto simp: triple_def CloseHandle_def sys_dlclose_def owned_with_def log_io_def)

lemma insert_plugin_takes:
  "triple (owned_with (Some h)) (insert_plugin name (Some h)) (\<lambda>_. owned_with None) E"
proof -
  have "owned_with None (s\<lparr>plugins_map := fm_insert name (Some h) (plugins_map s)\<rparr>)"
    if "owned_with (Some h) s" "plugins_map s name = None" for s :: "('a, 'b) server_scheme"
  proof -
    have "name \<notin> entry_owners h (plugins_map s)" using that(2) by (simp add: entry_owners_def)
    then show ?thesis using that finite_entry_owners [of "plugins_map s"]
      by (auto simp: owned_with_def entry_owners_insert)
  qed
  then show ?thesis using CloseHandle_releases [of "Some h" E]
    by (auto simp: triple_def insert_plugin_def cbind_apply split: option.splits)
qed

lemma erase_gives:
  assumes "owned_with None s" "plugins_map s name = Some u"
  shows "owned_with u (s\<lparr>plugins_map := fm_erase name (plugins_map s)\<rparr>)"
proof -
  have fin: "finite (entry_owners h (plugins_map s))" for h
    using assms(1) finite_entry_owners by (auto simp: owned_with_def)
  have mem: "name \<in> entry_owners h (plugins_map s) \<longleftrightarrow> u = Some h" for h
    using assms(2) by (auto simp: entry_owners_def)
  have "int (card (entry_owners h (plugins_map s) - {name})) =
      int (card (entry_owners h (plugins_map s))) - (if u = Some h then 1 else 0)" for h
    using fin mem card_Suc_Diff1 [OF fin, of name h] by (auto simp: Diff_insert_absorb)
  then show ?thesis using assms(1) by (auto simp: owned_with_def entry_owners_erase)
qed

text \<open>What is asked of plugin code: it leaves handles alone.\<close>

definition plugin_handles_quiet :: "('cb, 'a) server_scheme plugin_code \<Rightarrow> bool" where
  "plugin_handles_quiet P \<longleftrightarrow> (\<forall>a m. handle_quiet (fn_register P a) \<and> handle_quiet (fn_delete P a) \<and>
     handle_quiet (fn_help P a m) \<and> handle_quiet (fn_command P a m))"

lemma keeps_call_ptr:
  "(\<And>a. handle_quiet (f a)) \<Longrightarrow> keeps (owned_with u) (call_ptr f p)"
  by (cases p) (auto simp: call_ptr_def intro: handle_quiet_keeps)

lemma guard_handle_owned:
  assumes "keeps (owned_with u) m"
  shows "triple (owned_with u) (guard_handle u m) (\<lambda>_. owned_with u) (owned_with None)"
  unfolding triple_def
proof (intro allI impI)
  fix s :: "('a, 'b) server_scheme"
  assume s: "owned_with u s"
  obtain r t where run: "m s = (r, t)" by fastforce
  obtain t' where close: "CloseHandle u t = (Inr (), t')" using CloseHandle_run by blast
  show "case guard_handle u m s of (Inl err, t) \<Rightarrow> unwinds err \<longrightarrow> owned_with None t
      | (Inr x, t) \<Rightarrow> owned_with u t"
  proof (cases r)
    case (Inl err)
    have "owned_with None t'" if "unwinds err"
      using keepsD [OF assms s run] that Inl close CloseHandle_releases [of u "\<lambda>_. False"]
      by (auto simp: triple_def dest: spec [of _ t])
    then show ?thesis using run Inl close by (simp add: guard_handle_def)
  next
    case (Inr x)
    then show ?thesis using keepsD [OF assms s run] run by (simp add: guard_handle_def)
  qed
qed

lemma load_keeps:
  assumes "plugin_handles_quiet P"
  shows "keeps (owned_with None) (BuiltinCommandLoadPlugin e P m)"
proof -
  let ?I = "owned_with None :: ('a, 'b) server_scheme \<Rightarrow> bool"
  have body: "triple (owned_with u) (cseq (guard_handle u (let reg_func = GetRegistrationFunc e u name in
                 cseq (cpure (cpp_assert (ndebug e) (reg_func \<noteq> None) ''reg_func''))
                   (call_ptr (fn_register P) reg_func)))
         (cseq (insert_plugin name u) (SendInvokerReply e m (''Loaded '' @ name)))) (\<lambda>_. ?I) ?I"
    if "u \<noteq> None" for u name
  proof -
    have "keeps (owned_with u) (let reg_func = GetRegistrationFunc e u name in
                 cseq (cpure (cpp_assert (ndebug e) (reg_func \<noteq> None) ''reg_func''))
                   (call_ptr (fn_register P) reg_func))"
      using assms unfolding Let_def
      by (intro keeps_cseq keeps_basic keeps_call_ptr) (simp add: plugin_handles_quiet_def)
    moreover have "triple (owned_with u) (insert_plugin name u) (\<lambda>_. ?I) ?I"
      using insert_plugin_takes that by auto
    ultimately show ?thesis using keeps_reply
      by (intro triple_cseq [OF guard_handle_owned triple_cseq]) (auto simp: keeps_def)
  qed
  have branch: "triple (\<lambda>s. owned_with u s \<and> (ok \<longleftrightarrow> u \<noteq> None))
      (if ok then cseq (guard_handle u (let reg_func = GetRegistrationFunc e u name in
                 cseq (cpure (cpp_assert (ndebug e) (reg_func \<noteq> None) ''reg_func''))
                   (call_ptr (fn_register P) reg_func)))
         (cseq (insert_plugin name u) (SendInvokerReply e m (''Loaded '' @ name)))
       else SendInvokerReply e m ''Failed to load plugin.'') (\<lambda>_. ?I) ?I" for ok u name
    using body [of u name] keeps_reply [of u e m "''Failed to load plugin.''"]
    by (cases u; cases ok) (auto simp: triple_def keeps_def)
  show ?thesis
    unfolding BuiltinCommandLoadPlugin_def Let_def
    by (rule keeps_cbind [OF keeps_basic(4)], unfold keeps_def, rule triple_cbind [OF OpenHandle_owns],
        unfold split_paired_all prod.case, rule branch [unfolded Let_def])
qed

lemma unload_keeps:
  assumes "plugin_handles_quiet P"
  shows "keeps (owned_with None) (BuiltinCommandUnloadPlugin e P m)"
proof -
  let ?I = "owned_with None :: ('a, 'b) server_scheme \<Rightarrow> bool"
  let ?R = "\<lambda>name h s. ?I s \<and> plugins_map s name = Some h"
  have call: "triple (?R name h) (call_ptr (fn_delete P) p) (\<lambda>_. ?R name h) ?I" for name h p
  proof (cases p)
    case (Some a)
    then have "handle_quiet (fn_delete P a)" using assms by (simp add: plugin_handles_quiet_def)
    then show ?thesis using Some handle_quiet_state [of "fn_delete P a" None]
      by (auto simp: triple_def call_ptr_def handle_quiet_iff split: prod.splits sum.splits)
        (metis snd_conv)+
  qed (simp add: triple_def call_ptr_def)
  have er: "triple (?R name h) (cmod (\<lambda>s. s\<lparr>plugins_map := fm_erase name (plugins_map s)\<rparr>))
      (\<lambda>_. owned_with h) ?I" for name h
    by (auto simp: triple_def erase_gives)
  have asr: "triple (?R name h) (cpure r) (\<lambda>_. ?R name h) ?I" for name h and r :: "unit result"
    by (auto simp: triple_def split: sum.split)
  have known: "triple (?R name h)
      (cseq (cpure (r :: unit result)) (cseq (call_ptr (fn_delete P) p)
        (cseq (cmod (\<lambda>s. s\<lparr>plugins_map := fm_erase name (plugins_map s)\<rparr>))
        (cseq (CloseHandle h) (SendInvokerReply e m reply))))) (\<lambda>_. ?I) ?I" for name h r p reply
    by (rule triple_cseq [OF asr triple_cseq [OF call triple_cseq [OF er
          triple_cseq [OF CloseHandle_releases]]]])
      (use keeps_reply in \<open>simp add: keeps_def\<close>)
  have un: "keeps ?I (SendInvokerReply e m ''No such plugin loaded.'')" by blast
  show ?thesis
    unfolding BuiltinCommandUnloadPlugin_def Let_def
    by (rule keeps_cbind [OF keeps_basic(4)], unfold keeps_def, rule triple_cbind [OF triple_basic(2)])
      (use known un in \<open>auto simp: keeps_def triple_def split: option.split\<close>)
qed

lemma builtin_keeps_handles:
  assumes "plugin_handles_quiet P" "static_command_map e P c = Some f"
  shows "keeps (owned_with None) (f m)"
proof -
  have fwd: "keeps (owned_with None) (UserCommandForward e mn mx cb m)"
    if "keeps (owned_with None) (cb m)" for mn mx and cb :: "IRCMessage \<Rightarrow> (('a, 'b) server_scheme, unit) cpp"
    using that by (auto simp: UserCommandForward_def)
  have "keeps (owned_with None) (BuiltinCommandHi e m)"
    "keeps (owned_with None) (BuiltinCommandNick e m)" "keeps (owned_with None) (BuiltinCommandJoin e m)"
    "keeps (owned_with None) (BuiltinCommandPart e m)"
    unfolding BuiltinCommandHi_def BuiltinCommandNick_def BuiltinCommandJoin_def BuiltinCommandPart_def
    by (auto intro!: keeps_cbind quiet_keeps keeps_basic keeps_reply)
  moreover have "keeps (owned_with None) (BuiltinCommandHelp e P m)"
    unfolding BuiltinCommandHelp_def Let_def using assms(1)
    by (auto simp: plugin_handles_quiet_def intro!: keeps_cbind keeps_cseq keeps_basic keeps_reply keeps_call_ptr
        split: option.split)
  ultimately show ?thesis
    using assms(2) load_keeps [OF assms(1)] unload_keeps [OF assms(1)]
    by (auto simp: static_commands intro!: fwd)
qed

section \<open>The command system\<close>

text \<open>
  What happens to a server: a built-in command, a plugin's command, or one of the other operations.
  A run that aborts or is undefined has no next state.
\<close>

inductive command_step :: "env \<Rightarrow> ('cb, 'a) server_scheme plugin_code \<Rightarrow> ('cb, 'a) server_scheme \<Rightarrow>
    ('cb, 'a) server_scheme \<Rightarrow> bool" for e P where
  builtin: "static_command_map e P c = Some f \<Longrightarrow> f m s = (r, t) \<Longrightarrow>
     (\<And>err. r = Inl err \<Longrightarrow> unwinds err) \<Longrightarrow> command_step e P s t"
| from_plugin: "fn_command P a m s = (r, t) \<Longrightarrow> (\<And>err. r = Inl err \<Longrightarrow> unwinds err) \<Longrightarrow>
     command_step e P s t"
| server_op: "server_step e s t \<Longrightarrow> command_step e P s t"

definition command_step_ok :: "env \<Rightarrow> ('cb, 'a) server_scheme plugin_code \<Rightarrow> ('cb, 'a) server_scheme \<Rightarrow>
    ('cb, 'a) server_scheme \<Rightarrow> bool" where
  "command_step_ok e P s t \<longleftrightarrow> plugin_handles_quiet P \<and> command_step e P s t"

definition no_plugins :: "('cb, 'a) server_scheme \<Rightarrow> bool" where
  "no_plugins s \<longleftrightarrow> plugins_map s = Map.empty \<and> (\<forall>h. handle_balance h (w_trace s) = 0)"

lemma server_step_quiet: "server_step e s t \<Longrightarrow> owned_with u s \<Longrightarrow> owned_with u t"
  by (induction rule: server_step.induct) (simp_all add: handle_quiet_ops handle_quiet_state)

lemma command_step_owned:
  "command_step e P s t \<Longrightarrow> plugin_handles_quiet P \<Longrightarrow> owned_with None s \<Longrightarrow> owned_with None t"
proof (induction rule: command_step.induct)
  case (builtin c f m s r t)
  then show ?case using keepsD [OF builtin_keeps_handles] by blast
next
  case (from_plugin a m s r t)
  then have "keeps (owned_with None) (fn_command P a m)"
    by (auto simp: plugin_handles_quiet_def intro: handle_quiet_keeps)
  then show ?case using from_plugin by (blast dest: keepsD)
next
  case (server_op s t)
  then show ?case using server_step_quiet by blast
qed

lemma no_plugins_owned: "no_plugins s \<Longrightarrow> owned_with None s"
  by (simp add: no_plugins_def owned_with_def entry_owners_def)

interpretation cmds: invariant_system no_plugins "command_step_ok e P" "owned_with None" for e P
  by unfold_locales (auto simp: command_step_ok_def intro: no_plugins_owned command_step_owned)

section \<open>Properties\<close>

text \<open>Messages for concrete runs: a stranger and the owner asking the bot to join, a stranger's
  plugin commands, and a command sent in private.\<close>

definition msg_join_eve :: IRCMessage where
  "msg_join_eve = \<lparr>line = '':eve!e@h PRIVMSG #c :,join #d'', tags = [], tag_kv = [], source = ''eve!e@h'', command = ''PRIVMSG'', param_vec = [(17, 19), (20, 26), (27, 29)], message_type = PRIVMSG\<rparr>"

definition msg_join_owner :: IRCMessage where
  "msg_join_owner = \<lparr>line = '':kkd!~memxor@unaffiliated/kartikeya PRIVMSG #c :,join #d'', tags = [], tag_kv = [], source = ''kkd!~memxor@unaffiliated/kartikeya'', command = ''PRIVMSG'', param_vec = [(44, 46), (47, 53), (54, 56)], message_type = PRIVMSG\<rparr>"

definition msg_load :: IRCMessage where
  "msg_load = \<lparr>line = '':eve!e@h PRIVMSG #c :,load version'', tags = [], tag_kv = [], source = ''eve!e@h'', command = ''PRIVMSG'', param_vec = [(17, 19), (20, 26), (27, 34)], message_type = PRIVMSG\<rparr>"

definition msg_unload :: IRCMessage where
  "msg_unload = \<lparr>line = '':eve!e@h PRIVMSG #c :,unload version'', tags = [], tag_kv = [], source = ''eve!e@h'', command = ''PRIVMSG'', param_vec = [(17, 19), (20, 28), (29, 36)], message_type = PRIVMSG\<rparr>"

definition msg_hi_private :: IRCMessage where
  "msg_hi_private = \<lparr>line = '':eve!e@h PRIVMSG kbot :,hi'', tags = [], tag_kv = [], source = ''eve!e@h'', command = ''PRIVMSG'', param_vec = [(17, 21), (22, 26)], message_type = PRIVMSG\<rparr>"

definition msg_help_version :: IRCMessage where
  "msg_help_version = \<lparr>line = '':eve!e@h PRIVMSG #c :,help version'', tags = [], tag_kv = [], source = ''eve!e@h'', command = ''PRIVMSG'', param_vec = [(17, 19), (20, 26), (27, 34)], message_type = PRIVMSG\<rparr>"

lemmas sample_msgs = msg_join_eve_def msg_join_owner_def msg_load_def msg_unload_def
  msg_hi_private_def msg_help_version_def

lemma sample_params:
  "GetParameters msg_join_eve = [''#c'', '':,join'', ''#d'']"
  "GetParameters msg_join_owner = [''#c'', '':,join'', ''#d'']"
  "GetParameters msg_load = [''#c'', '':,load'', ''version'']"
  "GetParameters msg_unload = [''#c'', '':,unload'', ''version'']"
  "GetParameters msg_hi_private = [''kbot'', '':,hi'']"
  "GetParameters msg_help_version = [''#c'', '':,help'', ''version'']"
  by (simp_all add: sample_msgs GetParameters_def sv_contents_def seg_def)

definition null_plugin :: "'s plugin_code" where
  "null_plugin = \<lparr>fn_register = \<lambda>_. cret (), fn_delete = \<lambda>_. cret (), fn_help = \<lambda>_ _. cret (),
     fn_command = \<lambda>_ _. cret ()\<rparr>"

text \<open>Routing of replies: a reply is one PRIVMSG to the channel the message came through, or to
  the invoker when that was the bot's own nickname, it addresses the invoker, and nothing but the
  wire changes.\<close>

theorem reply_routing:
  assumes "IsUserMessage (source m)" "param_vec m \<noteq> []"
  shows "\<exists>r en. SendInvokerReply e m reply s =
    (Inr (), s\<lparr>w_trace := w_trace s @
       [EvSend (irc_fd s) (CR # ''PRIVMSG '' @
          (if GetParameters m ! 0 = nickname s then takeWhile (\<lambda>c. c \<noteq> CHR ''!'') (source m)
           else GetParameters m ! 0) @ '' :'' @
          takeWhile (\<lambda>c. c \<noteq> CHR ''!'') (source m) @ '': '' @ reply @ [CR, LF]) r], w_errno := en\<rparr>)"
proof -
  have "hd (GetParameters m) = GetParameters m ! 0"
    using assms(2) by (simp add: GetParameters_def hd_conv_nth)
  moreover obtain r en where "after_send e (reply_line (nickname s) m reply) s =
      s\<lparr>w_trace := w_trace s @ [EvSend (irc_fd s) (reply_line (nickname s) m reply) r], w_errno := en\<rparr>"
    using after_send_eq by blast
  ultimately show ?thesis
    by (intro exI [of _ r] exI [of _ en])
      (simp add: SendInvokerReply_run [OF assms] reply_line_def reply_target_def invoker_def)
qed

theorem reply_routing_witness:
  "\<exists>r en. SendInvokerReply calm_env msg_hi_private ''Hello!'' server0 =
    (Inr (), server0\<lparr>w_trace := [EvSend 3 (CR # ''PRIVMSG eve :eve: Hello!'' @ [CR, LF]) r],
       w_errno := en\<rparr>)"
proof -
  have h: "IsUserMessage (source msg_hi_private)" "param_vec msg_hi_private \<noteq> []"
    by (simp_all add: msg_hi_private_def IsUserMessage_iff)
  have v: "takeWhile (\<lambda>c. c \<noteq> CHR ''!'') (source msg_hi_private) = ''eve''"
    "nickname server0 = ''kbot''" "irc_fd server0 = 3" "w_trace server0 = []"
    by (simp_all add: msg_hi_private_def server0_def)
  show ?thesis using reply_routing [OF h, of calm_env "''Hello!''" server0]
    by (simp add: sample_params v)
qed

text \<open>C14. Access control: whoever is not the hard-coded owner gets exactly one reply out of the
  nick, join and part commands, a refusal (or the arity error), and the state of the server stays
  as it was: no NICK, JOIN or PART is sent and no channel entry changes.\<close>

theorem privileged_commands_refuse_others:
  assumes "c \<in> {'':,nick'', '':,join'', '':,part''}" "static_command_map e P c = Some f"
    and "IsUserMessage (source m)" "param_vec m \<noteq> []" "source m \<noteq> owner_source"
  shows "\<exists>r en. f m s = (Inr (), s\<lparr>w_trace := w_trace s @ [EvSend (irc_fd s) (reply_line (nickname s) m
      (if length (GetParameters m) = 3 then ''Error: Permission denied.''
       else ''Incorrect number of arguments passed to command, see ,help'')) r], w_errno := en\<rparr>)"
proof -
  obtain cb where cb: "f = UserCommandForward e 1 1 cb"
      "cb \<in> {BuiltinCommandNick e, BuiltinCommandJoin e, BuiltinCommandPart e}"
    using assms(1,2) by (auto simp: static_commands)
  have g: "ExpectArgsRange 1 1 m \<longleftrightarrow> length (GetParameters m) = 3"
    by (auto simp: ExpectArgsRange_def)
  have "f m s = (Inr (), after_send e (reply_line (nickname s) m
      (if length (GetParameters m) = 3 then ''Error: Permission denied.''
       else ''Incorrect number of arguments passed to command, see ,help'')) s)"
    using privileged_refused [OF assms(3-5) cb(2)] UserCommandForward_arity [OF assms(3,4)] g cb(1)
    by (simp add: UserCommandForward_def SendInvokerReply_run [OF assms(3,4)])
  then show ?thesis using after_send_eq by metis
qed

theorem privileged_commands_refuse_others_witness:
  "\<exists>f r en. static_command_map calm_env null_plugin '':,join'' = Some f \<and>
     f msg_join_eve server0 = (Inr (), server0\<lparr>w_trace := [EvSend 3
       (CR # ''PRIVMSG #c :eve: Error: Permission denied.'' @ [CR, LF]) r], w_errno := en\<rparr>)"
proof -
  obtain f where f: "static_command_map calm_env (null_plugin :: nat server plugin_code) '':,join'' = Some f"
    by (simp add: static_command_map_def STATIC_REGISTER_USER_COMMAND_def)
  have h: "IsUserMessage (source msg_join_eve)" "param_vec msg_join_eve \<noteq> []"
    "source msg_join_eve \<noteq> owner_source"
    by (simp_all add: msg_join_eve_def IsUserMessage_iff owner_source_def)
  have v: "invoker msg_join_eve = ''eve''" "nickname server0 = ''kbot''" "irc_fd server0 = 3"
      "w_trace server0 = []" "length (param_vec msg_join_eve) = 3"
    by (simp_all add: msg_join_eve_def server0_def invoker_def)
  show ?thesis
    using privileged_commands_refuse_others [OF _ f h, of server0] f
    by (simp add: sample_params v reply_line_def reply_target_def)
qed

text \<open>What the owner's commands do: join and part are the server's operations on the channel
  named, a failed part being reported, and nick sends the rest of the line after the command.\<close>

theorem owner_commands_act:
  assumes "source m = owner_source" "length (GetParameters m) = 3"
  shows "\<exists>fj fp fn. static_command_map e P '':,join'' = Some fj \<and>
    static_command_map e P '':,part'' = Some fp \<and> static_command_map e P '':,nick'' = Some fn \<and>
    fj m s = JoinChannel e (GetParameters m ! 2) s \<and>
    fp m s = cbind (PartChannel e (GetParameters m ! 2))
      (\<lambda>ok. if ok then cret () else SendInvokerReply e m ''Error: No such channel exists.'') s \<and>
    fn m s = SetNickname e (drop (fst (param_vec m ! 2)) (line m)) s"
proof -
  have g: "ExpectArgsRange 1 1 m" using assms(2) by (simp add: ExpectArgsRange_def)
  obtain v where v: "first_arg m = Inr v" "sv_contents (line m) v = GetParameters m ! 2"
    "v = param_vec m ! 2" "param_vec m \<noteq> []" using guarded_arg [OF g] by metis
  have chk: "InvokerPermissionCheck e m k s = (Inr True, s)" for k
    using owner_check [OF assms(1) v(4)] .
  show ?thesis using g v(2,3)
    by (simp add: static_command_map_def STATIC_REGISTER_USER_COMMAND_def UserCommandForward_def BuiltinCommandJoin_def
        BuiltinCommandPart_def BuiltinCommandNick_def chk v(1) cbind_apply if_distrib [of "\<lambda>k. k _"]
        split: prod.split sum.split)
qed

theorem owner_commands_act_witness:
  "\<exists>fj. static_command_map calm_env null_plugin '':,join'' = Some fj \<and>
     fj msg_join_owner server0 = JoinChannel calm_env ''#d'' server0"
proof -
  have "source msg_join_owner = owner_source" "length (GetParameters msg_join_owner) = 3"
    by (simp_all add: msg_join_owner_def owner_source_def)
  from owner_commands_act [OF this, of calm_env null_plugin server0] show ?thesis
    by (auto simp: sample_params)
qed

text \<open>C33. How a built-in command can fail, for a message of a user, whatever its parameters: by what a
  function of the plugin raises; by calling a symbol that the loader did not find, which is a call of a
  null pointer (in a debug build the assertion in front of it may fail instead); and the list of
  \<open>help\<close> by \<open>out_of_range\<close> when a plugin has registered the empty name. The arity guard excludes any other
  failure, in particular that of \<open>at(0)\<close>.\<close>

theorem builtin_command_failures:
  assumes "static_command_map e P c = Some f" "IsUserMessage (source m)" "param_vec m \<noteq> []"
    and "f m s = (Inl err, t)"
  shows "(\<exists>a t. fst (fn_register P a t) = Inl err) \<or> (\<exists>a t. fst (fn_delete P a t) = Inl err) \<or>
    (\<exists>a m t. fst (fn_help P a m t) = Inl err) \<or>
    ((\<exists>h sym. os_dlsym e h sym = None) \<and>
      (err = UB ''call of a null pointer'' \<or> (\<not> ndebug e \<and> err \<in> {Abort ''reg_func'', Abort ''del_func''}))) \<or>
    (err = OutOfRange \<and> c = '':,help'' \<and> [] \<in> set (map_order e (dom (user_command_map s))))"
proof -
  obtain mn mx cb where f: "f = UserCommandForward e mn mx cb"
    and cb: "(mn, mx, cb) \<in> {(0, 0, BuiltinCommandHi e), (1, 1, BuiltinCommandNick e),
      (1, 1, BuiltinCommandJoin e), (1, 1, BuiltinCommandPart e), (1, 1, BuiltinCommandLoadPlugin e P),
      (1, 1, BuiltinCommandUnloadPlugin e P)} \<or> (c = '':,help'' \<and> (mn, mx, cb) = (0, 1, BuiltinCommandHelp e P))"
    using assms(1) by (auto simp: static_commands)
  have run: "fst (f m s) = Inl err" using assms(4) by simp
  have hi: "fst (BuiltinCommandHi e m s) = Inr ()"
    by (simp add: BuiltinCommandHi_def SendInvokerReply_run [OF assms(2,3)])
  have "plugin_failure e P err \<or> (err = OutOfRange \<and> c = '':,help'' \<and> [] \<in> set (map_order e (dom (user_command_map s))))"
  proof (cases "ExpectArgsRange mn mx m")
    case True
    with run cb hi show ?thesis
      using privileged_total [OF assms(2), of cb e s] load_failure [OF assms(2), of e P s err]
        unload_failure [OF assms(2), of e P s err] help_failure [OF assms(2), of e P s err]
      by (auto simp: f UserCommandForward_def)
  next
    case False
    with run show ?thesis by (simp add: f UserCommandForward_arity [OF assms(2,3)])
  qed
  then show ?thesis by (auto simp: plugin_failure_def null_call_def)
qed

text \<open>Anyone can load a library without the expected symbol.\<close>

theorem builtin_command_failures_witness:
  "\<exists>f t. static_command_map (calm_env\<lparr>os_dlsym := \<lambda>_ _. None\<rparr>) null_plugin '':,load'' = Some f \<and>
     f msg_load server0 = (Inl (UB ''call of a null pointer''), t)"
proof -
  let ?e = "calm_env\<lparr>os_dlsym := \<lambda>_ _. None\<rparr>" and ?P = "null_plugin :: nat server plugin_code"
  let ?f = "UserCommandForward ?e 1 1 (BuiltinCommandLoadPlugin ?e ?P)"
  have f: "static_command_map ?e ?P '':,load'' = Some ?f" by (simp add: static_commands)
  have h: "IsUserMessage (source msg_load)" "param_vec msg_load \<noteq> []"
    by (simp_all add: msg_load_def IsUserMessage_iff)
  obtain err t where run: "?f msg_load server0 = (Inl err, t)"
    by (simp add: UserCommandForward_def BuiltinCommandLoadPlugin_def OpenHandle_def calm_env_def
        sys_dlopen_def ExpectArgsRange_def first_arg_def GetUserCommandParameters_def msg_load_def
        PATH_MAX_def vec_at_def sv_contents_def seg_def guard_handle_def GetRegistrationFunc_def GetFunc_def
        call_ptr_def cbind_apply cseq_def ctry_def Let_def log_io_def server0_def)
  have "err = UB ''call of a null pointer''"
    using builtin_command_failures [OF f h run] by (auto simp: null_plugin_def calm_env_def)
  then show ?thesis using f run by blast
qed

text \<open>C12. Plugin handles are neither leaked nor closed twice: in every state a server without plugins
  reaches, in any order of commands of any users, with failing loads and repeated loads of the same
  name included, each handle has been opened once more than closed for every entry of
  \<open>plugins_map\<close> that holds it, provided the plugins' own code leaves handles alone.\<close>

theorem plugin_handles_balanced:
  assumes "reachable no_plugins (command_step_ok e P) s"
  shows "handle_balance h (w_trace s) = int (card {name. plugins_map s name = Some (Some h)})"
  using cmds.inv_reachable [OF assms] by (simp add: owned_with_def entry_owners_def)

lemma null_plugin_quiet: "plugin_handles_quiet null_plugin"
  by (simp add: plugin_handles_quiet_def handle_quiet_iff null_plugin_def)

theorem plugin_handles_balanced_witness:
  "\<exists>s. reachable no_plugins (command_step_ok calm_env null_plugin) s \<and>
     plugins_map (s :: nat server) ''version'' = Some (Some 1) \<and> handle_balance 1 (w_trace s) = 1"
proof -
  let ?P = "null_plugin :: nat server plugin_code"
  let ?f = "UserCommandForward calm_env 1 1 (BuiltinCommandLoadPlugin calm_env ?P)"
  let ?s = "snd (?f msg_load server0)"
  have ok: "fst (?f msg_load server0) = Inr ()" and pm: "plugins_map ?s = [''version'' \<mapsto> Some 1]"
    by (simp_all add: UserCommandForward_def BuiltinCommandLoadPlugin_def OpenHandle_def calm_env_def
        sys_dlopen_def ExpectArgsRange_def first_arg_def GetUserCommandParameters_def msg_load_def
        PATH_MAX_def vec_at_def sv_contents_def seg_def guard_handle_def insert_plugin_def null_plugin_def
        GetRegistrationFunc_def GetFunc_def call_ptr_def SendInvokerReply_run IsUserMessage_iff
        cbind_apply cseq_def ctry_def Let_def log_io_def server0_def fm_insert_def)
  have "static_command_map calm_env ?P '':,load'' = Some ?f" by (simp add: static_command_map_def STATIC_REGISTER_USER_COMMAND_def)
  then have "command_step calm_env ?P server0 ?s"
    using ok by (intro command_step.builtin [of _ _ _ ?f msg_load server0 "Inr ()" ?s])
      (auto simp: prod_eq_iff)
  moreover have "reachable no_plugins (command_step_ok calm_env ?P) server0"
    by (rule reach_init) (simp add: no_plugins_def server0_def)
  ultimately have r: "reachable no_plugins (command_step_ok calm_env ?P) ?s"
    using null_plugin_quiet by (auto simp: command_step_ok_def intro: reach_step)
  show ?thesis using plugin_handles_balanced [OF r, of 1] r pm by (auto simp: pm)
qed

end
