(* ===== verification/Plugin.thy ===== *)
theory Plugin
  imports UserCommand
begin

text \<open>
  Plugins (\<open>src/plugins/Plugin.hh\<close>, \<open>src/plugins/Version.cc\<close>): the callbacks that the macros of
  \<open>Plugin.hh\<close> export from a plugin, and the one plugin of the repository. What the server relies on
  when it loads and unloads a plugin is the locale \<open>plugin_contract\<close>, which the version plugin is
  shown to meet. The pointer argument of the callbacks is the server (or the manager and the message),
  so the assertions that it is not null are not modelled.
\<close>

section \<open>Exported callbacks\<close>

definition RegisterCallbackImpl :: "(string \<times> callback) list \<Rightarrow> (('cb, 'a) server_scheme, unit) cpp" where
  "RegisterCallbackImpl command_map = AddPluginCommands command_map"

text \<open>The loop that collects the names into \<open>sv_map\<close> is the projection.\<close>

definition DeleteCallbackImpl :: "(string \<times> callback) list \<Rightarrow> (('cb, 'a) server_scheme, unit) cpp" where
  "DeleteCallbackImpl command_map = (let sv_map = map fst command_map in RemovePluginCommands sv_map)"

definition map_at :: "('k \<rightharpoonup> 'v) \<Rightarrow> 'k \<Rightarrow> 'v result" where
  "map_at m k = (case m k of Some v \<Rightarrow> Inr v | None \<Rightarrow> Inl OutOfRange)"

definition HelpCallbackImpl ::
    "env \<Rightarrow> (string \<rightharpoonup> string) \<Rightarrow> IRCMessage \<Rightarrow> (('cb, 'a) server_scheme, unit) cpp" where
  "HelpCallbackImpl e command_help_map msg =
     cbind (cpure (rbind (GetUserCommand msg) (\<lambda>c. sv_substr c 1))) (\<lambda>k.
     cbind (cpure (map_at command_help_map k)) (\<lambda>h. SendInvokerReply e msg h))"

section \<open>The version plugin\<close>

definition Plugin_version :: "env \<Rightarrow> IRCMessage \<Rightarrow> (('cb, 'a) server_scheme, unit) cpp" where
  "Plugin_version e msg = SendInvokerReply e msg ''Beta.''"

definition version_help_map :: "string \<rightharpoonup> string" where
  "version_help_map = [''version'' \<mapsto> ''Usage: ,version'']"

text \<open>The address of the forwarder is whatever the loader chose.\<close>

definition PLUGIN_COMMAND :: "string \<Rightarrow> callback \<Rightarrow> string \<times> callback" where
  "PLUGIN_COMMAND command_str a = ('':'' @ COMMAND_PREFIX @ command_str, a)"

definition version_command_map :: "callback \<Rightarrow> (string \<times> callback) list" where
  "version_command_map a = [PLUGIN_COMMAND ''version'' a]"

definition version_plugin :: "env \<Rightarrow> callback \<Rightarrow> ('cb, 'a) server_scheme plugin_code" where
  "version_plugin e a =
     \<lparr>fn_register = \<lambda>_. RegisterCallbackImpl (version_command_map a),
      fn_delete = \<lambda>_. DeleteCallbackImpl (version_command_map a),
      fn_help = \<lambda>_. HelpCallbackImpl e version_help_map,
      fn_command = \<lambda>_. UserCommandForward e 0 0 (Plugin_version e)\<rparr>"

section \<open>The contract between server and plugin\<close>

text \<open>
  Registration and deletion return, leave handles alone, and deletion takes back what registration
  added to the command table of a server in which the plugin's names are free.
\<close>

locale plugin_contract =
  fixes P :: "('cb, 'a) server_scheme plugin_code" and names :: "string set"
  assumes register_returns: "fst (fn_register P a s) = Inr ()"
    and delete_returns: "fst (fn_delete P b s) = Inr ()"
    and handles_quiet: "plugin_handles_quiet P"
    and register_own: "k \<notin> names \<Longrightarrow> user_command_map (snd (fn_register P a s)) k = user_command_map s k"
    and delete_own: "user_command_map (snd (fn_delete P b s)) k =
      (if k \<in> names then None else user_command_map s k)"
begin

lemma register_quiet: "plugins_map (snd (fn_register P a s)) = plugins_map s"
  using handles_quiet by (simp add: plugin_handles_quiet_def handle_quiet_iff)

lemma delete_quiet: "plugins_map (snd (fn_delete P b s)) = plugins_map s"
  using handles_quiet by (simp add: plugin_handles_quiet_def handle_quiet_iff)

text \<open>A load of a new name succeeds, a following unload of that name undoes it.\<close>

lemma load_run:
  assumes "IsUserMessage (source m)" "ExpectArgsRange 1 1 m" "name = GetParameters m ! 2"
    and "OpenHandle e name s = (Inr (True, Some h), s1)"
    and "GetRegistrationFunc e (Some h) name = Some a" "plugins_map s name = None"
  shows "\<exists>t. BuiltinCommandLoadPlugin e P m s = (Inr (), t) \<and>
    plugins_map t = (plugins_map s)(name \<mapsto> Some h) \<and>
    user_command_map t = user_command_map (snd (fn_register P a s1)) \<and>
    user_command_map s1 = user_command_map s"
proof -
  obtain v where v: "first_arg m = Inr v" "sv_contents (line m) v = name" "param_vec m \<noteq> []"
    using guarded_arg [OF assms(2)] assms(3) by metis
  have s1: "plugins_map s1 = plugins_map s" "user_command_map s1 = user_command_map s"
    using assms(4) by (auto simp: OpenHandle_def sys_dlopen_def cbind_apply Let_def log_io_def
        split: option.splits if_splits)
  obtain s2 where s2: "fn_register P a s1 = (Inr (), s2)"
    using register_returns [of a s1] by (metis prod.collapse)
  with s1 register_quiet [of a s1] have pm: "plugins_map s2 name = None" "plugins_map s2 = plugins_map s"
    using assms(6) by simp_all
  show ?thesis
    using v assms(4,5) s2 pm s1(2)
    by (simp add: BuiltinCommandLoadPlugin_def Let_def guard_handle_def call_ptr_def insert_plugin_def
        SendInvokerReply_run [OF assms(1) v(3)] cbind_apply cseq_def ctry_def fm_insert_def)
qed

lemma unload_run:
  assumes "IsUserMessage (source m)" "ExpectArgsRange 1 1 m" "name = GetParameters m ! 2"
    and "plugins_map s name = Some (Some h)" "GetDeletionFunc e (Some h) name = Some b"
  shows "\<exists>t. BuiltinCommandUnloadPlugin e P m s = (Inr (), t) \<and>
    plugins_map t = (plugins_map s)(name := None) \<and>
    user_command_map t = user_command_map (snd (fn_delete P b s))"
proof -
  obtain v where v: "first_arg m = Inr v" "sv_contents (line m) v = name" "param_vec m \<noteq> []"
    using guarded_arg [OF assms(2)] assms(3) by metis
  obtain s2 where s2: "fn_delete P b s = (Inr (), s2)"
    using delete_returns [of b s] by (metis prod.collapse)
  with delete_quiet [of b s] have pm: "plugins_map s2 = plugins_map s" by simp
  show ?thesis
    using v assms(4,5) s2 pm
    by (simp add: BuiltinCommandUnloadPlugin_def Let_def call_ptr_def CloseHandle_def sys_dlclose_def
        SendInvokerReply_run [OF assms(1) v(3)] cbind_apply cseq_def fm_erase_def log_io_def)
qed

lemma load_unload:
  assumes load: "IsUserMessage (source m)" "ExpectArgsRange 1 1 m" "name = GetParameters m ! 2"
    and unload: "IsUserMessage (source m')" "ExpectArgsRange 1 1 m'" "name = GetParameters m' ! 2"
    and dl: "OpenHandle e name s = (Inr (True, Some h), s1)"
      "GetRegistrationFunc e (Some h) name = Some a" "GetDeletionFunc e (Some h) name = Some b"
    and fresh: "plugins_map s name = None" "\<forall>k \<in> names. user_command_map s k = None"
  shows "\<exists>t u. BuiltinCommandLoadPlugin e P m s = (Inr (), t) \<and>
    BuiltinCommandUnloadPlugin e P m' t = (Inr (), u) \<and>
    plugins_map t = (plugins_map s)(name \<mapsto> Some h) \<and>
    plugins_map u = plugins_map s \<and> user_command_map u = user_command_map s"
proof -
  obtain t where t: "BuiltinCommandLoadPlugin e P m s = (Inr (), t)"
    "plugins_map t = (plugins_map s)(name \<mapsto> Some h)"
    "user_command_map t = user_command_map (snd (fn_register P a s1))"
    "user_command_map s1 = user_command_map s"
    using load_run [OF load dl(1,2) fresh(1)] by blast
  then have h: "plugins_map t name = Some (Some h)" by simp
  obtain u where u: "BuiltinCommandUnloadPlugin e P m' t = (Inr (), u)"
    "plugins_map u = (plugins_map t)(name := None)"
    "user_command_map u = user_command_map (snd (fn_delete P b t))"
    using unload_run [OF unload h dl(3)] by blast
  have "plugins_map u = plugins_map s" using t(2) u(2) fresh(1) by (auto simp: fun_eq_iff)
  moreover have "user_command_map u k = user_command_map s k" for k
    using u(3) t(3,4) fresh(2) delete_own [of b t k] register_own [of k a s1] by simp
  ultimately show ?thesis using t(1,2) u(1) by blast
qed

end

section \<open>The version plugin meets the contract\<close>

lemma plugin_callbacks_quiet:
  "handle_quiet (UserCommandForward e 0 0 (Plugin_version e) m)"
  "handle_quiet (HelpCallbackImpl e hm m)"
  unfolding UserCommandForward_def Plugin_version_def HelpCallbackImpl_def
  by (simp_all add: handle_quiet_cbind handle_quiet_basic handle_quiet_reply)

lemma version_plugin_quiet: "plugin_handles_quiet (version_plugin e a)"
  by (simp add: plugin_handles_quiet_def version_plugin_def RegisterCallbackImpl_def DeleteCallbackImpl_def
      Let_def handle_quiet_ops plugin_callbacks_quiet)

lemma version_plugin_tables:
  "fn_register (version_plugin e a) b s =
     (Inr (), s\<lparr>user_command_map := fm_insert '':,version'' a (user_command_map s)\<rparr>)"
  "fn_delete (version_plugin e a) b s =
     (Inr (), s\<lparr>user_command_map := fm_erase '':,version'' (user_command_map s)\<rparr>)"
  by (simp_all add: version_plugin_def RegisterCallbackImpl_def DeleteCallbackImpl_def
      AddPluginCommands_def RemovePluginCommands_def version_command_map_def PLUGIN_COMMAND_def)

interpretation version: plugin_contract "version_plugin e a" "{'':,version''}" for e a
  by unfold_locales (auto simp: version_plugin_quiet version_plugin_tables split: option.split)

section \<open>Properties\<close>

text \<open>C34. Loading and unloading the version plugin: the first adds the handle and the command, the
  second removes both, and afterwards the two tables are what they were.\<close>

theorem version_load_unload:
  assumes "IsUserMessage (source m)" "ExpectArgsRange 1 1 m" "name = GetParameters m ! 2"
    and "IsUserMessage (source m')" "ExpectArgsRange 1 1 m'" "name = GetParameters m' ! 2"
    and "OpenHandle e name s = (Inr (True, Some h), s1)"
      "GetRegistrationFunc e (Some h) name = Some r" "GetDeletionFunc e (Some h) name = Some d"
    and "plugins_map s name = None" "user_command_map s '':,version'' = None"
  shows "\<exists>t u. BuiltinCommandLoadPlugin e (version_plugin e a) m s = (Inr (), t) \<and>
    BuiltinCommandUnloadPlugin e (version_plugin e a) m' t = (Inr (), u) \<and>
    plugins_map t = (plugins_map s)(name \<mapsto> Some h) \<and>
    user_command_map t = (user_command_map s)('':,version'' \<mapsto> a) \<and>
    plugins_map u = plugins_map s \<and> user_command_map u = user_command_map s"
proof -
  have "\<forall>k \<in> {'':,version''}. user_command_map s k = None" using assms(11) by simp
  from version.load_unload [OF assms(1-10) this] obtain t u where tu:
    "BuiltinCommandLoadPlugin e (version_plugin e a) m s = (Inr (), t)"
    "BuiltinCommandUnloadPlugin e (version_plugin e a) m' t = (Inr (), u)"
    "plugins_map t = (plugins_map s)(name \<mapsto> Some h)" "plugins_map u = plugins_map s"
    "user_command_map u = user_command_map s" by metis
  moreover from version.load_run [OF assms(1-3,7,8,10), of e a] tu(1)
  have "user_command_map t = user_command_map (snd (fn_register (version_plugin e a) r s1))"
    "user_command_map s1 = user_command_map s" by auto
  ultimately show ?thesis by (auto simp: version_plugin_tables fm_insert_def assms(11))
qed

theorem version_load_unload_witness:
  "\<exists>t u. BuiltinCommandLoadPlugin calm_env (version_plugin calm_env 9) msg_load server0 = (Inr (), t) \<and>
     BuiltinCommandUnloadPlugin calm_env (version_plugin calm_env 9) msg_unload t = (Inr (), u) \<and>
     user_command_map t '':,version'' = Some 9 \<and> plugins_map u = Map.empty"
proof -
  have h: "IsUserMessage (source msg_load)" "ExpectArgsRange 1 1 msg_load" "''version'' = GetParameters msg_load ! 2"
    "IsUserMessage (source msg_unload)" "ExpectArgsRange 1 1 msg_unload" "''version'' = GetParameters msg_unload ! 2"
    by (simp_all add: sample_params ExpectArgsRange_def IsUserMessage_iff del: length_GetParameters)
      (simp_all add: sample_msgs)
  have dl: "OpenHandle calm_env ''version'' server0 =
      (Inr (True, Some 1), snd (OpenHandle calm_env ''version'' server0))"
    "GetRegistrationFunc calm_env (Some 1) ''version'' = Some 1"
    "GetDeletionFunc calm_env (Some 1) ''version'' = Some 1"
    by (simp_all add: OpenHandle_def calm_env_def sys_dlopen_def cbind_apply PATH_MAX_def Let_def
        GetRegistrationFunc_def GetDeletionFunc_def GetFunc_def)
  have m: "plugins_map server0 = Map.empty" "user_command_map server0 = Map.empty"
    by (simp_all add: server0_def)
  show ?thesis
    using version_load_unload [OF h dl, of 9] by (auto simp: m)
qed

text \<open>The help of a plugin never answers: the key that is looked up is the text of the invoking
  command, \<open>,help\<close>, which is no key of a help map made of identifiers, so for every help map
  without a key starting with a comma the callback throws \<open>out_of_range\<close> and sends nothing.\<close>

theorem plugin_help_always_throws:
  assumes "2 \<le> length (GetParameters m)" "GetParameters m ! 1 = '':,help''"
    and "\<forall>k \<in> dom help_map. k = [] \<or> hd k \<noteq> CHR '',''"
  shows "HelpCallbackImpl e help_map m s = (Inl OutOfRange, s)"
proof -
  have "help_map '',help'' = None" using assms(3) by force
  then show ?thesis using assms(1,2)
    by (simp add: HelpCallbackImpl_def GetUserCommand_def vec_at_def sv_substr_def map_at_def)
qed

theorem plugin_help_always_throws_witness:
  "HelpCallbackImpl calm_env version_help_map msg_help_version server0 = (Inl OutOfRange, server0)"
  by (rule plugin_help_always_throws)
    (simp_all add: sample_params version_help_map_def del: length_GetParameters)

end
