(* ===== verification/Manager.thy ===== *)
theory Manager
  imports Plugin
begin

text \<open>
  Message handling (\<open>src/src/Manager.cc\<close>): the handlers of the server's messages, the visitor over
  the message variant, the tokenizer built on \<open>strtok_r\<close>, and \<open>ProcessMessageLine\<close> with its
  exception handler. The manager's state is the server's record, which extends the event manager's.
\<close>

section \<open>Handlers\<close>

definition BuiltinPong :: "env \<Rightarrow> IRCMessage \<Rightarrow> (('cb, 'a) server_scheme, unit) cpp" where
  "BuiltinPong e msg =
     cbind (cpure (rbind (vec_idx (GetParameters msg) 0) (\<lambda>p. sv_substr p 1))) (\<lambda>arg.
     cbind (cget irc_fd) (\<lambda>fd.
     cbind (SendMsg e fd (''PONG :'' @ arg)) (\<lambda>_. cret ())))"

definition BuiltinNickname :: "env \<Rightarrow> IRCMessage \<Rightarrow> (('cb, 'a) server_scheme, unit) cpp" where
  "BuiltinNickname e msg =
     cbind (cpure (GetNewNickname msg)) (\<lambda>new_nick.
     cbind (cpure (GetUser (ndebug e) msg)) (\<lambda>u. UpdateNickname (u_nickname u) new_nick))"

definition BuiltinJoin :: "IRCMessage \<Rightarrow> (('cb, 'a) server_scheme, unit) cpp" where
  "BuiltinJoin msg = cbind (cpure (GetChannel msg)) UpdateJoinChannel"

definition BuiltinPart :: "IRCMessage \<Rightarrow> (('cb, 'a) server_scheme, unit) cpp" where
  "BuiltinPart msg = cbind (cpure (GetChannel msg)) UpdatePartChannel"

text \<open>A command is looked up in the static table first, then among the plugins' commands; an
  \<open>out_of_range\<close> of either is swallowed.\<close>

definition BuiltinPrivMsg ::
    "env \<Rightarrow> ('cb, 'a) server_scheme plugin_code \<Rightarrow> IRCMessage \<Rightarrow> (('cb, 'a) server_scheme, unit) cpp" where
  "BuiltinPrivMsg e P msg =
     ctry
       (cseq (cpure (cpp_assert (ndebug e) (2 \<le> length (GetParameters msg)) ''msg.GetParameters().size() >= 2''))
       (cbind (cpure (GetUserCommand msg)) (\<lambda>c.
        case static_command_map e P c of
          Some f \<Rightarrow> f msg
        | None \<Rightarrow>
            cbind (cget user_command_map) (\<lambda>m.
            cbind (cpure (GetUserCommand msg)) (\<lambda>c.
            case m c of Some cb \<Rightarrow> fn_command P cb msg | None \<Rightarrow> cret ())))))
       (\<lambda>err. err = OutOfRange) (\<lambda>_. cret ())"

text \<open>\<open>std::visit(Visitor{m}, mv)\<close>\<close>

fun Visitor :: "env \<Rightarrow> ('cb, 'a) server_scheme plugin_code \<Rightarrow> IRCMessageVariant \<Rightarrow>
    (('cb, 'a) server_scheme, unit) cpp" where
  "Visitor e P Monostate = cret ()"
| "Visitor e P (VMessage msg) = cret ()"
| "Visitor e P (VPing msg) = BuiltinPong e msg"
| "Visitor e P (VNick msg) = BuiltinNickname e msg"
| "Visitor e P (VJoin msg) = BuiltinJoin msg"
| "Visitor e P (VPart msg) = BuiltinPart msg"
| "Visitor e P (VPrivMsg msg) = BuiltinPrivMsg e P msg"
| "Visitor e P VQuit = cret ()"

section \<open>Tokenizing\<close>

text \<open>
  \<open>strtok_r\<close> on the rest of a C string: skip delimiters, then take the token up to the next
  delimiter, which is overwritten by NUL. The result is the token and the string after it, \<open>None\<close>
  when only delimiters are left.
\<close>

definition strtok_r :: "string \<Rightarrow> string \<Rightarrow> (string \<times> string) option" where
  "strtok_r delim p =
     (let p = dropWhile (\<lambda>c. c \<in> set delim) p in
      if p = [] then None
      else Some (takeWhile (\<lambda>c. c \<notin> set delim) p, drop 1 (dropWhile (\<lambda>c. c \<notin> set delim) p)))"

lemma strtok_r_decreases: "strtok_r delim p = Some (tok, rest) \<Longrightarrow> length rest < length p"
proof -
  assume a: "strtok_r delim p = Some (tok, rest)"
  let ?q = "dropWhile (\<lambda>c. c \<in> set delim) p"
  have q: "?q \<noteq> []" and r: "rest = drop 1 (dropWhile (\<lambda>c. c \<notin> set delim) ?q)"
    using a by (auto simp: strtok_r_def Let_def split: if_splits)
  have "length (dropWhile (\<lambda>c. c \<notin> set delim) ?q) \<le> length ?q" by (rule length_dropWhile_le)
  moreover have "length ?q \<le> length p" by (rule length_dropWhile_le)
  moreover have "0 < length ?q" using q by simp
  ultimately show "length rest < length p" unfolding r length_drop by linarith
qed

function tokenize_loop :: "string \<Rightarrow> string list \<Rightarrow> string list" where
  "tokenize_loop p ret =
     (case strtok_r [CR, LF] p of
        None \<Rightarrow> ret
      | Some (tok, saveptr) \<Rightarrow> tokenize_loop saveptr (ret @ [tok]))"
  by pat_completeness auto
termination
  by (relation "measure (\<lambda>(p, ret). length p)") (auto dest: strtok_r_decreases)

declare tokenize_loop.simps [simp del]

definition TokenizeMessageMultiple :: "string \<Rightarrow> string list" where
  "TokenizeMessageMultiple msg = tokenize_loop (c_str msg) []"

section \<open>One line\<close>

definition ProcessMessageLine ::
    "env \<Rightarrow> ('cb, 'a) server_scheme plugin_code \<Rightarrow> string \<Rightarrow> (('cb, 'a) server_scheme, bool) cpp" where
  "ProcessMessageLine e P l =
     ctry
       (cbind (cpure (IRCMessage_new l DEFAULT_TYPE)) (\<lambda>msg.
        cbind (cpure (GetIRCMessageVariantFrom (ndebug e) msg)) (\<lambda>mv.
          if mv = VQuit then cret False else cseq (Visitor e P mv) (cret True))))
       (\<lambda>err. case err of RuntimeError _ \<Rightarrow> True | _ \<Rightarrow> False) (\<lambda>_. cret True)"

section \<open>Tokenizing by splitting\<close>

text \<open>The reference: the non-empty pieces between delimiters.\<close>

fun line_pieces :: "string \<Rightarrow> string \<Rightarrow> string list" where
  "line_pieces acc [] = (if acc = [] then [] else [acc])"
| "line_pieces acc (c # cs) =
     (if c \<in> {CR, LF} then (if acc = [] then line_pieces [] cs else acc # line_pieces [] cs)
      else line_pieces (acc @ [c]) cs)"

lemma line_pieces_skip: "line_pieces [] (dropWhile (\<lambda>c. c \<in> set [CR, LF]) p) = line_pieces [] p"
  by (induction p) auto

lemma line_pieces_token:
  assumes "t \<noteq> []" "\<forall>c \<in> set t. c \<notin> set [CR, LF]"
  shows "line_pieces acc (t @ r) = (case r of [] \<Rightarrow> [acc @ t] |
     c # cs \<Rightarrow> if c \<in> set [CR, LF] then (acc @ t) # line_pieces [] cs else line_pieces (acc @ t) r)"
  using assms
proof (induction t arbitrary: acc)
  case (Cons c t)
  show ?case
  proof (cases t)
    case Nil
    then show ?thesis using Cons.prems by (cases r) auto
  next
    case (Cons d t')
    then show ?thesis using Cons.IH [of "acc @ [c]"] Cons.prems by (cases r) auto
  qed
qed simp

lemma tokenize_loop_pieces: "tokenize_loop p ret = ret @ line_pieces [] p"
proof (induction p ret rule: tokenize_loop.induct)
  case (1 p ret)
  let ?q = "dropWhile (\<lambda>c. c \<in> set [CR, LF]) p"
  let ?t = "takeWhile (\<lambda>c. c \<notin> set [CR, LF]) ?q" and ?r = "dropWhile (\<lambda>c. c \<notin> set [CR, LF]) ?q"
  show ?case
  proof (cases "?q = []")
    case True
    then have "line_pieces [] p = []" using line_pieces_skip [of p] by simp
    with True show ?thesis by (subst tokenize_loop.simps) (simp add: strtok_r_def)
  next
    case False
    then have tok: "strtok_r [CR, LF] p = Some (?t, drop 1 ?r)" by (simp add: strtok_r_def Let_def)
    have "hd ?q \<notin> set [CR, LF]" using hd_dropWhile [OF False] by simp
    then have t: "?t \<noteq> []" "\<forall>c \<in> set ?t. c \<notin> set [CR, LF]"
      using False by (cases ?q; auto dest: set_takeWhileD)+
    have qtr: "?q = ?t @ ?r" by simp
    have "line_pieces [] ?q = ?t # line_pieces [] (drop 1 ?r)"
    proof (cases ?r)
      case Nil
      then show ?thesis using line_pieces_token [OF t, of "[]" ?r] qtr by (metis append_Nil drop_Nil line_pieces.simps(1) list.simps(4))
    next
      case (Cons c cs)
      then have "c \<in> set [CR, LF]" using hd_dropWhile [of "\<lambda>c. c \<notin> set [CR, LF]" ?q] by simp
      then have "line_pieces [] (?t @ c # cs) = ?t # line_pieces [] cs"
        using line_pieces_token [OF t, of "[]" "c # cs"] by (simp only: list.case append_Nil if_True)
      moreover have "?q = ?t @ c # cs" using qtr unfolding Cons .
      ultimately show ?thesis unfolding Cons by simp
    qed
    then have "line_pieces [] p = ?t # line_pieces [] (drop 1 ?r)" using line_pieces_skip by metis
    with 1 [OF tok refl] tok show ?thesis by (subst tokenize_loop.simps) simp
  qed
qed

definition wf_line :: "string \<Rightarrow> bool" where
  "wf_line l \<longleftrightarrow> l \<noteq> [] \<and> CR \<notin> set l \<and> LF \<notin> set l \<and> NUL \<notin> set l"

lemma line_pieces_lines:
  "list_all wf_line ls \<Longrightarrow> line_pieces [] (concat (map (\<lambda>l. l @ [CR, LF]) ls)) = ls"
proof (induction ls)
  case (Cons l ls)
  then have "l \<noteq> []" "\<forall>c \<in> set l. c \<notin> set [CR, LF]" by (auto simp: wf_line_def)
  from line_pieces_token [OF this, of "[]" "[CR, LF] @ concat (map (\<lambda>l. l @ [CR, LF]) ls)"] Cons
  show ?case by simp
qed simp

lemma line_pieces_wf:
  "NUL \<notin> set s \<Longrightarrow> acc = [] \<or> wf_line acc \<Longrightarrow> list_all wf_line (line_pieces acc s)"
  by (induction acc s rule: line_pieces.induct) (auto simp: wf_line_def)

lemma TokenizeMessageMultiple_pieces: "TokenizeMessageMultiple msg = line_pieces [] (c_str msg)"
  by (simp add: TokenizeMessageMultiple_def tokenize_loop_pieces)

section \<open>Which failures leave a handler\<close>

text \<open>Failures of plugin code, of its commands too.\<close>

definition plugin_raises :: "env \<Rightarrow> 's plugin_code \<Rightarrow> cpp_error \<Rightarrow> bool" where
  "plugin_raises e P err \<longleftrightarrow> plugin_failure e P err \<or> (\<exists>a m t. fst (fn_command P a m t) = Inl err)"

fun is_runtime_error :: "cpp_error \<Rightarrow> bool" where
  "is_runtime_error (RuntimeError w) = True"
| "is_runtime_error _ = False"

definition command_error :: "env \<Rightarrow> 's plugin_code \<Rightarrow> cpp_error \<Rightarrow> bool" where
  "command_error e P err \<longleftrightarrow> is_runtime_error err \<or> err = OutOfRange \<or> plugin_raises e P err"

lemma raises_GetUser: "GetUser nd m = Inl err \<Longrightarrow> is_runtime_error err"
  by (auto simp: GetUser_def ParseSourceUser_spec split: option.splits)

lemma raises_accessors:
  "GetChannel m = Inl err \<Longrightarrow> err = OutOfRange" "first_arg m = Inl err \<Longrightarrow> err = OutOfRange"
  "GetUserCommand m = Inl err \<Longrightarrow> err = OutOfRange"
  "GetUserCommandParameters m = Inl err \<Longrightarrow> err = OutOfRange"
  "GetNewNickname m = Inl err \<Longrightarrow> err = OutOfRange" "sv_substr w n = Inl err \<Longrightarrow> err = OutOfRange"
  by (auto simp: GetChannel_def first_arg_def GetUserCommand_def GetUserCommandParameters_def
      GetNewNickname_def vec_at_def sv_substr_def split: if_splits)

lemma command_errorI:
  "GetUser nd m = Inl err \<Longrightarrow> command_error e P err" "GetChannel m = Inl err \<Longrightarrow> command_error e P err"
  "first_arg m = Inl err \<Longrightarrow> command_error e P err" "GetUserCommand m = Inl err \<Longrightarrow> command_error e P err"
  "GetUserCommandParameters m = Inl err \<Longrightarrow> command_error e P err"
  "plugin_list_loop ks acc = Inl err \<Longrightarrow> command_error e P err"
  by (simp_all add: command_error_def raises_GetUser raises_accessors plugin_list_loop_failure)

lemma raises_ops:
  "raises E (SendChannel e c msg)" "raises E (JoinChannel e c)" "raises E (PartChannel e c)"
  "raises E (SetNickname e d)" "raises E (CloseHandle h)" "raises E (insert_plugin name h)"
  "raises E (OpenHandle e name)" "raises E (UpdateNickname old new)"
  "raises E (UpdateJoinChannel c)" "raises E (UpdatePartChannel c)"
proof -
  show "raises E (JoinChannel e c)" by (rule raises_total) (use JoinChannel_run in blast)
  show "raises E (PartChannel e c)" by (rule raises_total) (use PartChannel_run in blast)
  show "raises E (CloseHandle h)" by (rule raises_total) (use CloseHandle_run in blast)
  show "raises E (insert_plugin name h)" by (rule raises_total) (use insert_plugin_run in blast)
  show "raises E (OpenHandle e name)" by (rule raises_total) (use OpenHandle_run in blast)
qed (auto simp: raises_def SendChannel_run SetNickname_run UpdateNickname_def UpdateJoinChannel_def
      UpdatePartChannel_def cbind_apply split: option.splits)

lemma raises_reply: "raises (command_error e P) (SendInvokerReply e' m reply)"
  unfolding SendInvokerReply_def GetNickname_def Let_def
  by (intro raises_cbind raises_basic raises_ops raises_cpure)
    (auto intro: command_errorI)

lemma raises_permission: "raises (command_error e P) (InvokerPermissionCheck e' m k)"
  unfolding InvokerPermissionCheck_def
  by (auto intro!: raises_cbind raises_cseq raises_basic raises_cpure raises_reply
      intro: command_errorI)

lemma raises_call_ptr:
  "(\<And>a. raises E (f a)) \<Longrightarrow> (p = None \<Longrightarrow> E (UB ''call of a null pointer'')) \<Longrightarrow> raises E (call_ptr f p)"
  by (cases p) (auto simp: call_ptr_def raises_def)

lemma raises_plugin_fns:
  "raises (command_error e P) (fn_register P a)" "raises (command_error e P) (fn_delete P a)"
  "raises (command_error e P) (fn_help P a m)" "raises (command_error e P) (fn_command P a m)"
  by (auto simp: raises_def command_error_def plugin_raises_def plugin_failure_def)

lemma missing_symbol_error:
  "GetFunc e h symbol = None \<Longrightarrow> command_error e P (UB ''call of a null pointer'')"
  "GetFunc e h symbol = None \<Longrightarrow> \<not> ndebug e \<Longrightarrow> w \<in> {''reg_func'', ''del_func''} \<Longrightarrow> command_error e P (Abort w)"
  by (auto simp: command_error_def plugin_raises_def plugin_failure_def null_call_def GetFunc_def)

lemma raises_guard_handle: "raises E m \<Longrightarrow> raises E (guard_handle h m)"
  using guard_handle_failure unfolding raises_def by blast

lemma raises_assert: "(\<not> nd \<Longrightarrow> \<not> b \<Longrightarrow> E (Abort w)) \<Longrightarrow> raises E (cpure (cpp_assert nd b w))"
  by (simp add: raises_def cpp_assert_def)

lemma raises_load: "raises (command_error e P) (BuiltinCommandLoadPlugin e P m)"
proof -
  have "raises (command_error e P) (let reg_func = GetRegistrationFunc e u name in
      cseq (cpure (cpp_assert (ndebug e) (reg_func \<noteq> None) ''reg_func'')) (call_ptr (fn_register P) reg_func))"
    for u name unfolding Let_def
    by (intro raises_cseq raises_assert raises_call_ptr raises_plugin_fns)
      (auto simp: GetRegistrationFunc_def intro: missing_symbol_error)
  then show ?thesis unfolding BuiltinCommandLoadPlugin_def Let_def [of "sv_contents _ _"]
    by (auto intro!: raises_cbind raises_cseq raises_cpure raises_ops raises_reply raises_guard_handle
        intro: command_errorI)
qed

lemma raises_unload: "raises (command_error e P) (BuiltinCommandUnloadPlugin e P m)"
proof -
  have "command_error e P err"
    if "cpp_assert (ndebug e) (GetDeletionFunc e h name \<noteq> None) ''del_func'' = Inl err" for h name err
    using that by (auto simp: cpp_assert_def GetDeletionFunc_def intro: missing_symbol_error split: if_splits)
  moreover have "raises (command_error e P) (call_ptr (fn_delete P) (GetDeletionFunc e h name))" for h name
    by (intro raises_call_ptr raises_plugin_fns) (auto simp: GetDeletionFunc_def intro: missing_symbol_error)
  ultimately show ?thesis unfolding BuiltinCommandUnloadPlugin_def Let_def
    by (auto intro!: raises_cbind raises_cpure raises_ops raises_reply raises_basic raises_cseq
        intro: command_errorI split: option.split simp del: not_None_eq)
qed

lemma raises_help: "raises (command_error e P) (BuiltinCommandHelp e P m)"
proof -
  have call: "raises (command_error e P) (call_ptr (\<lambda>a. fn_help P a m) (GetHelpFunc e h name))" for h name
    by (intro raises_call_ptr raises_plugin_fns) (auto simp: GetHelpFunc_def intro: missing_symbol_error)
  show ?thesis unfolding BuiltinCommandHelp_def Let_def
    by (auto intro!: raises_cbind raises_cseq raises_cpure raises_reply raises_basic call
        simp: vec_idx_def intro: command_errorI split: option.split)
qed

lemma raises_simple_builtins:
  "raises (command_error e P) (BuiltinCommandHi e m)" "raises (command_error e P) (BuiltinCommandNick e m)"
  "raises (command_error e P) (BuiltinCommandJoin e m)" "raises (command_error e P) (BuiltinCommandPart e m)"
  unfolding BuiltinCommandHi_def BuiltinCommandNick_def BuiltinCommandJoin_def BuiltinCommandPart_def
  by (auto intro!: raises_cbind raises_permission raises_reply raises_ops raises_basic raises_cpure
      intro: command_errorI)

lemma raises_static_command:
  "static_command_map e P c = Some f \<Longrightarrow> raises (command_error e P) (f m)"
  unfolding static_commands
  by (auto simp: UserCommandForward_def raises_simple_builtins raises_load raises_unload raises_help
      raises_reply)

text \<open>What may leave \<open>BuiltinPrivMsg\<close>, and then the handler of the whole line.\<close>

lemma raises_privmsg:
  assumes "ndebug e \<or> 2 \<le> length (GetParameters m)"
  shows "raises (\<lambda>err. is_runtime_error err \<or> (plugin_raises e P err \<and> err \<noteq> OutOfRange))
    (BuiltinPrivMsg e P m)"
proof -
  have look: "raises (command_error e P) (case static_command_map e P c of
          Some f \<Rightarrow> f m
        | None \<Rightarrow>
            cbind (cget user_command_map) (\<lambda>mp.
            cbind (cpure (GetUserCommand m)) (\<lambda>c.
            case mp c of Some cb \<Rightarrow> fn_command P cb m | None \<Rightarrow> cret ())))" for c
  proof (cases "static_command_map e P c")
    case None
    then show ?thesis
      by (auto intro!: raises_cbind raises_cpure raises_basic raises_plugin_fns intro: command_errorI
          split: option.split)
  qed (simp add: raises_static_command)
  have "raises (command_error e P)
      (cseq (cpure (cpp_assert (ndebug e) (2 \<le> length (GetParameters m)) ''msg.GetParameters().size() >= 2''))
       (cbind (cpure (GetUserCommand m)) (\<lambda>c.
        case static_command_map e P c of
          Some f \<Rightarrow> f m
        | None \<Rightarrow>
            cbind (cget user_command_map) (\<lambda>mp.
            cbind (cpure (GetUserCommand m)) (\<lambda>c.
            case mp c of Some cb \<Rightarrow> fn_command P cb m | None \<Rightarrow> cret ())))))"
    by (intro raises_cseq raises_cbind look)
      (use assms in \<open>auto intro!: raises_cpure intro: command_errorI simp: cpp_assert_def\<close>)
  then show ?thesis unfolding BuiltinPrivMsg_def
    by (rule raises_ctry) (auto simp: raises_basic command_error_def)
qed

lemma raises_other_handlers:
  assumes "param_vec m \<noteq> []" "\<forall>p \<in> set (GetParameters m). p \<noteq> []"
  shows "raises is_runtime_error (BuiltinNickname e m)" "raises E (BuiltinPong e m)"
    "raises E (BuiltinJoin m)" "raises E (BuiltinPart m)"
proof -
  have "GetParameters m ! 0 \<in> set (GetParameters m)" using assms(1) by (simp add: GetParameters_def)
  then have sub: "sv_substr (GetParameters m ! 0) 1 = Inr (drop 1 (GetParameters m ! 0))"
    using assms(2) by (auto simp: sv_substr_def Suc_le_eq)
  show "raises is_runtime_error (BuiltinNickname e m)"
    using sub assms unfolding BuiltinNickname_def
    by (auto intro!: raises_cbind raises_cpure raises_ops simp: GetNewNickname_def vec_at_def
        dest: raises_GetUser)
  show "raises E (BuiltinPong e m)"
    using sub assms
    by (auto simp: raises_def BuiltinPong_def vec_idx_def SendMsg_def sys_send_def cbind_apply
        split: prod.splits)
  show "raises E (BuiltinJoin m)" "raises E (BuiltinPart m)"
    using GetChannel_hd [OF assms(1)] unfolding BuiltinJoin_def BuiltinPart_def
    by (auto intro!: raises_cbind raises_cpure raises_ops)
qed

section \<open>What a line does\<close>

text \<open>The visit of an accepted message whose variant exists.\<close>

lemma ProcessMessageLine_rejected:
  "IRCMessage_new l DEFAULT_TYPE = Inl err \<Longrightarrow> ProcessMessageLine e P l s = (Inr True, s)"
  using IRCMessage_new_error [of l DEFAULT_TYPE err] by (auto simp: ProcessMessageLine_def ctry_def)

lemma ProcessMessageLine_accepted:
  assumes "IRCMessage_new l DEFAULT_TYPE = Inr m" "GetIRCMessageVariantFrom (ndebug e) m = Inr mv"
  shows "ProcessMessageLine e P l s =
    (if mv = VQuit then (Inr False, s)
     else case Visitor e P mv s of
       (Inl err, t) \<Rightarrow> (if is_runtime_error err then (Inr True, t) else (Inl err, t))
     | (Inr _, t) \<Rightarrow> (Inr True, t))"
proof -
  obtain r t where "Visitor e P mv s = (r, t)" by fastforce
  moreover have "(case err of RuntimeError w \<Rightarrow> True | _ \<Rightarrow> False) = is_runtime_error err" for err
    by (cases err) simp_all
  ultimately show ?thesis using assms by (cases r) (simp_all add: ProcessMessageLine_def ctry_def)
qed

lemma accepted_params:
  assumes "IRCMessage_new l t = Inr m"
  shows "param_vec m \<noteq> []" "\<forall>p \<in> set (GetParameters m). p \<noteq> []" "line m = l"
  using IRCMessage_new_InrD [OF assms] spec_message_params [of l t "msg_observe m"]
  by (auto simp: msg_observe_def GetParameters_def)

lemma accepted_no_nul:
  assumes "IRCMessage_new l t = Inr m"
  shows "set (command m) \<subseteq> set l"
proof -
  have "spec_message l t = Inr (msg_observe m)" using IRCMessage_new_InrD [OF assms] by blast
  then show ?thesis using spec_message_parts [of l t "msg_observe m"] by (simp add: msg_observe_def)
qed

lemma spec_variant_cases:
  "spec_variant m \<in> {VPing m, VNick m, VJoin m, VPart m, VPrivMsg m, VQuit, VMessage m}"
  by (simp add: spec_variant_def split: IRCMessageType.split)

definition debug_safe :: "IRCMessage \<Rightarrow> bool" where
  "debug_safe m \<longleftrightarrow> (needs_user_source (command_type (command m)) \<longrightarrow> IsUserMessage (source m)) \<and>
     (command_type (command m) = PRIVMSG \<longrightarrow> 2 \<le> length (GetParameters m))"

lemma raises_visitor:
  assumes "IRCMessage_new l DEFAULT_TYPE = Inr m" "GetIRCMessageVariantFrom (ndebug e) m = Inr mv"
    "ndebug e \<or> debug_safe m"
  shows "raises (\<lambda>err. is_runtime_error err \<or> (plugin_raises e P err \<and> err \<noteq> OutOfRange)) (Visitor e P mv)"
proof -
  let ?m = "m\<lparr>message_type := command_type (command m)\<rparr>"
  have mv: "mv = spec_variant ?m"
    using GetIRCMessageVariantFrom_spec [OF accepted_params(1) [OF assms(1)], of "ndebug e"] assms(2)
    by (auto split: if_splits)
  have p: "param_vec ?m \<noteq> []" "\<forall>p \<in> set (GetParameters ?m). p \<noteq> []"
    using accepted_params [OF assms(1)] by simp_all
  have pm: "ndebug e \<or> 2 \<le> length (GetParameters ?m)" if "mv = VPrivMsg ?m"
    using assms(3) that mv by (auto simp: debug_safe_def spec_variant_def split: IRCMessageType.splits if_splits)
  have weaken: "raises E k \<Longrightarrow> (\<And>err. E err \<Longrightarrow> E' err) \<Longrightarrow> raises E' k"
    for E E' and k :: "(('a, 'b) server_scheme, unit) cpp" by (auto simp: raises_def)
  have nick: "raises (\<lambda>err. is_runtime_error err \<or> (plugin_raises e P err \<and> err \<noteq> OutOfRange))
      (BuiltinNickname e ?m :: (('a, 'b) server_scheme, unit) cpp)"
    by (rule weaken [OF raises_other_handlers(1) [OF p]]) simp
  show ?thesis
    using spec_variant_cases [of ?m] mv pm raises_other_handlers(2-4) [OF p] nick
    by (auto simp: raises_basic intro!: raises_privmsg)
qed

lemma ProcessMessageLine_safe_errors:
  assumes "\<And>m. IRCMessage_new l DEFAULT_TYPE = Inr m \<Longrightarrow> ndebug e \<or> debug_safe m"
    and "ProcessMessageLine e P l s = (Inl err, t)"
  shows "plugin_raises e P err \<and> err \<noteq> OutOfRange \<and> \<not> is_runtime_error err"
proof (cases "IRCMessage_new l DEFAULT_TYPE")
  case (Inl x)
  then show ?thesis using assms(2) ProcessMessageLine_rejected [OF Inl, of e P s] by simp
next
  case (Inr m)
  then have safe: "ndebug e \<or> debug_safe m" using assms(1) by blast
  then obtain mv where mv: "GetIRCMessageVariantFrom (ndebug e) m = Inr mv"
    using GetIRCMessageVariantFrom_spec [OF accepted_params(1) [OF Inr], of "ndebug e"]
    by (auto simp: debug_safe_def)
  obtain r u where v: "Visitor e P mv s = (r, u)" by fastforce
  have "r = Inl err" "\<not> is_runtime_error err"
    using assms(2) ProcessMessageLine_accepted [OF Inr mv, of P s] v
    by (cases r; auto split: if_splits)+
  then show ?thesis using raises_visitor [OF Inr mv safe, of P] v unfolding raises_def
    by (metis fst_conv)
qed

text \<open>In a debug build a line that is not safe does nothing but fail an assertion, or is a request to stop.\<close>

lemma ProcessMessageLine_unsafe:
  assumes "\<not> ndebug e" "IRCMessage_new l DEFAULT_TYPE = Inr m" "\<not> debug_safe m"
  shows "\<exists>w. ProcessMessageLine e P l s = (Inl (Abort w), s) \<or> ProcessMessageLine e P l s = (Inr False, s)"
proof (cases "GetIRCMessageVariantFrom (ndebug e) m")
  case (Inl err)
  then obtain w where "err = Abort w"
    using GetIRCMessageVariantFrom_spec [OF accepted_params(1) [OF assms(2)], of "ndebug e"] by (auto split: if_splits)
  then show ?thesis using Inl assms(2) by (simp add: ProcessMessageLine_def ctry_def)
next
  case (Inr mv)
  let ?m = "m\<lparr>message_type := command_type (command m)\<rparr>"
  have mv: "mv = spec_variant ?m" "needs_user_source (command_type (command m)) \<longrightarrow> IsUserMessage (source m)"
    using GetIRCMessageVariantFrom_spec [OF accepted_params(1) [OF assms(2)], of "ndebug e"] Inr assms(1)
    by (auto split: if_splits)
  then have p: "command_type (command m) = PRIVMSG" "\<not> 2 \<le> length (GetParameters m)"
    using assms(3) by (auto simp: debug_safe_def)
  then have "mv = VQuit \<or> mv = VPrivMsg ?m" using mv(1) by (auto simp: spec_variant_def)
  moreover have "\<exists>w. BuiltinPrivMsg e P ?m s = (Inl (Abort w), s)"
    using assms(1) p(2) by (simp add: BuiltinPrivMsg_def cpp_assert_def)
  ultimately show ?thesis using ProcessMessageLine_accepted [OF assms(2) Inr, of P s] by auto
qed

lemma ProcessMessageLine_errors:
  assumes "ProcessMessageLine e P l s = (Inl err, t)"
  shows "(plugin_raises e P err \<and> err \<noteq> OutOfRange \<and> \<not> is_runtime_error err) \<or>
    (\<not> ndebug e \<and> (\<exists>w. err = Abort w) \<and> (\<exists>m. IRCMessage_new l DEFAULT_TYPE = Inr m \<and> \<not> debug_safe m))"
proof (cases "\<exists>m. IRCMessage_new l DEFAULT_TYPE = Inr m \<and> \<not> ndebug e \<and> \<not> debug_safe m")
  case True
  then show ?thesis using ProcessMessageLine_unsafe [of e l _ P s] assms by fastforce
next
  case False
  then show ?thesis using ProcessMessageLine_safe_errors [OF _ assms] by blast
qed

lemma version_plugin_raises:
  assumes "plugin_raises e (version_plugin e a) err"
  shows "is_runtime_error err \<or> err = OutOfRange \<or> null_call e err"
proof -
  have reply: "is_runtime_error err \<or> err = OutOfRange"
    if "fst (SendInvokerReply e m reply t) = Inl err" for m reply and t :: "('a, 'b) server_scheme"
    using that raises_GetUser raises_accessors(1)
    by (auto simp: SendInvokerReply_def GetNickname_def SendChannel_run cbind_apply Let_def
        split: sum.splits)
  have "is_runtime_error err \<or> err = OutOfRange"
    if "fst (HelpCallbackImpl e hm m t) = Inl err" for hm m and t :: "('a, 'b) server_scheme"
    using that reply raises_accessors
    by (auto simp: HelpCallbackImpl_def map_at_def cbind_apply rbind_def split: sum.splits option.splits)
  moreover have "is_runtime_error err \<or> err = OutOfRange"
    if "fst (UserCommandForward e 0 0 (Plugin_version e) m t) = Inl err" for m and t :: "('a, 'b) server_scheme"
    using that reply by (auto simp: UserCommandForward_def Plugin_version_def split: if_splits)
  ultimately show ?thesis
    using assms [unfolded plugin_raises_def plugin_failure_def]
    by (auto simp: version_plugin_tables) (auto simp: version_plugin_def)
qed

text \<open>With the version plugin all that is left is the call of a missing symbol, and in a debug build the
  assertions.\<close>

definition line_failure :: "env \<Rightarrow> cpp_error \<Rightarrow> bool" where
  "line_failure e err \<longleftrightarrow> null_call e err \<or> (\<not> ndebug e \<and> (\<exists>w. err = Abort w))"

lemma line_failure_release: "ndebug e \<Longrightarrow> line_failure e err \<longleftrightarrow> err = UB ''call of a null pointer'' \<and> (\<exists>h sym. os_dlsym e h sym = None)"
  by (auto simp: line_failure_def null_call_def)

lemma line_failure_kinds: "line_failure e err \<Longrightarrow> \<not> unwinds err"
  by (auto simp: line_failure_def null_call_def)

lemma ProcessMessageLine_version:
  "raises (line_failure e) (ProcessMessageLine e (version_plugin e a) l)"
  unfolding raises_def
proof (intro allI impI)
  fix s :: "('a, 'b) server_scheme" and err
  assume "fst (ProcessMessageLine e (version_plugin e a) l s) = Inl err"
  then have "ProcessMessageLine e (version_plugin e a) l s =
      (Inl err, snd (ProcessMessageLine e (version_plugin e a) l s))" by (metis prod.collapse)
  from ProcessMessageLine_errors [OF this] show "line_failure e err"
    using version_plugin_raises [of e a err] by (auto simp: line_failure_def)
qed

lemma ProcessMessageLine_returns:
  assumes "ndebug e" "\<And>h symbol. os_dlsym e h symbol \<noteq> None"
  shows "\<exists>b t. ProcessMessageLine e (version_plugin e a) l s = (Inr b, t)"
proof (cases "fst (ProcessMessageLine e (version_plugin e a) l s)")
  case (Inl err)
  then have "line_failure e err" using ProcessMessageLine_version [of e a l] by (auto simp: raises_def)
  then show ?thesis using assms by (simp add: line_failure_release)
next
  case (Inr b)
  then show ?thesis by (metis prod.collapse)
qed

lemma accepted_variant:
  assumes "IRCMessage_new l DEFAULT_TYPE = Inr m" "NUL \<notin> set (command m)"
    and "ndebug e \<or> \<not> needs_user_source (spec_command_type (command m)) \<or> IsUserMessage (source m)"
  shows "GetIRCMessageVariantFrom (ndebug e) m =
    Inr (spec_variant (m\<lparr>message_type := spec_command_type (command m)\<rparr>))"
  using GetIRCMessageVariantFrom_spec [OF accepted_params(1) [OF assms(1)], of "ndebug e"] assms(2,3)
  by (auto simp: command_type_spec)

lemma first_param_tail:
  assumes "IRCMessage_new l DEFAULT_TYPE = Inr m"
  shows "sv_substr (GetParameters m ! 0) 1 = Inr (drop 1 (GetParameters m ! 0))"
proof -
  have "GetParameters m ! 0 \<in> set (GetParameters m)"
    using accepted_params(1) [OF assms] by (simp add: GetParameters_def)
  then show ?thesis using accepted_params(2) [OF assms] by (auto simp: sv_substr_def Suc_le_eq)
qed

definition stop_line :: "string \<Rightarrow> bool" where
  "stop_line l \<longleftrightarrow>
     (case IRCMessage_new l DEFAULT_TYPE of
        Inl _ \<Rightarrow> False
      | Inr m \<Rightarrow> command m = ''KILL'' \<or> command m = ''QUIT'' \<or>
          (command m = ''PRIVMSG'' \<and> quit_requested m))"

lemma ProcessMessageLine_stop_line:
  assumes "ndebug e" "NUL \<notin> set l"
  shows "fst (ProcessMessageLine e P l s) = Inr False \<longleftrightarrow> stop_line l"
proof (cases "IRCMessage_new l DEFAULT_TYPE")
  case (Inl err)
  then show ?thesis by (simp add: ProcessMessageLine_rejected stop_line_def)
next
  case (Inr m)
  have nul: "NUL \<notin> set (command m)" using accepted_no_nul [OF Inr] assms(2) by blast
  let ?mv = "spec_variant (m\<lparr>message_type := spec_command_type (command m)\<rparr>)"
  have mv: "GetIRCMessageVariantFrom (ndebug e) m = Inr ?mv"
    using accepted_variant [OF Inr nul] assms(1) by blast
  have "fst (ProcessMessageLine e P l s) = Inr False \<longleftrightarrow> ?mv = VQuit"
    using ProcessMessageLine_accepted [OF Inr mv, of P s]
    by (auto split: prod.splits sum.splits if_splits)
  also have "\<dots> \<longleftrightarrow> command m = ''KILL'' \<or> command m = ''QUIT'' \<or>
      (command m = ''PRIVMSG'' \<and> quit_requested m)"
    by (auto simp: spec_variant_def spec_command_type_def quit_requested_def)
  finally show ?thesis using Inr by (simp add: stop_line_def)
qed

section \<open>Parts of the state that no message reaches\<close>

text \<open>
  An observation of the state that the primitive operations and the plugin's code leave alone is
  left alone by every handler.
\<close>

locale untouched =
  fixes F :: "('cb, 'a) server_scheme \<Rightarrow> 'f" and P :: "('cb, 'a) server_scheme plugin_code"
  assumes send: "leaves F (SendMsg e fd d)"
    and open_handle: "leaves F (OpenHandle e name)"
    and close_handle: "leaves F (CloseHandle h)"
    and set_plugins: "leaves F (cmod (\<lambda>s. s\<lparr>plugins_map := f s\<rparr>))"
    and set_channels: "leaves F (cmod (\<lambda>s. s\<lparr>chan_map := g s\<rparr>))"
    and set_nickname: "leaves F (cmod (\<lambda>s. s\<lparr>nickname := n s\<rparr>))"
    and plugin: "leaves F (fn_register P a)" "leaves F (fn_delete P a)" "leaves F (fn_help P a m)"
      "leaves F (fn_command P a m)"
begin

lemmas prims = leaves_basic send open_handle close_handle set_plugins set_channels
  set_nickname [of "\<lambda>s. n" for n] plugin

lemma server_ops:
  "leaves F (SendChannel e c msg)" "leaves F (JoinChannel e c)" "leaves F (PartChannel e c)"
  "leaves F (SetNickname e d)" "leaves F (UpdateNickname old new)"
  "leaves F (UpdateJoinChannel c)" "leaves F (UpdatePartChannel c)" "leaves F (insert_plugin name h)"
  unfolding SendChannel_def JoinChannel_def PartChannel_def SetNickname_def UpdateNickname_def
    UpdateJoinChannel_def UpdatePartChannel_def insert_plugin_def PrivMsg_def IRC_Join_def IRC_Part_def
    IRC_Nick_def
  by (auto intro!: leaves_cbind leaves_cseq prims split: option.split)

lemma replies: "leaves F (SendInvokerReply e m reply)" "leaves F (InvokerPermissionCheck e m k)"
proof -
  show r: "leaves F (SendInvokerReply e m reply)" for reply
    unfolding SendInvokerReply_def GetNickname_def Let_def by (intro leaves_cbind prims server_ops)
  show "leaves F (InvokerPermissionCheck e m k)"
    unfolding InvokerPermissionCheck_def by (auto intro!: leaves_cbind leaves_cseq prims r)
qed

lemma plugin_calls: "leaves F (call_ptr (fn_register P) p)" "leaves F (call_ptr (fn_delete P) p)"
  "leaves F (call_ptr (\<lambda>a. fn_help P a m) p)"
  by (cases p; simp add: call_ptr_def prims)+

lemma guarded: "leaves F k \<Longrightarrow> leaves F (guard_handle h k)"
  unfolding guard_handle_def by (intro leaves_ctry leaves_cseq prims)

lemma builtins:
  "leaves F (BuiltinCommandHi e m)" "leaves F (BuiltinCommandNick e m)" "leaves F (BuiltinCommandJoin e m)"
  "leaves F (BuiltinCommandPart e m)" "leaves F (BuiltinCommandLoadPlugin e P m)"
  "leaves F (BuiltinCommandUnloadPlugin e P m)" "leaves F (BuiltinCommandHelp e P m)"
  unfolding BuiltinCommandHi_def BuiltinCommandNick_def BuiltinCommandJoin_def BuiltinCommandPart_def
    BuiltinCommandLoadPlugin_def BuiltinCommandUnloadPlugin_def BuiltinCommandHelp_def Let_def
  by (auto intro!: leaves_cbind leaves_cseq prims server_ops replies guarded plugin_calls split: option.split)

lemma static_command: "static_command_map e P c = Some f \<Longrightarrow> leaves F (f m)"
  by (auto simp: static_commands UserCommandForward_def intro!: builtins replies)

lemma privmsg: "leaves F (BuiltinPrivMsg e P m)"
proof -
  have "leaves F (case static_command_map e P c of
          Some f \<Rightarrow> f m
        | None \<Rightarrow>
            cbind (cget user_command_map) (\<lambda>mp.
            cbind (cpure (GetUserCommand m)) (\<lambda>c.
            case mp c of Some cb \<Rightarrow> fn_command P cb m | None \<Rightarrow> cret ())))" for c
    by (cases "static_command_map e P c")
      (auto intro!: leaves_cbind prims dest: static_command split: option.split)
  then show ?thesis unfolding BuiltinPrivMsg_def
    by (intro leaves_ctry leaves_cseq leaves_cbind prims)
qed

lemma visitor: "leaves F (Visitor e P mv)"
  by (cases mv) (auto simp: BuiltinPong_def BuiltinNickname_def BuiltinJoin_def BuiltinPart_def
      intro!: leaves_cbind prims server_ops privmsg)

lemma process_line: "leaves F (ProcessMessageLine e P l)"
  unfolding ProcessMessageLine_def by (auto intro!: leaves_ctry leaves_cbind leaves_cseq prims visitor)

end

text \<open>With the version plugin it is enough to look at the system calls of the handlers and at the fields
  they assign.\<close>

locale io_untouched =
  fixes F :: "('cb, 'a) server_scheme \<Rightarrow> 'f"
  assumes io: "leaves F (sys_send e fd d)" "leaves F (sys_dlopen e path)" "leaves F (sys_dlclose k)"
    and tables: "F (s\<lparr>plugins_map := pm\<rparr>) = F s" "F (s\<lparr>chan_map := cm\<rparr>) = F s" "F (s\<lparr>nickname := n\<rparr>) = F s"
      "F (s\<lparr>user_command_map := um\<rparr>) = F s"
begin

lemma version_reply: "leaves F (SendInvokerReply e m reply)"
  unfolding SendInvokerReply_def GetNickname_def SendChannel_def PrivMsg_def SendMsg_def Let_def
  by (intro leaves_cbind leaves_basic io)

lemma version_calls:
  "leaves F (fn_register (version_plugin e a) b)" "leaves F (fn_delete (version_plugin e a) b)"
  "leaves F (fn_help (version_plugin e a) b m)" "leaves F (fn_command (version_plugin e a) b m)"
proof -
  show "leaves F (fn_register (version_plugin e a) b)" "leaves F (fn_delete (version_plugin e a) b)"
    by (simp_all add: leaves_def version_plugin_tables tables)
  show "leaves F (fn_help (version_plugin e a) b m)"
    unfolding version_plugin_def HelpCallbackImpl_def plugin_code.simps
    by (intro leaves_cbind leaves_basic version_reply)
  show "leaves F (fn_command (version_plugin e a) b m)"
    unfolding version_plugin_def UserCommandForward_def Plugin_version_def plugin_code.simps
    by (simp add: version_reply)
qed

lemma handle_calls: "leaves F (OpenHandle e name)" "leaves F (CloseHandle h)"
  unfolding OpenHandle_def CloseHandle_def Let_def
  by (auto intro!: leaves_cbind leaves_basic io split: option.split)

end

sublocale io_untouched \<subseteq> untouched F "version_plugin e a" for e a
  by unfold_locales (simp_all add: version_calls handle_calls SendMsg_def io, simp_all add: leaves_def tables)

section \<open>The bot as its server sees it\<close>

text \<open>
  The abstract state is the nickname and the channel table; the abstract effect of a line is
  written over the reference parser. \<open>sent\<close> tells whether handing a message to \<open>send\<close> succeeds.
\<close>

type_synonym bot = "string \<times> (string \<rightharpoonup> ChannelState)"

definition abs_bot :: "('cb, 'a) server_scheme \<Rightarrow> bot" where
  "abs_bot s = (nickname s, chan_map s)"

definition abs_rename :: "string \<Rightarrow> string \<Rightarrow> bot \<Rightarrow> bot" where
  "abs_rename src new b =
     (case break_at (CHR ''!'') src of
        None \<Rightarrow> b | Some (old, r) \<Rightarrow> if old = fst b then (new, snd b) else b)"

definition abs_joined :: "string \<Rightarrow> bot \<Rightarrow> bot" where
  "abs_joined c b = (if snd b c = Some JoinRequested then (fst b, (snd b)(c \<mapsto> Joined)) else b)"

definition abs_parted :: "string \<Rightarrow> bot \<Rightarrow> bot" where
  "abs_parted c b = (if snd b c = Some PartRequested then (fst b, (snd b)(c := None)) else b)"

text \<open>The owner's commands: a channel is joined or left once the request was sent.\<close>

definition abs_command :: "(string \<Rightarrow> bool) \<Rightarrow> string list \<Rightarrow> bot \<Rightarrow> bot" where
  "abs_command sent ps b =
     (if length ps = 3 \<and> ps ! 1 = '':,join'' \<and> sent (CR # ''JOIN '' @ ps ! 2 @ [CR, LF])
      then (fst b, (snd b)(ps ! 2 \<mapsto> JoinRequested))
      else if length ps = 3 \<and> ps ! 1 = '':,part'' \<and> ps ! 2 \<in> dom (snd b) \<and> sent (CR # ''PART '' @ ps ! 2 @ [CR, LF])
      then (fst b, (snd b)(ps ! 2 \<mapsto> PartRequested))
      else b)"

definition abs_line :: "(string \<Rightarrow> bool) \<Rightarrow> string \<Rightarrow> bot \<Rightarrow> bot" where
  "abs_line sent l b =
     (case spec_message l DEFAULT_TYPE of
        Inl _ \<Rightarrow> b
      | Inr v \<Rightarrow>
          if v_command v = ''NICK'' then abs_rename (v_source v) (drop 1 (hd (v_params v))) b
          else if v_command v = ''JOIN'' then abs_joined (hd (v_params v)) b
          else if v_command v = ''PART'' then abs_parted (hd (v_params v)) b
          else if v_command v = ''PRIVMSG'' \<and> v_source v = owner_source then abs_command sent (v_params v) b
          else b)"

lemma abs_send [simp]: "abs_bot (after_send e d s) = abs_bot s"
  by (simp add: abs_bot_def)

lemma abs_sys_send: "abs_bot (snd (sys_send e fd d s)) = abs_bot s"
  by (simp add: abs_bot_def sys_send_def log_io_def set_errno_if_def split: prod.split)

lemma leaves_abs_ops:
  "leaves abs_bot (SendChannel e c msg)" "leaves abs_bot (OpenHandle e name)"
  "leaves abs_bot (CloseHandle h)" "leaves abs_bot (insert_plugin name h)"
  by (auto simp: leaves_def SendChannel_run OpenHandle_def CloseHandle_def insert_plugin_def abs_bot_def
      sys_dlopen_def sys_dlclose_def log_io_def cbind_apply Let_def split: option.split)

lemma leaves_abs_reply: "leaves abs_bot (SendInvokerReply e m reply)"
  unfolding SendInvokerReply_def GetNickname_def Let_def
  by (intro leaves_cbind leaves_basic leaves_abs_ops)

text \<open>Plugin code that leaves nickname and channels alone.\<close>

definition plugin_leaves_bot :: "('cb, 'a) server_scheme plugin_code \<Rightarrow> bool" where
  "plugin_leaves_bot P \<longleftrightarrow> (\<forall>a m. leaves abs_bot (fn_register P a) \<and> leaves abs_bot (fn_delete P a) \<and>
     leaves abs_bot (fn_help P a m) \<and> leaves abs_bot (fn_command P a m))"

lemma leaves_abs_call: "(\<And>a. leaves abs_bot (f a)) \<Longrightarrow> leaves abs_bot (call_ptr f p)"
  by (cases p) (simp_all add: call_ptr_def leaves_basic)

lemma leaves_abs_plugin_commands:
  assumes "plugin_leaves_bot P"
  shows "leaves abs_bot (BuiltinCommandLoadPlugin e P m)" "leaves abs_bot (BuiltinCommandUnloadPlugin e P m)"
    "leaves abs_bot (BuiltinCommandHelp e P m)"
proof -
  have guard: "leaves abs_bot (guard_handle h k)" if "leaves abs_bot k" for h and k :: "(('a, 'b) server_scheme, unit) cpp"
    unfolding guard_handle_def using that by (intro leaves_ctry leaves_cseq leaves_abs_ops leaves_basic)
  have fns: "leaves abs_bot (fn_register P a)" "leaves abs_bot (fn_delete P a)" "leaves abs_bot (fn_help P a m)" for a
    using assms by (simp_all add: plugin_leaves_bot_def)
  show "leaves abs_bot (BuiltinCommandLoadPlugin e P m)"
    unfolding BuiltinCommandLoadPlugin_def Let_def
    by (auto intro!: leaves_cbind leaves_cseq leaves_basic leaves_abs_ops leaves_abs_reply guard leaves_abs_call fns)
  have er: "leaves abs_bot (cmod (\<lambda>s. s\<lparr>plugins_map := f s\<rparr>))" for f :: "('a, 'b) server_scheme \<Rightarrow> _"
    by (simp add: leaves_def abs_bot_def)
  show "leaves abs_bot (BuiltinCommandUnloadPlugin e P m)"
    unfolding BuiltinCommandUnloadPlugin_def Let_def
    by (auto intro!: leaves_cbind leaves_cseq leaves_basic leaves_abs_ops leaves_abs_reply leaves_abs_call fns er
        split: option.split)
  show "leaves abs_bot (BuiltinCommandHelp e P m)"
    unfolding BuiltinCommandHelp_def Let_def
    by (auto intro!: leaves_cbind leaves_cseq leaves_basic leaves_abs_reply leaves_abs_call fns split: option.split)
qed

lemma stranger_commands:
  assumes "source m \<noteq> owner_source" "param_vec m \<noteq> []"
  shows "leaves abs_bot (BuiltinCommandNick e m)" "leaves abs_bot (BuiltinCommandJoin e m)"
    "leaves abs_bot (BuiltinCommandPart e m)"
proof -
  have "leaves abs_bot (cb m)" if "cb \<in> {BuiltinCommandNick e, BuiltinCommandJoin e, BuiltinCommandPart e}" for cb
  proof (cases "IsUserMessage (source m)")
    case True
    then show ?thesis using privileged_refused [OF True assms(2,1) that] by (simp add: leaves_def)
  next
    case False
    then show ?thesis using that
      by (auto simp: leaves_def BuiltinCommandNick_def BuiltinCommandJoin_def BuiltinCommandPart_def
          InvokerPermissionCheck_def GetUser_server)
  qed
  then show "leaves abs_bot (BuiltinCommandNick e m)" "leaves abs_bot (BuiltinCommandJoin e m)"
    "leaves abs_bot (BuiltinCommandPart e m)" by blast+
qed

text \<open>A PRIVMSG is the command it names, with the exceptions of \<open>at\<close> caught.\<close>

lemma leaves_abs_privmsg:
  assumes "\<And>c f. GetUserCommand m = Inr c \<Longrightarrow> static_command_map e P c = Some f \<Longrightarrow> abs_bot (snd (f m s)) = abs_bot s"
    and "plugin_leaves_bot P"
  shows "abs_bot (snd (BuiltinPrivMsg e P m s)) = abs_bot s"
proof -
  have dyn: "abs_bot (snd (fn_command P a m s)) = abs_bot s" for a
    using assms(2) by (simp add: plugin_leaves_bot_def leaves_def)
  have "abs_bot (snd ((case static_command_map e P c of
          Some f \<Rightarrow> f m
        | None \<Rightarrow>
            cbind (cget user_command_map) (\<lambda>mp.
            cbind (cpure (GetUserCommand m)) (\<lambda>c.
            case mp c of Some cb \<Rightarrow> fn_command P cb m | None \<Rightarrow> cret ()))) s)) = abs_bot s" if "GetUserCommand m = Inr c" for c
    using that assms(1) [OF that] dyn
    by (cases "static_command_map e P c") (auto simp: cbind_apply split: option.split)
  then show ?thesis
    by (cases "GetUserCommand m") (auto simp: BuiltinPrivMsg_def ctry_def cseq_def cbind_apply cpp_assert_def
        split: prod.splits sum.splits)
qed

lemma stranger_privmsg:
  assumes "source m \<noteq> owner_source" "param_vec m \<noteq> []" "plugin_leaves_bot P"
  shows "abs_bot (snd (BuiltinPrivMsg e P m s)) = abs_bot s"
proof (rule leaves_abs_privmsg [OF _ assms(3)])
  fix c f assume "static_command_map e P c = Some f"
  then have "leaves abs_bot (f m)"
    using stranger_commands [OF assms(1,2), of e] leaves_abs_plugin_commands [OF assms(3), of e m]
    by (auto simp: static_commands UserCommandForward_def leaves_abs_reply BuiltinCommandHi_def)
  then show "abs_bot (snd (f m s)) = abs_bot s" by (simp add: leaves_def)
qed

text \<open>The owner's join and part are the operations of the server; the other commands leave the two alone.\<close>

lemma owner_channel_commands:
  assumes "source m = owner_source" "length (GetParameters m) = 3" "GetParameters m ! 1 = c"
    and "static_command_map e P c = Some f" "c \<in> {'':,join'', '':,part''}"
  shows "abs_bot (snd (f m s)) = abs_command (\<lambda>d. 0 \<le> send_result e d s) (GetParameters m) (abs_bot s)"
proof -
  let ?c = "GetParameters m ! 2"
  obtain fj fp fn where f: "static_command_map e P '':,join'' = Some fj" "static_command_map e P '':,part'' = Some fp"
      "fj m s = JoinChannel e ?c s" "fp m s = cbind (PartChannel e ?c)
        (\<lambda>ok. if ok then cret () else SendInvokerReply e m ''Error: No such channel exists.'') s"
    using owner_commands_act [OF assms(1,2), of e P s] by blast
  have nick: "nickname (snd (JoinChannel e ?c s)) = nickname s" "nickname (snd (PartChannel e ?c s)) = nickname s"
    using PartChannel_run [of e ?c s]
    by (auto simp: JoinChannel_def irc_send_defs cbind_apply log_io_def set_errno_if_def split: option.splits prod.splits)
  show ?thesis
  proof (cases "c = '':,join''")
    case True
    then show ?thesis using assms f JoinChannel_effect(2) [OF refl, where e = e and c = ?c and s = s] nick
      by (auto simp: abs_bot_def abs_command_def)
  next
    case False
    then have fm: "f m s = cbind (PartChannel e ?c)
        (\<lambda>ok. if ok then cret () else SendInvokerReply e m ''Error: No such channel exists.'') s" "c = '':,part''"
      using assms f by auto
    have "abs_bot (snd (f m s)) = abs_bot (snd (PartChannel e ?c s))"
      using leaves_abs_reply [of e m "''Error: No such channel exists.''"]
      by (auto simp: fm(1) cbind_apply leaves_def split: prod.split sum.split)
    then show ?thesis using assms fm(2) PartChannel_effect(2) [OF refl, where e = e and c = ?c and s = s] nick
      by (auto simp: abs_bot_def abs_command_def domIff)
  qed
qed

lemma owner_privmsg:
  assumes "source m = owner_source" "param_vec m \<noteq> []" "plugin_leaves_bot P"
  shows "abs_bot (snd (BuiltinPrivMsg e P m s)) = abs_command (\<lambda>d. 0 \<le> send_result e d s) (GetParameters m) (abs_bot s)"
proof (cases "length (GetParameters m) = 3 \<and> GetParameters m ! 1 \<in> {'':,join'', '':,part''}")
  case True
  define c where "c = GetParameters m ! 1"
  have c: "c \<in> {'':,join'', '':,part''}" "GetUserCommand m = Inr c" "2 \<le> length (GetParameters m)"
    using True by (auto simp: c_def GetUserCommand_def vec_at_def)
  then obtain f where f: "static_command_map e P c = Some f" by (auto simp: static_commands)
  have "snd (BuiltinPrivMsg e P m s) = snd (f m s)"
    using c(2,3) f by (auto simp: BuiltinPrivMsg_def ctry_def cseq_def cbind_apply cpp_assert_def split: prod.splits sum.splits)
  then show ?thesis using owner_channel_commands [OF assms(1) _ c_def [symmetric] f c(1)] True by simp
next
  case False
  then have "abs_command (\<lambda>d. 0 \<le> send_result e d s) (GetParameters m) (abs_bot s) = abs_bot s"
    by (auto simp: abs_command_def)
  moreover have "abs_bot (snd (BuiltinPrivMsg e P m s)) = abs_bot s"
  proof (rule leaves_abs_privmsg [OF _ assms(3)])
    fix c f assume c: "GetUserCommand m = Inr c" "static_command_map e P c = Some f"
    have "leaves abs_bot (SetNickname e d)" for d by (simp add: leaves_def SetNickname_run)
    then have nick: "leaves abs_bot (BuiltinCommandNick e m)"
      unfolding BuiltinCommandNick_def InvokerPermissionCheck_def
      by (auto intro!: leaves_cbind leaves_cseq leaves_basic leaves_abs_reply)
    have "\<not> ExpectArgsRange 1 1 m" if "c \<in> {'':,join'', '':,part''}"
      using False that c(1) by (auto simp: ExpectArgsRange_def GetUserCommand_def vec_at_def split: if_splits)
    then have "leaves abs_bot (f m)"
      using c(2) nick leaves_abs_plugin_commands [OF assms(3), of e m]
      by (auto simp: static_commands UserCommandForward_def leaves_abs_reply BuiltinCommandHi_def)
    then show "abs_bot (snd (f m s)) = abs_bot s" by (simp add: leaves_def)
  qed
  ultimately show ?thesis by simp
qed

text \<open>The visit of each kind of message, seen abstractly.\<close>

lemma visitor_refines:
  assumes "IRCMessage_new l DEFAULT_TYPE = Inr m" "spec_message l DEFAULT_TYPE = Inr (msg_observe m)"
    and "plugin_leaves_bot P" "spec_variant (m\<lparr>message_type := spec_command_type (command m)\<rparr>) \<noteq> VQuit"
  shows "abs_bot (snd (Visitor e P (spec_variant (m\<lparr>message_type := spec_command_type (command m)\<rparr>)) s)) =
    abs_line (\<lambda>d. 0 \<le> send_result e d s) l (abs_bot s)"
proof -
  let ?m = "m\<lparr>message_type := spec_command_type (command m)\<rparr>" and ?sent = "\<lambda>d. 0 \<le> send_result e d s"
  have p: "param_vec ?m \<noteq> []" using accepted_params(1) [OF assms(1)] by simp
  have hd: "hd (GetParameters m) = GetParameters m ! 0"
    using p by (simp add: hd_conv_nth GetParameters_def)
  have pong: "abs_bot (snd (BuiltinPong e ?m s)) = abs_bot s"
    using first_param_tail [OF assms(1)] p
    by (simp add: BuiltinPong_def vec_idx_def SendMsg_def cbind_apply abs_sys_send split: prod.split sum.split)
      (metis abs_sys_send snd_conv)
  have nick: "abs_bot (snd (BuiltinNickname e ?m s)) =
      abs_rename (source m) (drop 1 (GetParameters m ! 0)) (abs_bot s)"
    using first_param_tail [OF assms(1)] p
    by (auto simp: BuiltinNickname_def GetNewNickname_def vec_at_def GetUser_def ParseSourceUser_spec
        spec_source_user_def UpdateNickname_def abs_rename_def abs_bot_def cbind_apply
        split: option.splits)
  have join: "abs_bot (snd (BuiltinJoin ?m s)) = abs_joined (GetParameters m ! 0) (abs_bot s)"
    "abs_bot (snd (BuiltinPart ?m s)) = abs_parted (GetParameters m ! 0) (abs_bot s)"
    using GetChannel_hd [OF p] hd
    by (auto simp: BuiltinJoin_def BuiltinPart_def UpdateJoinChannel_def UpdatePartChannel_def abs_joined_def
        abs_parted_def abs_bot_def fm_assign_def fm_erase_def split: option.splits)
  have priv: "abs_bot (snd (BuiltinPrivMsg e P ?m s)) =
      (if source m = owner_source then abs_command ?sent (GetParameters m) (abs_bot s) else abs_bot s)"
    using stranger_privmsg [of ?m P e s] owner_privmsg [of ?m P e s] assms(3) p by (simp add: GetParameters_def)
  show ?thesis using assms(2,4) pong nick join priv hd
    by (auto simp: spec_variant_def spec_command_type_def abs_line_def msg_observe_def split: if_splits)
qed

text \<open>The version plugin leaves them alone.\<close>

lemma version_leaves_bot: "plugin_leaves_bot (version_plugin e a :: ('cb, 'a) server_scheme plugin_code)"
proof -
  let ?P = "version_plugin e a :: ('cb, 'a) server_scheme plugin_code"
  have "leaves abs_bot (fn_register ?P b)" "leaves abs_bot (fn_delete ?P b)" for b
    by (simp_all add: leaves_def version_plugin_tables abs_bot_def)
  moreover have "leaves abs_bot (fn_help ?P b m)" for b m
    unfolding version_plugin_def HelpCallbackImpl_def plugin_code.simps
    by (intro leaves_cbind leaves_basic leaves_abs_reply)
  moreover have "leaves abs_bot (fn_command ?P b m)" for b m
    unfolding version_plugin_def UserCommandForward_def Plugin_version_def plugin_code.simps
    by (simp add: leaves_abs_reply)
  ultimately show ?thesis by (simp add: plugin_leaves_bot_def)
qed

section \<open>Properties\<close>

text \<open>C24. The tokenizer built on \<open>strtok_r\<close> returns the non-empty pieces between CR and LF of the
  text before the first NUL, in order, and each is free of delimiters.\<close>

theorem TokenizeMessageMultiple_equiv:
  "TokenizeMessageMultiple msg = line_pieces [] (takeWhile (\<lambda>c. c \<noteq> NUL) msg) \<and>
   list_all (\<lambda>l. l \<noteq> [] \<and> CR \<notin> set l \<and> LF \<notin> set l \<and> NUL \<notin> set l) (TokenizeMessageMultiple msg)"
proof -
  have "list_all wf_line (line_pieces [] (c_str msg))"
    by (rule line_pieces_wf) (simp_all add: NUL_notin_c_str)
  then show ?thesis
    by (simp add: TokenizeMessageMultiple_pieces c_str_def list_all_iff wf_line_def)
qed

text \<open>Framing round trip: lines terminated by CR LF, as a server sends them, come out of the
  tokenizer as they went in, none lost, merged or reordered.\<close>

theorem TokenizeMessageMultiple_roundtrip:
  assumes "list_all wf_line ls"
  shows "TokenizeMessageMultiple (concat (map (\<lambda>l. l @ [CR, LF]) ls)) = ls"
proof -
  have "NUL \<notin> set (concat (map (\<lambda>l. l @ [CR, LF]) ls))"
    using assms by (auto simp: list_all_iff wf_line_def)
  then show ?thesis
    using line_pieces_lines [OF assms] by (simp add: TokenizeMessageMultiple_pieces c_str_id)
qed

theorem TokenizeMessageMultiple_roundtrip_witness:
  "TokenizeMessageMultiple (''PING :a'' @ [CR, LF] @ ''PING :b'' @ [CR, LF]) = [''PING :a'', ''PING :b'']"
  using TokenizeMessageMultiple_roundtrip [of "[''PING :a'', ''PING :b'']"] by (simp add: wf_line_def)

text \<open>C20. How \<open>ProcessMessageLine\<close> can fail, for any line, any plugin and either build: by what plugin code
  raises, unless that is an \<open>out_of_range\<close> or a \<open>runtime_error\<close>, which are caught; by calling a symbol that the
  loader did not find; and in a debug build by an assertion, for a NICK or PRIVMSG that does not come
  from a user or a PRIVMSG of fewer than two parameters. Nothing else that a line makes the program
  do escapes.\<close>

theorem ProcessMessageLine_failures:
  assumes "ProcessMessageLine e P l s = (Inl err, t)"
  shows "((\<exists>a m u. fst (fn_register P a u) = Inl err \<or> fst (fn_delete P a u) = Inl err \<or>
         fst (fn_help P a m u) = Inl err \<or> fst (fn_command P a m u) = Inl err) \<and>
       err \<noteq> OutOfRange \<and> (\<forall>w. err \<noteq> RuntimeError w)) \<or>
    ((\<exists>h sym. os_dlsym e h sym = None) \<and>
      (err = UB ''call of a null pointer'' \<or> (\<not> ndebug e \<and> err \<in> {Abort ''reg_func'', Abort ''del_func''}))) \<or>
    (\<not> ndebug e \<and> (\<exists>w. err = Abort w) \<and> (\<exists>m. IRCMessage_new l DEFAULT_TYPE = Inr m \<and> \<not> debug_safe m))"
proof -
  have "(\<forall>w. err \<noteq> RuntimeError w) \<longleftrightarrow> \<not> is_runtime_error err" by (cases err) simp_all
  then show ?thesis using ProcessMessageLine_errors [OF assms]
    by (auto simp: plugin_raises_def plugin_failure_def null_call_def)
qed

definition throwing_plugin :: "nat server plugin_code" where
  "throwing_plugin = null_plugin\<lparr>fn_command := \<lambda>_ _. cthrow (LogicError ''boom'')\<rparr>"

text \<open>A plugin command that throws something else.\<close>

theorem ProcessMessageLine_failures_witness:
  "\<exists>t. ProcessMessageLine calm_env throwing_plugin '':eve!e@h PRIVMSG #c :,boom''
      (server0\<lparr>user_command_map := ['':,boom'' \<mapsto> 1]\<rparr>) = (Inl (LogicError ''boom''), t)"
proof -
  let ?l = "'':eve!e@h PRIVMSG #c :,boom''" and ?s = "server0\<lparr>user_command_map := ['':,boom'' \<mapsto> 1]\<rparr>"
  obtain m where m: "IRCMessage_new ?l DEFAULT_TYPE = Inr m" "source m = ''eve!e@h''" "command m = ''PRIVMSG''"
      "GetParameters m = [''#c'', '':,boom'']"
    using IRCMessage_new_render [of "[]" "''eve!e@h''" "''PRIVMSG''" "[''#c'', '':,boom'']"]
    by (auto simp: wf_command_def wf_word_def render_message_def)
  let ?m = "m\<lparr>message_type := PRIVMSG\<rparr>"
  have mv: "GetIRCMessageVariantFrom (ndebug calm_env) m = Inr (VPrivMsg ?m)"
    using accepted_variant [OF m(1), of calm_env] m
    by (simp add: calm_env_def spec_command_type_def spec_variant_def quit_requested_def owner_source_def)
  have none: "static_command_map calm_env throwing_plugin '':,boom'' = None"
    by (simp add: static_command_map_def STATIC_REGISTER_USER_COMMAND_def)
  have "Visitor calm_env throwing_plugin (VPrivMsg ?m) ?s = (Inl (LogicError ''boom''), ?s)"
    using m(4) none
    by (simp add: BuiltinPrivMsg_def GetUserCommand_def vec_at_def GetParameters_def throwing_plugin_def)
  then have run: "ProcessMessageLine calm_env throwing_plugin ?l ?s = (Inl (LogicError ''boom''), ?s)"
    using ProcessMessageLine_accepted [OF m(1) mv, of throwing_plugin ?s] by simp
  from ProcessMessageLine_failures [OF run] run show ?thesis by blast
qed

text \<open>In a debug build a server can abort the bot: every accepted NICK or PRIVMSG without a user
  in its source fails the assertion of \<open>GetIRCMessageVariantFrom\<close>, and nothing catches that.\<close>

theorem debug_build_aborts:
  assumes "\<not> ndebug e" "IRCMessage_new l DEFAULT_TYPE = Inr m"
    and "command m = ''NICK'' \<or> command m = ''PRIVMSG''" "CHR ''!'' \<notin> set (source m)"
  shows "\<exists>w. ProcessMessageLine e P l s = (Inl (Abort w), s)"
proof -
  have "NUL \<notin> set (command m)" using assms(3) by auto
  then have "needs_user_source (command_type (command m))"
    using assms(3) by (auto simp: command_type_spec spec_command_type_def needs_user_source_def)
  moreover have "\<not> IsUserMessage (source m)" using assms(4) by (simp add: IsUserMessage_iff)
  ultimately obtain w where "GetIRCMessageVariantFrom (ndebug e) m = Inl (Abort w)"
    using GetIRCMessageVariantFrom_spec [OF accepted_params(1) [OF assms(2)], of "ndebug e"] assms(1) by auto
  then show ?thesis using assms(2) by (simp add: ProcessMessageLine_def ctry_def)
qed

theorem debug_build_aborts_witness:
  "\<exists>w. ProcessMessageLine (calm_env\<lparr>ndebug := False\<rparr>) (null_plugin :: nat server plugin_code)
      '':irc.example NICK :kbot2'' server0 = (Inl (Abort w), server0)"
proof -
  obtain m where m: "IRCMessage_new '':irc.example NICK :kbot2'' DEFAULT_TYPE = Inr m"
      "source m = ''irc.example''" "command m = ''NICK''"
    using IRCMessage_new_render [of "[]" "''irc.example''" "''NICK''" "['':kbot2'']"]
    by (auto simp: wf_command_def wf_word_def render_message_def)
  show ?thesis by (rule debug_build_aborts [OF _ m(1)]) (simp_all add: m calm_env_def)
qed

text \<open>C36. Exactly which lines make \<open>ProcessMessageLine\<close> answer that the worker should stop, in a
  release build: an accepted KILL or QUIT, whoever sent it, or the owner's PRIVMSG that says
  \<open>,quit\<close> or nothing at all. A stop changes nothing else.\<close>

theorem ProcessMessageLine_stops_iff:
  assumes "ndebug e" "NUL \<notin> set l"
  shows "fst (ProcessMessageLine e P l s) = Inr False \<longleftrightarrow>
    (\<exists>m. IRCMessage_new l DEFAULT_TYPE = Inr m \<and>
       (command m = ''KILL'' \<or> command m = ''QUIT'' \<or>
        (command m = ''PRIVMSG'' \<and> source m = owner_source \<and>
         (length (GetParameters m) \<le> 1 \<or> GetParameters m ! 1 = '':,quit''))))"
  using ProcessMessageLine_stop_line [OF assms, of P s]
  by (auto simp: stop_line_def quit_requested_def split: sum.splits)

theorem ProcessMessageLine_stops_iff_witness:
  "fst (ProcessMessageLine calm_env (null_plugin :: nat server plugin_code) '':eve!e@h QUIT :bye'' server0) = Inr False"
proof -
  obtain m where m: "IRCMessage_new '':eve!e@h QUIT :bye'' DEFAULT_TYPE = Inr m" "command m = ''QUIT''"
    using IRCMessage_new_render [of "[]" "''eve!e@h''" "''QUIT''" "['':bye'']"]
    by (auto simp: wf_command_def wf_word_def render_message_def)
  show ?thesis
    using ProcessMessageLine_stops_iff [of calm_env "'':eve!e@h QUIT :bye''" null_plugin server0] m
    by (simp add: calm_env_def)
qed

text \<open>A PING is answered: exactly one message is sent, PONG with the parameter less its first
  character, without the terminating CR LF, and nothing else changes.\<close>

theorem ping_is_answered:
  assumes "IRCMessage_new l DEFAULT_TYPE = Inr m" "command m = ''PING''"
  shows "\<exists>r en. ProcessMessageLine e P l s = (Inr True, s\<lparr>w_trace := w_trace s @
    [EvSend (irc_fd s) (''PONG :'' @ drop 1 (GetParameters m ! 0)) r], w_errno := en\<rparr>)"
proof -
  have nul: "NUL \<notin> set (command m)" using assms(2) by simp
  have mv: "GetIRCMessageVariantFrom (ndebug e) m = Inr (VPing (m\<lparr>message_type := PING\<rparr>))"
    using accepted_variant [OF assms(1) nul] assms(2)
    by (simp add: spec_command_type_def needs_user_source_def spec_variant_def)
  have "BuiltinPong e (m\<lparr>message_type := PING\<rparr>) s =
      (Inr (), after_send e (''PONG :'' @ drop 1 (GetParameters m ! 0)) s)"
    using first_param_tail [OF assms(1)] accepted_params(1) [OF assms(1)]
    by (simp add: BuiltinPong_def vec_idx_def SendMsg_def sys_send_def after_send_def cbind_apply
        split: prod.split)
  then have "ProcessMessageLine e P l s = (Inr True, after_send e (''PONG :'' @ drop 1 (GetParameters m ! 0)) s)"
    using ProcessMessageLine_accepted [OF assms(1) mv, of P s] by simp
  then show ?thesis using after_send_eq by metis
qed

theorem ping_is_answered_witness:
  "\<exists>r en. ProcessMessageLine calm_env null_plugin ''PING :irc.example'' server0 =
    (Inr True, server0\<lparr>w_trace := [EvSend 3 ''PONG :irc.example'' r], w_errno := en\<rparr>)"
proof -
  obtain m where m: "IRCMessage_new ''PING :irc.example'' DEFAULT_TYPE = Inr m" "command m = ''PING''"
      "GetParameters m = ['':irc.example'']"
    using IRCMessage_new_render [of "[]" "[]" "''PING''" "['':irc.example'']"]
    by (auto simp: wf_command_def wf_word_def render_message_def)
  show ?thesis using ping_is_answered [OF m(1,2), of calm_env null_plugin server0] m(3)
    by (simp add: server0_def)
qed

text \<open>C4. Refinement: seen through the nickname and the channel table, a line does exactly what the
  abstract specification over the reference parser says, in either build and whether or not the
  handler fails: NICK, JOIN and PART of the server, and the owner's \<open>,join\<close> and \<open>,part\<close> when their
  request could be sent. Nothing else changes the two, in particular no command of anyone else. The
  line is free of NUL, as the tokenizer delivers it, and the code of plugins leaves the two alone, as that
  of the version plugin does.\<close>

theorem line_refines_abstract_bot:
  assumes "NUL \<notin> set l" "plugin_leaves_bot P"
  shows "abs_bot (snd (ProcessMessageLine e P l s)) = abs_line (\<lambda>d. 0 \<le> send_result e d s) l (abs_bot s)"
proof (cases "IRCMessage_new l DEFAULT_TYPE")
  case (Inl err)
  then have "spec_message l DEFAULT_TYPE = Inl err"
    using IRCMessage_new_spec [of l DEFAULT_TYPE] by (auto split: sum.splits)
  then show ?thesis by (simp add: ProcessMessageLine_rejected [OF Inl] abs_line_def)
next
  case (Inr m)
  have obs: "spec_message l DEFAULT_TYPE = Inr (msg_observe m)" using IRCMessage_new_InrD [OF Inr] by blast
  have nul: "NUL \<notin> set (command m)" using accepted_no_nul [OF Inr] assms(1) by blast
  let ?m = "m\<lparr>message_type := spec_command_type (command m)\<rparr>"
  show ?thesis
  proof (cases "ndebug e \<or> \<not> needs_user_source (spec_command_type (command m)) \<or> IsUserMessage (source m)")
    case True
    have mv: "GetIRCMessageVariantFrom (ndebug e) m = Inr (spec_variant ?m)" using accepted_variant [OF Inr nul True] .
    have run: "snd (ProcessMessageLine e P l s) =
        (if spec_variant ?m = VQuit then s else snd (Visitor e P (spec_variant ?m) s))"
      using ProcessMessageLine_accepted [OF Inr mv, of P s] by (auto split: prod.splits sum.splits)
    have "abs_line sent l b = b" if "spec_variant ?m = VQuit" for sent b
      using that obs by (auto simp: spec_variant_def spec_command_type_def abs_line_def msg_observe_def
          quit_requested_def abs_command_def split: if_splits)
    then show ?thesis using run visitor_refines [OF Inr obs assms(2), of e s] by simp
  next
    case False
    then have "\<exists>w. GetIRCMessageVariantFrom (ndebug e) m = Inl (Abort w)"
      using GetIRCMessageVariantFrom_spec [OF accepted_params(1) [OF Inr], of "ndebug e"] nul by (auto simp: command_type_spec)
    then have "snd (ProcessMessageLine e P l s) = s" using Inr by (auto simp: ProcessMessageLine_def ctry_def)
    moreover have src: "CHR ''!'' \<notin> set (source m)" using False by (simp add: IsUserMessage_iff)
    then have "source m \<noteq> owner_source" "break_at (CHR ''!'') (source m) = None"
      by (auto simp: owner_source_def break_at_None_iff)
    then have "abs_line sent l b = b" for sent b using False obs
      by (auto simp: abs_line_def msg_observe_def spec_command_type_def needs_user_source_def abs_rename_def split: if_splits)
    ultimately show ?thesis by simp
  qed
qed

theorem line_refines_abstract_bot_witness:
  "nickname (snd (ProcessMessageLine calm_env (version_plugin calm_env 9) '':kbot!k@h NICK :kbot2'' server0)) = ''kbot2'' \<and>
   chan_map (snd (ProcessMessageLine calm_env (version_plugin calm_env 9) ('':'' @ owner_source @ '' PRIVMSG #c :,join #d'') server0)) =
     [''#d'' \<mapsto> JoinRequested]"
proof -
  let ?P = "version_plugin calm_env 9 :: nat server plugin_code"
  note ref = line_refines_abstract_bot [OF _ version_leaves_bot, of _ calm_env calm_env 9 server0]
  obtain m where m: "IRCMessage_new '':kbot!k@h NICK :kbot2'' DEFAULT_TYPE = Inr m" "command m = ''NICK''"
      "source m = ''kbot!k@h''" "GetParameters m = ['':kbot2'']"
    using IRCMessage_new_render [of "[]" "''kbot!k@h''" "''NICK''" "['':kbot2'']"]
    by (auto simp: wf_command_def wf_word_def render_message_def)
  have "abs_line sent '':kbot!k@h NICK :kbot2'' (abs_bot server0) = (''kbot2'', Map.empty)" for sent
    using IRCMessage_new_InrD [OF m(1)] m(2-4)
    by (simp add: abs_line_def msg_observe_def abs_rename_def abs_bot_def server0_def break_at_def)
  then have nick: "nickname (snd (ProcessMessageLine calm_env ?P '':kbot!k@h NICK :kbot2'' server0)) = ''kbot2''"
    using ref [of "'':kbot!k@h NICK :kbot2''"] by (simp add: abs_bot_def)
  let ?l = "'':'' @ owner_source @ '' PRIVMSG #c :,join #d''"
  obtain m where m: "IRCMessage_new ?l DEFAULT_TYPE = Inr m" "command m = ''PRIVMSG''"
      "source m = owner_source" "GetParameters m = [''#c'', '':,join'', ''#d'']"
    using IRCMessage_new_render [of "[]" owner_source "''PRIVMSG''" "[''#c'', '':,join'', ''#d'']"]
    by (auto simp: wf_command_def wf_word_def render_message_def owner_source_def)
  have "abs_line (\<lambda>d. 0 \<le> send_result calm_env d server0) ?l (abs_bot server0) = (''kbot'', [''#d'' \<mapsto> JoinRequested])"
    using IRCMessage_new_InrD [OF m(1)] m(2-4)
    by (simp add: abs_line_def msg_observe_def abs_command_def abs_bot_def server0_def calm_env_def)
  moreover have "NUL \<notin> set ?l" by (simp add: owner_source_def)
  ultimately have "chan_map (snd (ProcessMessageLine calm_env ?P ?l server0)) = [''#d'' \<mapsto> JoinRequested]"
    using ref [of ?l] by (simp add: abs_bot_def)
  with nick show ?thesis by simp
qed

end
