(* ===== verification/Signals.thy ===== *)
theory Signals
  imports OS_World Interfaces
begin

text \<open>
  The real-time signal numbers that server threads take (\<open>sig_id\<close>, \<open>SetupSignalDelivery\<close> and
  \<open>TearDownSignalDelivery\<close> of \<open>src/src/Manager.cc\<close>). The counter is shared by all threads and
  changed by a compare-and-swap loop, so the operations are a step relation in which a thread may
  be interrupted between its load and its exchange. Also the name a thread gives itself.
\<close>

section \<open>Numbers and names\<close>

text \<open>The values of the C library on Linux.\<close>

definition SIGRTMIN :: int where "SIGRTMIN = 34"
definition SIGRTMAX :: int where "SIGRTMAX = 64"

definition show_int :: "int \<Rightarrow> string" where
  "show_int n = (if n < 0 then ''-'' @ show_nat (nat (- n)) else show_nat (nat n))"

definition thread_name :: "int \<Rightarrow> string \<Rightarrow> string" where
  "thread_name cur_sig_id server_name =
     (let name = show_int (cur_sig_id - SIGRTMIN) @ ''-'' @ server_name in
      if 15 < length name then take 15 name else name)"

lemma thread_name_length: "length (thread_name cur name) \<le> 15"
  by (auto simp: thread_name_def Let_def min_def)

section \<open>The compare-and-swap loop\<close>

text \<open>Where a thread is: before the load, between the load and the exchange, past the setup with a
  number or without one, and after the teardown.\<close>

datatype sig_pc = Outside | Loaded int | Holding int | Skipped | Gone

record sigs =
  sig_counter :: int
  sig_pc_of :: "nat \<Rightarrow> sig_pc"

text \<open>\<open>cur_sig_id = sig_id.load(...)\<close> with the exhaustion check.\<close>

definition sig_load :: "nat \<Rightarrow> sigs \<Rightarrow> sigs" where
  "sig_load t s = (let cur = sig_counter s in
     if cur = SIGRTMAX then s\<lparr>sig_pc_of := (sig_pc_of s)(t := Skipped)\<rparr>
     else s\<lparr>sig_pc_of := (sig_pc_of s)(t := Loaded cur)\<rparr>)"

text \<open>\<open>sig_id.compare_exchange_strong(cur_sig_id, cur_sig_id + 1, ...)\<close>; on failure the loop
  starts over.\<close>

definition sig_exchange :: "nat \<Rightarrow> int \<Rightarrow> sigs \<Rightarrow> sigs" where
  "sig_exchange t cur s =
     (if sig_counter s = cur
      then s\<lparr>sig_counter := cur + 1, sig_pc_of := (sig_pc_of s)(t := Holding cur)\<rparr>
      else s\<lparr>sig_pc_of := (sig_pc_of s)(t := Outside)\<rparr>)"

text \<open>\<open>TearDownSignalDelivery\<close> subtracts one whether or not the thread got a number.\<close>

definition sig_teardown :: "nat \<Rightarrow> sigs \<Rightarrow> sigs" where
  "sig_teardown t s = s\<lparr>sig_counter := sig_counter s - 1, sig_pc_of := (sig_pc_of s)(t := Gone)\<rparr>"

inductive setup_step :: "sigs \<Rightarrow> sigs \<Rightarrow> bool" where
  step_load: "sig_pc_of s t = Outside \<Longrightarrow> setup_step s (sig_load t s)"
| step_exchange: "sig_pc_of s t = Loaded cur \<Longrightarrow> setup_step s (sig_exchange t cur s)"

inductive sig_step :: "sigs \<Rightarrow> sigs \<Rightarrow> bool" where
  step_setup: "setup_step s s' \<Longrightarrow> sig_step s s'"
| step_teardown: "sig_pc_of s t = Holding cur \<or> sig_pc_of s t = Skipped \<Longrightarrow> sig_step s (sig_teardown t s)"

inductive_cases setup_stepE: "setup_step s s'"

definition sig_init :: "sigs \<Rightarrow> bool" where
  "sig_init s \<longleftrightarrow> sig_counter s = SIGRTMIN \<and> (\<forall>t. sig_pc_of s t = Outside)"

section \<open>Invariants\<close>

text \<open>While no thread tears down: numbers are handed out once, below the counter, and the counter
  stays in range; a loaded value is never above the counter nor the last one.\<close>

definition setup_inv :: "sigs \<Rightarrow> bool" where
  "setup_inv s \<longleftrightarrow> SIGRTMIN \<le> sig_counter s \<and> sig_counter s \<le> SIGRTMAX \<and>
     (\<forall>t cur. sig_pc_of s t = Loaded cur \<longrightarrow> cur \<noteq> SIGRTMAX) \<and>
     (\<forall>t cur. sig_pc_of s t = Holding cur \<longrightarrow> SIGRTMIN \<le> cur \<and> cur < sig_counter s) \<and>
     (\<forall>t u cur. sig_pc_of s t = Holding cur \<longrightarrow> sig_pc_of s u = Holding cur \<longrightarrow> t = u)"

lemma setup_step_inv: "setup_inv s \<Longrightarrow> setup_step s s' \<Longrightarrow> setup_inv s'"
proof (erule setup_stepE)
  fix t assume inv: "setup_inv s" and s': "s' = sig_load t s" and pc: "sig_pc_of s t = Outside"
  show "setup_inv s'"
    using inv pc unfolding s' setup_inv_def sig_load_def Let_def by (auto split: if_splits)
next
  fix t cur assume inv: "setup_inv s" and s': "s' = sig_exchange t cur s" and pc: "sig_pc_of s t = Loaded cur"
  show "setup_inv s'"
  proof (cases "sig_counter s = cur")
    case True
    then show ?thesis using inv pc unfolding s' setup_inv_def sig_exchange_def
      by (auto split: if_splits) fastforce+
  next
    case False
    then show ?thesis using inv pc unfolding s' setup_inv_def sig_exchange_def
      by (auto split: if_splits)
  qed
qed

lemma sig_init_inv: "sig_init s \<Longrightarrow> setup_inv s"
  by (simp add: sig_init_def setup_inv_def SIGRTMIN_def SIGRTMAX_def)

interpretation sig: invariant_system sig_init setup_step setup_inv
  by unfold_locales (auto intro: sig_init_inv setup_step_inv)

section \<open>Properties\<close>

text \<open>C27. Under every interleaving of the compare-and-swap loops of any number of threads, as long as
  none tears down, no two threads hold the same signal number, and every number held lies in the
  real-time range below the last one.\<close>

theorem signal_ids_distinct:
  assumes "reachable sig_init setup_step s" "sig_pc_of s t = Holding i"
  shows "SIGRTMIN \<le> i \<and> i < SIGRTMAX \<and> (\<forall>u j. u \<noteq> t \<longrightarrow> sig_pc_of s u = Holding j \<longrightarrow> j \<noteq> i)"
  using sig.inv_reachable [OF assms(1)] assms(2) unfolding setup_inv_def by fastforce

definition sigs0 :: sigs where
  "sigs0 = \<lparr>sig_counter = SIGRTMIN, sig_pc_of = (\<lambda>_. Outside)\<rparr>"

lemma reach_sigs0: "reachable sig_init R sigs0"
  by (rule reach_init) (simp add: sig_init_def sigs0_def)

text \<open>One thread alone: load and exchange give it the counter's value.\<close>

definition setup_alone :: "nat \<Rightarrow> sigs \<Rightarrow> sigs" where
  "setup_alone t s = sig_exchange t (sig_counter s) (sig_load t s)"

lemma setup_alone_eq:
  "sig_counter s \<noteq> SIGRTMAX \<Longrightarrow> setup_alone t s =
     s\<lparr>sig_counter := sig_counter s + 1, sig_pc_of := (sig_pc_of s)(t := Holding (sig_counter s))\<rparr>"
  by (simp add: setup_alone_def sig_load_def sig_exchange_def Let_def)

lemma setup_alone_reach:
  assumes "reachable sig_init R s" "\<And>a b. setup_step a b \<Longrightarrow> R a b"
    and "sig_pc_of s t = Outside" "sig_counter s \<noteq> SIGRTMAX"
  shows "reachable sig_init R (setup_alone t s)"
proof -
  have "setup_step s (sig_load t s)" by (rule step_load [OF assms(3)])
  moreover have "sig_pc_of (sig_load t s) t = Loaded (sig_counter s)"
    using assms(4) by (simp add: sig_load_def Let_def)
  then have "setup_step (sig_load t s) (setup_alone t s)"
    unfolding setup_alone_def by (rule step_exchange)
  ultimately show ?thesis using assms(1,2) by (meson reach_step)
qed

theorem signal_ids_distinct_witness:
  "sig_pc_of (setup_alone 1 (setup_alone 0 sigs0)) 1 = Holding 35 \<and>
   sig_pc_of (setup_alone 1 (setup_alone 0 sigs0)) 0 \<noteq> Holding 35"
proof -
  let ?s = "setup_alone 1 (setup_alone 0 sigs0)"
  have r: "reachable sig_init setup_step ?s"
    by (intro setup_alone_reach reach_sigs0)
      (simp_all add: setup_alone_eq sigs0_def SIGRTMIN_def SIGRTMAX_def)
  have h: "sig_pc_of ?s 1 = Holding 35"
    by (simp add: setup_alone_eq sigs0_def SIGRTMIN_def SIGRTMAX_def)
  show ?thesis using signal_ids_distinct [OF r h] h by (metis zero_neq_one)
qed

text \<open>The teardown gives back the newest number, not the thread's own: after the first of two
  threads has left, a third gets the number that the second still holds.\<close>

lemma signal_id_handed_out_twice:
  "\<exists>s t u i. reachable sig_init sig_step s \<and> t \<noteq> u \<and> sig_pc_of s t = Holding i \<and> sig_pc_of s u = Holding i"
proof -
  let ?s2 = "setup_alone 1 (setup_alone 0 sigs0)"
  let ?s3 = "sig_teardown 0 ?s2"
  let ?s4 = "setup_alone 2 ?s3"
  have "reachable sig_init sig_step ?s2"
    by (intro setup_alone_reach reach_sigs0)
      (simp_all add: setup_alone_eq sigs0_def SIGRTMIN_def SIGRTMAX_def sig_step.step_setup)
  moreover have "sig_pc_of ?s2 0 = Holding 34"
    by (simp add: setup_alone_eq sigs0_def SIGRTMIN_def SIGRTMAX_def)
  ultimately have "reachable sig_init sig_step ?s3" by (meson reach_step step_teardown)
  then have "reachable sig_init sig_step ?s4"
    by (rule setup_alone_reach)
      (simp_all add: setup_alone_eq sig_teardown_def sigs0_def SIGRTMIN_def SIGRTMAX_def sig_step.step_setup)
  moreover have "sig_pc_of ?s4 1 = Holding 35" "sig_pc_of ?s4 2 = Holding 35"
    by (simp_all add: setup_alone_eq sig_teardown_def sigs0_def SIGRTMIN_def SIGRTMAX_def)
  ultimately show ?thesis by (metis numeral_One numeral_eq_iff semiring_norm(85))
qed

text \<open>A thread that got no number gives one back as well: with more threads than numbers the counter ends
  below the range, and the next thread gets a number that is no real-time signal.\<close>

definition sig_state :: "int \<Rightarrow> nat \<Rightarrow> (nat \<Rightarrow> sig_pc) \<Rightarrow> sigs" where
  "sig_state n k pc = \<lparr>sig_counter = n, sig_pc_of = (\<lambda>t. if t < k then pc t else Outside)\<rparr>"

lemma sig_state_setup:
  assumes "reachable sig_init sig_step (sig_state n k pc)" "n \<noteq> SIGRTMAX"
  shows "reachable sig_init sig_step (sig_state (n + 1) (Suc k) (pc(k := Holding n)))"
proof -
  have "setup_alone k (sig_state n k pc) = sig_state (n + 1) (Suc k) (pc(k := Holding n))"
    using assms(2) by (auto simp: setup_alone_eq sig_state_def fun_eq_iff less_Suc_eq)
  moreover have "reachable sig_init sig_step (setup_alone k (sig_state n k pc))"
    by (rule setup_alone_reach [OF assms(1)]) (use assms(2) in \<open>simp_all add: sig_state_def sig_step.step_setup\<close>)
  ultimately show ?thesis by simp
qed

lemma sig_state_all:
  "int k \<le> SIGRTMAX - SIGRTMIN \<Longrightarrow> reachable sig_init sig_step (sig_state (SIGRTMIN + int k) k (\<lambda>t. Holding (SIGRTMIN + int t)))"
proof (induction k)
  case 0
  then show ?case by (intro reach_init) (simp add: sig_init_def sig_state_def)
next
  case (Suc k)
  then have "reachable sig_init sig_step (sig_state (SIGRTMIN + int k + 1) (Suc k)
      ((\<lambda>t. Holding (SIGRTMIN + int t))(k := Holding (SIGRTMIN + int k))))"
    by (intro sig_state_setup) simp_all
  then show ?case by (simp add: fun_upd_idem add.commute add.left_commute)
qed

lemma sig_state_teardowns:
  assumes "reachable sig_init sig_step (sig_state n k pc)" "\<And>t. t < k \<Longrightarrow> pc t = Skipped \<or> (\<exists>i. pc t = Holding i)"
  shows "j \<le> k \<Longrightarrow> reachable sig_init sig_step (sig_state (n - int j) k (\<lambda>t. if t < j then Gone else pc t))"
proof (induction j)
  case (Suc j)
  let ?s = "sig_state (n - int j) k (\<lambda>t. if t < j then Gone else pc t)"
  have "sig_pc_of ?s j = Skipped \<or> (\<exists>i. sig_pc_of ?s j = Holding i)" using assms(2) [of j] Suc.prems by (simp add: sig_state_def)
  then have "sig_step ?s (sig_teardown j ?s)" by (blast intro: step_teardown)
  moreover have "sig_teardown j ?s = sig_state (n - int (Suc j)) k (\<lambda>t. if t < Suc j then Gone else pc t)"
    using Suc.prems by (auto simp: sig_teardown_def sig_state_def fun_eq_iff less_Suc_eq)
  ultimately show ?case using Suc by (metis Suc_leD reach_step)
qed (use assms(1) in simp)

lemma signal_id_below_range:
  "\<exists>s t i. reachable sig_init sig_step s \<and> sig_pc_of s t = Holding i \<and> i < SIGRTMIN"
proof -
  let ?pc = "\<lambda>t. Holding (SIGRTMIN + int t)"
  have "reachable sig_init sig_step (sig_state SIGRTMAX 30 ?pc)"
    using sig_state_all [of 30] by (simp add: SIGRTMIN_def SIGRTMAX_def)
  moreover have "sig_step (sig_state SIGRTMAX 30 ?pc) (sig_load 30 (sig_state SIGRTMAX 30 ?pc))"
    by (intro step_setup step_load) (simp add: sig_state_def)
  moreover have "sig_load 30 (sig_state SIGRTMAX 30 ?pc) = sig_state SIGRTMAX 31 (?pc(30 := Skipped))"
    by (auto simp: sig_load_def sig_state_def fun_eq_iff)
  ultimately have "reachable sig_init sig_step (sig_state SIGRTMAX 31 (?pc(30 := Skipped)))" by (metis reach_step)
  then have "reachable sig_init sig_step (sig_state (SIGRTMAX - int 31) 31 (\<lambda>t. if t < 31 then Gone else (?pc(30 := Skipped)) t))"
    by (rule sig_state_teardowns) auto
  then have "reachable sig_init sig_step (sig_state 34 32 ((\<lambda>t. if t < 31 then Gone else (?pc(30 := Skipped)) t)(31 := Holding 33)))"
    using sig_state_setup [of 33 31] by (simp add: SIGRTMAX_def)
  then show ?thesis by (intro exI [of _ "sig_state 34 32 _"] exI [of _ 31] exI [of _ 33]) (auto simp: sig_state_def SIGRTMIN_def)
qed

end
