(* ===== verification/Worker.thy ===== *)
theory Worker
  imports Manager Signals
begin

text \<open>
  The worker of a server (\<open>WorkerRun\<close> of \<open>src/src/Manager.cc\<close>) and what surrounds it: signal setup,
  the registration of the socket with the callback that receives, tokenizes and processes, the
  loop around the event manager, the removal of the socket, and the destructors of the manager that
  the worker owns. The loop may run for ever, so it is a partial function whose result \<open>None\<close> means
  that it does not return.
\<close>

section \<open>State\<close>

text \<open>The manager with the signal counter it shares with other threads and the local \<open>r\<close>, which the
  callback captures by reference.\<close>

record 'cb worker = "'cb server" +
  sig_id :: int
  run_flag :: bool

text \<open>The one callback that the program registers.\<close>

datatype worker_cb = OnMessage

type_synonym 'a wstate = "(worker_cb, 'a) worker_scheme"

section \<open>Signals\<close>

text \<open>\<open>SetupSignalDelivery\<close> when no other thread interferes with the exchange.\<close>

definition SetupSignalDelivery :: "string \<Rightarrow> (('cb, 'a) worker_scheme, unit) cpp" where
  "SetupSignalDelivery server_name =
     cbind (cget sig_id) (\<lambda>cur_sig_id.
       if cur_sig_id = SIGRTMAX then cret ()
       else
         cseq (cmod (\<lambda>s. s\<lparr>sig_id := cur_sig_id + 1\<rparr>))
         (cseq (cmod (log_io (EvSigmask cur_sig_id)))
           (cmod (log_io (EvSetName (c_str (thread_name cur_sig_id server_name)))))))"

definition TearDownSignalDelivery :: "(('cb, 'a) worker_scheme, unit) cpp" where
  "TearDownSignalDelivery = cmod (\<lambda>s. s\<lparr>sig_id := sig_id s - 1\<rparr>)"

section \<open>The callback\<close>

fun process_lines :: "env \<Rightarrow> ('cb, 'a) worker_scheme plugin_code \<Rightarrow> string list \<Rightarrow>
    (('cb, 'a) worker_scheme, unit) cpp" where
  "process_lines e P [] = cret ()"
| "process_lines e P (l # ls) =
     cbind (ProcessMessageLine e P l) (\<lambda>b.
     cseq (cmod (\<lambda>s. s\<lparr>run_flag := b\<rparr>)) (process_lines e P ls))"

definition worker_callback :: "env \<Rightarrow> ('cb, 'a) worker_scheme plugin_code \<Rightarrow>
    (('cb, 'a) worker_scheme, unit) cpp" where
  "worker_callback e P =
     cbind (cget irc_fd) (\<lambda>fd.
     cbind (RecvMsg e fd) (\<lambda>msg.
       if msg = [] then cret ()
       else process_lines e P (TokenizeMessageMultiple msg)))"

fun worker_runner :: "env \<Rightarrow> 'a wstate plugin_code \<Rightarrow> worker_cb \<Rightarrow> epoll_event option \<Rightarrow>
    ('a wstate, unit) cpp" where
  "worker_runner e P OnMessage ev = worker_callback e P"

section \<open>The loop\<close>

partial_function (option) worker_loop :: "env \<Rightarrow> 'a wstate plugin_code \<Rightarrow> 'a wstate \<Rightarrow>
    (unit result \<times> 'a wstate) option" where
  "worker_loop e P s =
     (if run_flag s then
        (case RunEventLoop e (worker_runner e P) (-1) s of
           None \<Rightarrow> None
         | Some (Inl err, t) \<Rightarrow> Some (Inl err, t)
         | Some (Inr k, t) \<Rightarrow> if k < 0 then Some (Inr (), t) else worker_loop e P t)
      else Some (Inr (), s))"

text \<open>The part of \<open>WorkerRun\<close> before the loop. The result of \<open>RegisterFd\<close> is ignored.\<close>

definition worker_setup :: "env \<Rightarrow> ('a wstate, unit) cpp" where
  "worker_setup e =
     cseq (SetState kConnected)
     (cbind (cget address) (\<lambda>addr.
      cseq (SetupSignalDelivery addr)
      (cseq (cmod (\<lambda>s. s\<lparr>run_flag := True\<rparr>))
      (cbind (cget irc_fd) (\<lambda>fd.
       cbind (RegisterFd e fd EPOLLIN OnMessage 0) (\<lambda>_. cret ()))))))"

definition WorkerRun :: "env \<Rightarrow> 'a wstate plugin_code \<Rightarrow> 'a wstate \<Rightarrow> (unit result \<times> 'a wstate) option" where
  "WorkerRun e P s0 =
     (case worker_setup e s0 of
        (Inl err, s) \<Rightarrow> Some (Inl err, snd (TearDownSignalDelivery s))
      | (Inr _, s) \<Rightarrow>
          (case worker_loop e P s of
             None \<Rightarrow> None
           | Some (Inl err, t) \<Rightarrow> Some (Inl err, snd (TearDownSignalDelivery t))
           | Some (Inr _, t) \<Rightarrow>
               Some (cbind (cget irc_fd) (\<lambda>fd.
                     cbind (DeleteFd e fd) (\<lambda>_. TearDownSignalDelivery)) t)))"

section \<open>Destructors\<close>

text \<open>\<open>~Server\<close> sends QUIT; then the members go, \<open>plugins_map\<close> with the handles in it among them,
  and the base class closes the socket.\<close>

fun close_plugins :: "string list \<Rightarrow> (('cb, 'a) server_scheme, unit) cpp" where
  "close_plugins [] = cret ()"
| "close_plugins (k # ks) =
     cbind (cget plugins_map) (\<lambda>m.
     cseq (cmod (\<lambda>s. s\<lparr>plugins_map := fm_erase k (plugins_map s)\<rparr>))
     (cseq (CloseHandle (case m k of Some h \<Rightarrow> h | None \<Rightarrow> None)) (close_plugins ks)))"

definition Server_dtor :: "env \<Rightarrow> (('cb, 'a) server_scheme, unit) cpp" where
  "Server_dtor e =
     cbind (cget irc_fd) (\<lambda>fd.
     cbind (IRC_Quit e fd ''Goodbye cruel world!'') (\<lambda>_.
     cbind (cget plugins_map) (\<lambda>m.
     cseq (close_plugins (map_order e (dom m))) (IRC_dtor fd))))"

text \<open>\<open>~Manager\<close>: the member \<open>server\<close>, then the base class.\<close>

definition Manager_dtor :: "env \<Rightarrow> ('cb \<Rightarrow> epoll_event option \<Rightarrow> (('cb, 'a) server_scheme, unit) cpp) \<Rightarrow>
    (('cb, 'a) server_scheme, unit) cpp" where
  "Manager_dtor e run = cseq (Server_dtor e) (EpollManager_dtor run)"

section \<open>A batch of lines\<close>

lemma process_lines_append:
  "process_lines e P (ls @ ls') = cseq (process_lines e P ls) (process_lines e P ls')"
proof (induction ls)
  case (Cons l ls)
  then show ?case by (simp add: cseq_def cbind_def fun_eq_iff split: prod.split sum.split)
next
  case Nil
  then show ?case by (simp add: cseq_def cbind_def fun_eq_iff)
qed

lemma process_lines_last:
  assumes "process_lines e P (ls @ [l]) s = (Inr (), t)"
  shows "\<exists>u b t'. ProcessMessageLine e P l u = (Inr b, t') \<and> t = t'\<lparr>run_flag := b\<rparr>"
proof -
  obtain r u where u: "process_lines e P ls s = (r, u)" by fastforce
  with assms have r: "r = Inr ()" by (cases r) (simp_all add: process_lines_append)
  obtain r' t' where t': "ProcessMessageLine e P l u = (r', t')" by fastforce
  then show ?thesis using assms u r
    by (cases r') (auto simp: process_lines_append intro!: exI [of _ u])
qed

section \<open>Rounds of the loop\<close>

text \<open>One round: the flag is up and the event loop returned normally.\<close>

definition worker_round :: "env \<Rightarrow> 'a wstate plugin_code \<Rightarrow> 'a wstate \<Rightarrow> 'a wstate \<Rightarrow> bool" where
  "worker_round e P s t \<longleftrightarrow> run_flag s \<and>
     (\<exists>k \<ge> 0. RunEventLoop e (worker_runner e P) (-1) s = Some (Inr k, t))"

definition worker_exit :: "env \<Rightarrow> 'a wstate plugin_code \<Rightarrow> 'a wstate \<Rightarrow> unit result \<Rightarrow> 'a wstate \<Rightarrow> bool" where
  "worker_exit e P s r t \<longleftrightarrow>
     (\<not> run_flag s \<and> r = Inr () \<and> t = s) \<or>
     (run_flag s \<and> r = Inr () \<and> (\<exists>k < 0. RunEventLoop e (worker_runner e P) (-1) s = Some (Inr k, t))) \<or>
     (run_flag s \<and> (\<exists>err. r = Inl err \<and> RunEventLoop e (worker_runner e P) (-1) s = Some (Inl err, t)))"

lemma worker_loop_round: "worker_round e P s t \<Longrightarrow> worker_loop e P s = worker_loop e P t"
  by (subst worker_loop.simps) (auto simp: worker_round_def)

lemma worker_loop_exit: "worker_exit e P s r t \<Longrightarrow> worker_loop e P s = Some (r, t)"
  by (subst worker_loop.simps) (auto simp: worker_exit_def)

lemma worker_loop_rounds: "(worker_round e P)\<^sup>*\<^sup>* s u \<Longrightarrow> worker_loop e P s = worker_loop e P u"
  by (induction rule: rtranclp_induct) (simp_all add: worker_loop_round)

lemma worker_loop_run:
  assumes "worker_loop e P s = Some (r, t)"
  shows "\<exists>u. (worker_round e P)\<^sup>*\<^sup>* s u \<and> worker_exit e P u r t"
proof -
  have "\<exists>u. (worker_round e P)\<^sup>*\<^sup>* s u \<and> worker_exit e P u (fst y) (snd y)"
    if "worker_loop e P s = Some y" for y
  proof (rule worker_loop.raw_induct [of "\<lambda>x y. case x of ((e, P), s) \<Rightarrow>
        \<exists>u. (worker_round e P)\<^sup>*\<^sup>* s u \<and> worker_exit e P u (fst y) (snd y)",
        unfolded prod.case, OF _ that])
    fix rec e P s y
    assume IH: "\<And>e P s y. rec e P s = Some y \<Longrightarrow>
        \<exists>u. (worker_round e P)\<^sup>*\<^sup>* s u \<and> worker_exit e P u (fst y) (snd y)"
      and body: "(if run_flag s then
        (case RunEventLoop e (worker_runner e P) (-1) s of
           None \<Rightarrow> None
         | Some (Inl err, t) \<Rightarrow> Some (Inl err, t)
         | Some (Inr k, t) \<Rightarrow> if k < 0 then Some (Inr (), t) else rec e P t)
      else Some (Inr (), s)) = Some y"
    show "\<exists>u. (worker_round e P)\<^sup>*\<^sup>* s u \<and> worker_exit e P u (fst y) (snd y)"
    proof (cases "\<exists>k t. run_flag s \<and> RunEventLoop e (worker_runner e P) (-1) s = Some (Inr k, t) \<and> 0 \<le> k")
      case True
      then obtain k t where k: "run_flag s" "RunEventLoop e (worker_runner e P) (-1) s = Some (Inr k, t)" "0 \<le> k"
        by blast
      then have "rec e P t = Some y" using body by simp
      moreover have "worker_round e P s t" using k by (auto simp: worker_round_def)
      ultimately show ?thesis using IH by (meson converse_rtranclp_into_rtranclp)
    next
      case False
      then have "worker_exit e P s (fst y) (snd y)" using body
        by (auto simp: worker_exit_def not_le split: if_splits option.splits sum.splits prod.splits)
      then show ?thesis by blast
    qed
  qed
  then show ?thesis using assms by fastforce
qed

section \<open>The event table during a batch\<close>

text \<open>What the event loop relies on while callbacks run: the table, the descriptors, the static
  callbacks, the kernel's interest list, and what has been closed.\<close>

definition loop_frame :: "('cb, 'a) worker_scheme \<Rightarrow> _" where
  "loop_frame s = (fd_map s, em_fd s, irc_fd s, ev_pre s, ev_post s, ev_exit s, interest (em_fd s) (w_trace s),
     closes (w_trace s))"

lemma frame_log:
  "interest_step (em_fd s) ev (interest (em_fd s) (w_trace s)) = interest (em_fd s) (w_trace s) \<Longrightarrow>
     closes [ev] = [] \<Longrightarrow> loop_frame (log_io ev s) = loop_frame s"
  by (simp add: loop_frame_def log_io_def)

lemma frame_errno [simp]: "loop_frame (set_errno_if b en s) = loop_frame s"
  by (simp add: loop_frame_def set_errno_if_def)

lemma frame_io:
  "leaves loop_frame (sys_send e fd d)" "leaves loop_frame (sys_recv e fd n)"
  "leaves loop_frame (sys_dlopen e path)" "leaves loop_frame (sys_dlclose h)"
  by (auto simp: leaves_def sys_send_def sys_recv_def sys_dlopen_def sys_dlclose_def frame_log Let_def
      split: prod.split)

interpretation loop: io_untouched loop_frame
  by unfold_locales (simp_all add: frame_io, simp_all add: loop_frame_def)

lemma frame_recv_loop: "leaves loop_frame (recv_loop e fd tries buf)"
proof (induction tries arbitrary: buf)
  case 0
  show ?case unfolding recv_loop.simps [of e fd 0]
    by (auto intro!: leaves_cbind leaves_basic frame_io split: recv_result.split)
next
  case (Suc tries)
  then show ?case unfolding recv_loop.simps [of e fd "Suc tries"]
    by (auto intro!: leaves_cbind leaves_basic frame_io split: recv_result.split)
qed

lemma frame_process_lines: "leaves loop_frame (process_lines e (version_plugin e a) ls)"
proof (induction ls)
  case (Cons l ls)
  have "leaves loop_frame (cmod (\<lambda>s. s\<lparr>run_flag := b\<rparr>))" for b by (simp add: leaves_def loop_frame_def)
  then show ?case using Cons by (auto intro!: leaves_cbind leaves_cseq loop.process_line)
qed (simp only: process_lines.simps leaves_basic)

lemma frame_callback: "leaves loop_frame (worker_callback e (version_plugin e a))"
  unfolding worker_callback_def RecvMsg_def
  by (auto intro!: leaves_cbind leaves_basic frame_recv_loop frame_process_lines split: option.split)

lemma process_lines_failures: "raises (line_failure e) (process_lines e (version_plugin e a) ls)"
  by (induction ls)
    (simp_all only: process_lines.simps raises_basic raises_cbind raises_cseq ProcessMessageLine_version)

lemma callback_failures: "raises (line_failure e) (worker_callback e (version_plugin e a))"
  unfolding worker_callback_def
proof (intro raises_cbind raises_basic)
  show "raises (line_failure e) (RecvMsg e fd)" for fd
    by (rule raises_total) (use RecvMsg_run in blast)
  show "raises (line_failure e) (if msg = [] then cret ()
      else process_lines e (version_plugin e a) (TokenizeMessageMultiple msg))" for msg
    by (simp add: raises_basic process_lines_failures)
qed

lemma process_lines_return:
  assumes "ndebug e" "\<And>h symbol. os_dlsym e h symbol \<noteq> None"
  shows "\<exists>t. process_lines e (version_plugin e a) ls s = (Inr (), t)"
proof (induction ls arbitrary: s)
  case (Cons l ls)
  obtain b t where "ProcessMessageLine e (version_plugin e a) l s = (Inr b, t)"
    using ProcessMessageLine_returns [OF assms] by blast
  then show ?case using Cons [of "t\<lparr>run_flag := b\<rparr>"] by simp
qed simp

lemma callback_returns:
  assumes "ndebug e" "\<And>h symbol. os_dlsym e h symbol \<noteq> None"
  shows "\<exists>t. worker_callback e (version_plugin e a) s = (Inr (), t)"
proof -
  obtain r t where "RecvMsg e (irc_fd s) s = (Inr r, t)" using RecvMsg_run [of e "irc_fd s" s] by blast
  then show ?thesis using process_lines_return [OF assms, of a "TokenizeMessageMultiple r" t]
    by (auto simp: worker_callback_def)
qed

section \<open>How a round ends\<close>

text \<open>Documented behaviour of \<open>epoll_wait(2)\<close>: events are reported for registered descriptors only.\<close>

definition wait_reports_registered :: "env \<Rightarrow> bool" where
  "wait_reports_registered e \<longleftrightarrow> (\<forall>tr ep n timeout evs. os_epoll_wait e tr ep n timeout = WaitEvents evs \<longrightarrow>
     (\<forall>ev \<in> set evs. ev_fd ev \<in> interest ep tr))"

definition loop_ok :: "('cb, 'a) worker_scheme \<Rightarrow> bool" where
  "loop_ok s \<longleftrightarrow> ev_pre s = [] \<and> ev_post s = [] \<and> epoll_inv s"

lemma loop_ok_frame: "loop_ok s \<Longrightarrow> loop_frame t = loop_frame s \<Longrightarrow> loop_ok t"
  by (auto simp: loop_ok_def epoll_inv_def loop_frame_def)

lemma wait_loop_frame:
  assumes "wait_reports_registered e" "wait_loop e n timeout s = Some (r, t)"
  shows "loop_frame t = loop_frame s \<and>
    (\<forall>evs. r = WaitEvents evs \<longrightarrow> (\<forall>ev \<in> set evs. ev_fd ev \<in> interest (em_fd s) (w_trace s)))"
proof -
  let ?Q = "\<lambda>e (s :: ('a, 'b) worker_scheme) y. wait_reports_registered e \<longrightarrow>
    loop_frame (snd y) = loop_frame s \<and>
    (\<forall>evs. fst y = WaitEvents evs \<longrightarrow> (\<forall>ev \<in> set evs. ev_fd ev \<in> interest (em_fd s) (w_trace s)))"
  have "?Q e s (r, t)"
  proof (rule wait_loop.raw_induct [of "\<lambda>e n timeout s y. ?Q e s y", OF _ assms(2)], intro impI)
    fix rec e n timeout y and s :: "('a, 'b) worker_scheme"
    assume IH: "\<And>e n timeout s y. rec e n timeout s = Some y \<Longrightarrow> ?Q e s y"
      and body: "(let r = os_epoll_wait e (w_trace s) (em_fd s) n timeout;
          s' = snd (sys_epoll_wait e (em_fd s) n timeout s)
        in if r = WaitErr EINTR then rec e n timeout s' else Some (r, s')) = Some y"
      and w: "wait_reports_registered e"
    let ?r = "os_epoll_wait e (w_trace s) (em_fd s) n timeout"
    let ?s = "snd (sys_epoll_wait e (em_fd s) n timeout s)"
    have fr: "loop_frame ?s = loop_frame s" by (simp add: sys_epoll_wait_def Let_def frame_log)
    show "loop_frame (snd y) = loop_frame s \<and>
      (\<forall>evs. fst y = WaitEvents evs \<longrightarrow> (\<forall>ev \<in> set evs. ev_fd ev \<in> interest (em_fd s) (w_trace s)))"
    proof (cases "?r = WaitErr EINTR")
      case True
      then have "?Q e ?s y" using body IH by (simp add: Let_def)
      then show ?thesis using w fr by (auto simp: loop_frame_def)
    next
      case False
      then have "y = (?r, ?s)" using body by (simp add: Let_def)
      then show ?thesis using fr w by (auto simp: wait_reports_registered_def)
    qed
  qed
  then show ?thesis using assms(1) by simp
qed

lemma dispatch_outcome:
  assumes "leaves loop_frame (worker_callback e P)" "raises E (worker_callback e P)"
    and "\<forall>ev \<in> set evs. fd_map s (ev_fd ev) \<noteq> None"
    and "dispatch_events e (worker_runner e P) evs s = (r, t)"
  shows "(\<forall>err. r = Inl err \<longrightarrow> E err) \<and> loop_frame t = loop_frame s"
  using assms(3,4)
proof (induction evs arbitrary: s)
  case (Cons ev evs)
  then obtain ctx where ctx: "fd_map s (ev_fd ev) = Some ctx" by auto
  let ?m = "if ctx_enabled ctx then worker_runner e P (ctx_cb ctx) (Some ev) else cret ()"
  obtain x u where u: "?m s = (x, u)" by fastforce
  have "leaves loop_frame ?m" "raises E ?m"
    using assms(1,2) by (cases "ctx_cb ctx"; simp add: leaves_basic raises_basic)+
  then have fr: "loop_frame u = loop_frame s" and x: "\<And>err. x = Inl err \<Longrightarrow> E err"
    using leavesD [of loop_frame ?m s x u] raisesD [of E ?m s _ u] u by blast+
  show ?case
  proof (cases x)
    case (Inl err)
    then show ?thesis using Cons.prems(2) ctx u fr x by (auto simp: cbind_apply cseq_def)
  next
    case (Inr y)
    have "\<forall>ev \<in> set evs. fd_map u (ev_fd ev) \<noteq> None"
      using Cons.prems(1) fr by (simp add: loop_frame_def)
    from Cons.IH [OF this] show ?thesis using Cons.prems(2) ctx u fr Inr by (auto simp: cbind_apply cseq_def)
  qed
qed auto

lemma RunEventLoop_outcome:
  assumes "wait_reports_registered e" "loop_ok s"
    and "leaves loop_frame (worker_callback e P)" "raises E (worker_callback e P)"
    and "\<And>w. \<not> ndebug e \<Longrightarrow> E (Abort w)"
    and "RunEventLoop e (worker_runner e P) timeout s = Some (r, t)"
  shows "(\<forall>err. r = Inl err \<longrightarrow> E err) \<and> loop_frame t = loop_frame s"
proof -
  have pre: "ev_pre s = []" using assms(2) by (simp add: loop_ok_def)
  then obtain w u where w: "wait_loop e (card (dom (fd_map s))) timeout s = Some (w, u)"
    using assms(6) by (auto simp: RunEventLoop_def cbind_apply split: option.splits)
  from wait_loop_frame [OF assms(1) w] have fr: "loop_frame u = loop_frame s"
    and evs: "\<And>evs ev. w = WaitEvents evs \<Longrightarrow> ev \<in> set evs \<Longrightarrow> ev_fd ev \<in> interest (em_fd s) (w_trace s)"
    by auto
  show ?thesis
  proof (cases w)
    case (WaitErr en)
    then show ?thesis using assms(6) pre w fr by (auto simp: RunEventLoop_def cbind_apply)
  next
    case (WaitEvents es)
    have "interest (em_fd s) (w_trace s) = enabled_fds (fd_map s)" "fd_map u = fd_map s"
      using assms(2) fr by (simp_all add: loop_ok_def epoll_inv_def loop_frame_def)
    then have reg: "\<forall>ev \<in> set es. fd_map u (ev_fd ev) \<noteq> None"
      using evs [OF WaitEvents] enabled_fds_entry(1) by metis
    obtain x t' where t': "dispatch_events e (worker_runner e P) es u = (x, t')" by fastforce
    from dispatch_outcome [OF assms(3,4) reg t'] have x: "\<And>err. x = Inl err \<Longrightarrow> E err" and fr': "loop_frame t' = loop_frame u"
      by auto
    have "ev_post t' = []" using fr' fr assms(2) by (simp add: loop_frame_def loop_ok_def)
    then show ?thesis using assms(5,6) pre w WaitEvents t' fr fr' x
      by (cases x) (auto simp: RunEventLoop_def cbind_apply cseq_def cpp_assert_def split: if_splits)
  qed
qed

lemma rounds_ok:
  assumes "wait_reports_registered e" "leaves loop_frame (worker_callback e P)"
    and "raises E (worker_callback e P)" "\<And>w. \<not> ndebug e \<Longrightarrow> E (Abort w)"
  shows "(worker_round e P)\<^sup>*\<^sup>* s u \<Longrightarrow> loop_ok s \<Longrightarrow> loop_ok u \<and> loop_frame u = loop_frame s"
proof (induction rule: rtranclp_induct)
  case (step t u)
  then obtain k where "RunEventLoop e (worker_runner e P) (-1) t = Some (Inr k, u)"
    by (auto simp: worker_round_def)
  then have "loop_frame u = loop_frame t" using RunEventLoop_outcome [OF assms(1) _ assms(2-4)] step by blast
  then show ?case using step loop_ok_frame [of t u] by auto
qed simp

lemma SetupSignalDelivery_run:
  "\<exists>t. SetupSignalDelivery name s = (Inr (), t) \<and> loop_frame t = loop_frame s"
  by (cases "sig_id s = SIGRTMAX")
    (simp_all add: SetupSignalDelivery_def cbind_apply cseq_def loop_frame_def log_io_def interest_def)

text \<open>What the worker never changes: its descriptors, the exit callbacks, and that nothing is closed.\<close>

definition fd_frame :: "('cb, 'a) worker_scheme \<Rightarrow> _" where
  "fd_frame s = (em_fd s, irc_fd s, ev_exit s, closes (w_trace s))"

lemma fd_frame_loop: "loop_frame t = loop_frame s \<Longrightarrow> fd_frame t = fd_frame s"
  by (simp add: loop_frame_def fd_frame_def)

lemma RegisterFd_run:
  "\<exists>b t. RegisterFd e fd evs cb cfg s = (Inr b, t) \<and> ev_pre t = ev_pre s \<and> ev_post t = ev_post s \<and>
     run_flag t = run_flag s \<and> fd_frame t = fd_frame s"
proof (cases "fd_map s fd")
  case None
  obtain r en where "os_epoll_ctl e (w_trace s) (em_fd s) EPOLL_CTL_ADD fd (evs OR cfg) = (r, en)" by fastforce
  with None show ?thesis
    by (cases "r < 0")
      (auto simp: RegisterFd_def sys_epoll_ctl_def cbind_apply cseq_def Let_def log_io_def set_errno_if_def fd_frame_def)
qed (auto simp: RegisterFd_def cbind_apply cseq_def fd_frame_def)

lemma worker_setup_run:
  assumes "loop_ok s"
  shows "\<exists>t. worker_setup e s = (Inr (), t) \<and> loop_ok t \<and> run_flag t \<and> fd_frame t = fd_frame s"
proof -
  let ?s0 = "s\<lparr>srv_state := kConnected\<rparr>"
  have f0: "loop_frame ?s0 = loop_frame s" by (simp add: loop_frame_def)
  obtain s1 where s1: "SetupSignalDelivery (address s) ?s0 = (Inr (), s1)" "loop_frame s1 = loop_frame ?s0"
    using SetupSignalDelivery_run by blast
  let ?s2 = "s1\<lparr>run_flag := True\<rparr>"
  have "loop_frame ?s2 = loop_frame s1" by (simp add: loop_frame_def)
  then have fr2: "loop_frame ?s2 = loop_frame s" using s1(2) f0 by simp
  then have ok2: "loop_ok ?s2" using assms loop_ok_frame by blast
  obtain b t where t: "RegisterFd e (irc_fd ?s2) EPOLLIN OnMessage 0 ?s2 = (Inr b, t)" "ev_pre t = ev_pre ?s2"
      "ev_post t = ev_post ?s2" "run_flag t" "fd_frame t = fd_frame ?s2"
    using RegisterFd_run [of e "irc_fd ?s2" EPOLLIN OnMessage 0 ?s2] by auto
  have "epoll_inv t"
    using RegisterFd_inv [of ?s2 e "irc_fd ?s2" EPOLLIN OnMessage 0] ok2 t(1) by (simp add: loop_ok_def)
  then have "loop_ok t" using t ok2 by (simp add: loop_ok_def)
  moreover have "worker_setup e s = (Inr (), t)"
    using s1(1) t(1) by (simp add: worker_setup_def SetState_def)
  moreover have "fd_frame t = fd_frame s" using t(5) fd_frame_loop [OF fr2] by simp
  ultimately show ?thesis using t(4) by blast
qed

lemma DeleteFd_run:
  "\<exists>b t. DeleteFd e fd s = (Inr b, t) \<and> fd_frame t = fd_frame s \<and> plugins_map t = plugins_map s \<and>
     (\<forall>h. handle_balance h (w_trace t) = handle_balance h (w_trace s))"
  by (cases "fd_map s fd")
    (auto simp: DeleteFd_def sys_epoll_ctl_def cbind_apply cseq_def fd_frame_def log_io_def set_errno_if_def
      split: prod.split)

text \<open>How \<open>WorkerRun\<close> can end when the version plugin is the plugin code that it calls.\<close>

lemma WorkerRun_outcome:
  assumes "wait_reports_registered e" "loop_ok s" "WorkerRun e (version_plugin e a) s = Some (r, t)"
  shows "(r = Inr () \<and> fd_frame t = fd_frame s) \<or> (\<exists>err. r = Inl err \<and> line_failure e err)"
proof -
  let ?P = "version_plugin e a"
  have db: "\<And>w. \<not> ndebug e \<Longrightarrow> line_failure e (Abort w)" by (simp add: line_failure_def)
  note cb = frame_callback [of e a] callback_failures [of e a] db
  obtain s1 where s1: "worker_setup e s = (Inr (), s1)" "loop_ok s1" "fd_frame s1 = fd_frame s"
    using worker_setup_run [OF assms(2)] by blast
  obtain r' t' where l: "worker_loop e ?P s1 = Some (r', t')"
    using assms(3) s1 by (auto simp: WorkerRun_def split: option.splits)
  then obtain u where u: "(worker_round e ?P)\<^sup>*\<^sup>* s1 u" "worker_exit e ?P u r' t'" using worker_loop_run by blast
  have ok: "loop_ok u" "loop_frame u = loop_frame s1" using rounds_ok [OF assms(1) cb u(1) s1(2)] by auto
  then have r': "\<And>err. r' = Inl err \<Longrightarrow> line_failure e err" "loop_frame t' = loop_frame u"
    using u(2) RunEventLoop_outcome [OF assms(1) ok(1) cb] by (auto simp: worker_exit_def)
  obtain b t2 where "DeleteFd e (irc_fd t') t' = (Inr b, t2)" "fd_frame t2 = fd_frame t'" using DeleteFd_run by blast
  then show ?thesis using assms(3) s1 l r' ok(2) fd_frame_loop [of t' s1]
    by (cases r') (auto simp: WorkerRun_def TearDownSignalDelivery_def cbind_apply, simp_all add: fd_frame_def)
qed

section \<open>A closed connection\<close>

text \<open>The state in which the worker keeps being woken up for nothing.\<close>

definition spinning :: "'a wstate \<Rightarrow> bool" where
  "spinning s \<longleftrightarrow> run_flag s \<and> ev_pre s = [] \<and> ev_post s = [] \<and>
     (\<exists>ctx. fd_map s (irc_fd s) = Some ctx \<and> ctx_enabled ctx)"

lemma RecvMsg_closed:
  assumes "\<And>tr n. os_recv e tr fd n = RecvData []"
  shows "RecvMsg e fd s = (Inr [], log_io (EvRecv fd (RecvData [])) s)"
proof -
  have "recv_loop e fd 5 [] s = (Inr None, log_io (EvRecv fd (RecvData [])) s)"
    using assms by (subst recv_loop.simps) (simp add: sys_recv_def Let_def set_errno_if_def)
  then show ?thesis by (simp add: RecvMsg_def)
qed

lemma RecvMsg_at_once:
  assumes "os_recv e (w_trace s) fd 4096 = RecvData (b @ [CR, LF])"
  shows "RecvMsg e fd s = (Inr (b @ [CR, LF]), log_io (EvRecv fd (RecvData (b @ [CR, LF]))) s)"
proof -
  have "recv_loop e fd 5 [] s = (Inr (Some (b @ [CR, LF])), log_io (EvRecv fd (RecvData (b @ [CR, LF]))) s)"
    using assms by (simp add: recv_loop.simps [of e fd 5] sys_recv_def Let_def set_errno_if_def)
  then show ?thesis by (simp add: RecvMsg_def str_at_def nth_append)
qed

lemma TokenizeMessageMultiple_single: "wf_line b \<Longrightarrow> TokenizeMessageMultiple (b @ [CR, LF]) = [b]"
  using line_pieces_lines [of "[b]"] by (simp add: TokenizeMessageMultiple_pieces c_str_id wf_line_def)

lemma woken_callback:
  assumes "os_epoll_wait e (w_trace s) (em_fd s) (card (dom (fd_map s))) (-1) =
      WaitEvents [\<lparr>ev_events = EPOLLIN, ev_fd = irc_fd s\<rparr>]" "spinning s"
    and "worker_callback e P (log_io (EvEpollWait (em_fd s) (card (dom (fd_map s))) (-1)
        (WaitEvents [\<lparr>ev_events = EPOLLIN, ev_fd = irc_fd s\<rparr>])) s) = (r, t)" "ev_post t = []"
  shows "RunEventLoop e (worker_runner e P) (-1) s = Some (map_sum id (\<lambda>_. 0) r, t)"
proof -
  obtain ctx where ctx: "fd_map s (irc_fd s) = Some ctx" "ctx_enabled ctx" "ctx_cb ctx = OnMessage"
    using assms(2) worker_cb.exhaust by (auto simp: spinning_def)
  let ?n = "card (dom (fd_map s))" and ?ev = "\<lparr>ev_events = EPOLLIN, ev_fd = irc_fd s\<rparr>"
  let ?w = "log_io (EvEpollWait (em_fd s) ?n (-1) (WaitEvents [?ev])) s"
  have "wait_loop e ?n (-1) s = Some (WaitEvents [?ev], ?w)"
    by (subst wait_loop.simps) (simp add: assms(1) sys_epoll_wait_def Let_def set_errno_if_def)
  moreover have "fd_map ?w = fd_map s" by (simp add: log_io_def)
  then have "dispatch_events e (worker_runner e P) [?ev] ?w = (r, t)"
    using ctx assms(3) by (cases r) (simp_all add: cbind_apply)
  ultimately show ?thesis using assms(2,4)
    by (cases r) (simp_all add: RunEventLoop_def spinning_def cbind_apply cseq_def)
qed

lemma woken_round:
  assumes "\<And>tr ep n timeout. os_epoll_wait e tr ep n timeout = WaitEvents [\<lparr>ev_events = EPOLLIN, ev_fd = irc_fd s\<rparr>]"
    and "spinning s"
    and "worker_callback e P (log_io (EvEpollWait (em_fd s) (card (dom (fd_map s))) (-1)
        (WaitEvents [\<lparr>ev_events = EPOLLIN, ev_fd = irc_fd s\<rparr>])) s) = (Inr (), t)" "ev_post t = []"
  shows "RunEventLoop e (worker_runner e P) (-1) s = Some (Inr 0, t)"
  using woken_callback [OF _ assms(2-4)] assms(1) by simp

lemma spinning_round:
  assumes "\<And>tr ep n timeout. os_epoll_wait e tr ep n timeout = WaitEvents [\<lparr>ev_events = EPOLLIN, ev_fd = irc_fd s\<rparr>]"
    and "\<And>tr n. os_recv e tr (irc_fd s) n = RecvData []" "spinning s"
  shows "\<exists>t. RunEventLoop e (worker_runner e P) (-1) s = Some (Inr 0, t) \<and> spinning t \<and> irc_fd t = irc_fd s"
proof -
  let ?w = "log_io (EvEpollWait (em_fd s) (card (dom (fd_map s))) (-1)
    (WaitEvents [\<lparr>ev_events = EPOLLIN, ev_fd = irc_fd s\<rparr>])) s"
  let ?t = "log_io (EvRecv (irc_fd s) (RecvData [])) ?w"
  have t: "spinning ?t" "irc_fd ?t = irc_fd s" using assms(3) by (simp_all add: spinning_def log_io_def)
  have "irc_fd ?w = irc_fd s" by (simp add: log_io_def)
  then have "worker_callback e P ?w = (Inr (), ?t)"
    using RecvMsg_closed [OF assms(2), of ?w] by (simp add: worker_callback_def)
  from woken_round [OF assms(1,3) this] t show ?thesis by (auto simp: spinning_def)
qed

lemma spinning_rounds:
  assumes "\<And>tr ep n timeout. os_epoll_wait e tr ep n timeout = WaitEvents [\<lparr>ev_events = EPOLLIN, ev_fd = irc_fd s\<rparr>]"
    and "\<And>tr n. os_recv e tr (irc_fd s) n = RecvData []" "spinning s"
  shows "(worker_round e P)\<^sup>*\<^sup>* s u \<Longrightarrow> spinning u \<and> irc_fd u = irc_fd s"
proof (induction rule: rtranclp_induct)
  case base
  then show ?case using assms(3) by simp
next
  case (step t u)
  then show ?case using spinning_round [of e t P] assms(1,2) by (auto simp: worker_round_def)
qed

section \<open>Shutting down\<close>

lemma close_plugins_run:
  assumes "owned_with None s"
  shows "\<exists>t. close_plugins ks s = (Inr (), t) \<and> owned_with None t \<and>
    dom (plugins_map t) = dom (plugins_map s) - set ks \<and>
    irc_fd t = irc_fd s \<and> em_fd t = em_fd s \<and> ev_exit t = ev_exit s \<and> closes (w_trace t) = closes (w_trace s)"
  using assms
proof (induction ks arbitrary: s)
  case (Cons k ks)
  let ?h = "case plugins_map s k of Some h \<Rightarrow> h | None \<Rightarrow> None"
  let ?e = "s\<lparr>plugins_map := fm_erase k (plugins_map s)\<rparr>"
  have "owned_with ?h ?e"
  proof (cases "plugins_map s k")
    case None
    then have "fm_erase k (plugins_map s) = plugins_map s" by (auto simp: fm_erase_def)
    then show ?thesis using Cons.prems None by (simp add: owned_with_def)
  next
    case (Some u)
    then show ?thesis using erase_gives [OF Cons.prems Some] by simp
  qed
  moreover obtain t where t: "CloseHandle ?h ?e = (Inr (), t)" using CloseHandle_run by blast
  ultimately have "owned_with None t"
    using CloseHandle_releases [of ?h "\<lambda>_. False"] by (auto simp: triple_def)
  moreover have "dom (plugins_map t) = dom (plugins_map s) - {k}" "irc_fd t = irc_fd s" "em_fd t = em_fd s"
      "ev_exit t = ev_exit s" "closes (w_trace t) = closes (w_trace s)"
    using t by (auto simp: CloseHandle_def sys_dlclose_def log_io_def split: option.splits if_splits)
  ultimately show ?case using Cons.IH [of t] t by (auto simp: cbind_apply)
qed simp

lemma IRC_Quit_run:
  "\<exists>r t. IRC_Quit e fd msg s = (Inr r, t) \<and> plugins_map t = plugins_map s \<and> irc_fd t = irc_fd s \<and>
     em_fd t = em_fd s \<and> ev_exit t = ev_exit s \<and> closes (w_trace t) = closes (w_trace s) \<and>
     (\<forall>h. handle_balance h (w_trace t) = handle_balance h (w_trace s))"
proof -
  obtain r en where "os_send e (w_trace s) fd (CR # ''QUIT '' @ msg @ [CR, LF]) = (r, en)" by fastforce
  then show ?thesis
    by (auto simp: IRC_Quit_def SendMsg_def sys_send_def sys_poll_def cbind_apply cseq_def log_io_def
        set_errno_if_def)
qed

lemma Manager_dtor_run:
  assumes "owned_with None s" "0 \<le> irc_fd s" "0 \<le> em_fd s" "ev_exit s = []"
    and "set (map_order e (dom (plugins_map s))) = dom (plugins_map s)"
  shows "\<exists>t tr. Manager_dtor e run s = (Inr (), t) \<and> (\<forall>h. handle_balance h (w_trace t) = 0) \<and>
    w_trace t = tr @ [EvClose (irc_fd s), EvClose (em_fd s)] \<and> closes tr = closes (w_trace s)"
proof -
  obtain r s1 where q: "IRC_Quit e (irc_fd s) ''Goodbye cruel world!'' s = (Inr r, s1)"
      "plugins_map s1 = plugins_map s" "irc_fd s1 = irc_fd s" "em_fd s1 = em_fd s" "ev_exit s1 = ev_exit s"
      "closes (w_trace s1) = closes (w_trace s)"
      "\<forall>h. handle_balance h (w_trace s1) = handle_balance h (w_trace s)"
    using IRC_Quit_run [of e "irc_fd s" "''Goodbye cruel world!''" s] by blast
  then have "owned_with None s1" using assms(1) by (simp add: owned_with_def)
  from close_plugins_run [OF this, of "map_order e (dom (plugins_map s))"] obtain s2 where
    s2: "close_plugins (map_order e (dom (plugins_map s))) s1 = (Inr (), s2)" "owned_with None s2"
      "plugins_map s2 = Map.empty" "irc_fd s2 = irc_fd s" "em_fd s2 = em_fd s" "ev_exit s2 = []"
      "closes (w_trace s2) = closes (w_trace s)"
    using q assms(4,5) by auto
  then have bal: "\<forall>h. handle_balance h (w_trace s2) = 0" by (simp add: owned_with_def entry_owners_def)
  show ?thesis using q s2 assms(2,3) bal
    by (auto simp: Manager_dtor_def Server_dtor_def IRC_dtor_def EpollManager_dtor_def sys_close_def log_io_def
        cbind_apply cseq_def)
qed

section \<open>Properties\<close>

definition worker0 :: "worker_cb worker" where
  "worker0 = \<lparr>w_trace = [], w_errno = 0, em_fd = 4, fd_map = Map.empty, ev_pre = [], ev_post = [],
     ev_exit = [], irc_fd = 3, srv_state = kSetup, address = ''irc'', port = 6667, chan_map = Map.empty,
     nickname = ''kbot'', user_command_map = Map.empty, plugins_map = Map.empty,
     sig_id = SIGRTMIN, run_flag = True\<rparr>"

lemma worker0_ok: "loop_ok worker0"
  by (simp add: loop_ok_def epoll_inv_def worker0_def)

text \<open>A server that repeats a user's \<open>,load version\<close> for ever, and a loader that opens the object but does
  not find the registration function in it. The kernel reports the socket while it is registered.\<close>

definition loading_env :: env where
  "loading_env = calm_env\<lparr>
     os_recv := \<lambda>_ _ _. RecvData ('':eve!e@h PRIVMSG #c :,load version'' @ [CR, LF]),
     os_epoll_wait := \<lambda>tr ep _ _. if 3 \<in> interest ep tr then WaitEvents [\<lparr>ev_events = EPOLLIN, ev_fd = 3\<rparr>] else WaitErr 9,
     os_dlsym := \<lambda>_ _. None\<rparr>"

lemma loading_env_simps [simp]:
  "ndebug loading_env" "os_dlsym loading_env h symbol = None" "os_dlopen loading_env tr path = Some 1"
  "os_cwd loading_env tr = Some ''/srv/kbot''" "os_epoll_ctl loading_env tr ep opn fd evs = (0, 0)"
  "os_recv loading_env tr fd n = RecvData ('':eve!e@h PRIVMSG #c :,load version'' @ [CR, LF])"
  "os_epoll_wait loading_env tr ep k timeout =
     (if 3 \<in> interest ep tr then WaitEvents [\<lparr>ev_events = EPOLLIN, ev_fd = 3\<rparr>] else WaitErr 9)"
  by (simp_all add: loading_env_def calm_env_def)

lemma load_line_fails:
  "\<exists>t. ProcessMessageLine loading_env P '':eve!e@h PRIVMSG #c :,load version'' s = (Inl (UB ''call of a null pointer''), t)"
proof -
  obtain m where m: "IRCMessage_new '':eve!e@h PRIVMSG #c :,load version'' DEFAULT_TYPE = Inr m"
      "source m = ''eve!e@h''" "command m = ''PRIVMSG''" "GetParameters m = [''#c'', '':,load'', ''version'']"
    using IRCMessage_new_render [of "[]" "''eve!e@h''" "''PRIVMSG''" "[''#c'', '':,load'', ''version'']"]
    by (auto simp: wf_command_def wf_word_def render_message_def)
  let ?m = "m\<lparr>message_type := PRIVMSG\<rparr>"
  have mv: "GetIRCMessageVariantFrom (ndebug loading_env) m = Inr (VPrivMsg ?m)"
    using accepted_variant [OF m(1), of loading_env] m
    by (simp add: spec_command_type_def spec_variant_def quit_requested_def owner_source_def)
  obtain x0 x1 x2 where x: "param_vec m = [x0, x1, x2]" "sv_contents (line m) x1 = '':,load''" "sv_contents (line m) x2 = ''version''"
    using m(4) by (auto simp: GetParameters_def map_eq_Cons_conv)
  have st: "static_command_map loading_env P '':,load'' = Some (UserCommandForward loading_env 1 1 (BuiltinCommandLoadPlugin loading_env P))"
    by (simp add: static_commands)
  have "\<exists>t. UserCommandForward loading_env 1 1 (BuiltinCommandLoadPlugin loading_env P) ?m s = (Inl (UB ''call of a null pointer''), t)"
    using x by (simp add: UserCommandForward_def BuiltinCommandLoadPlugin_def OpenHandle_def
        sys_dlopen_def ExpectArgsRange_def first_arg_def GetUserCommandParameters_def
        PATH_MAX_def vec_at_def guard_handle_def GetRegistrationFunc_def GetFunc_def
        call_ptr_def cbind_apply cseq_def ctry_def Let_def log_io_def)
  then obtain t where "Visitor loading_env P (VPrivMsg ?m) s = (Inl (UB ''call of a null pointer''), t)"
    using m(4) st x by (auto simp: BuiltinPrivMsg_def GetUserCommand_def vec_at_def GetParameters_def)
  then show ?thesis using ProcessMessageLine_accepted [OF m(1) mv, of P s] by simp
qed

text \<open>C2. How a worker can be taken down: when the kernel reports events for registered descriptors only, the
  worker starts with an event table that agrees with the kernel and without static callbacks, and the plugin code is that of the version plugin, then
  whatever the server and the users send, \<open>WorkerRun\<close> leaves otherwise than by returning in two cases only:
  a plugin command called a symbol that the loader did not find, or the build has assertions and one of them
  failed. In particular no exception leaves it, and in a release build with complete plugins it returns or runs
  on.\<close>

theorem WorkerRun_failures:
  assumes "wait_reports_registered e" "loop_ok s"
    and "WorkerRun e (version_plugin e a) s = Some (Inl err, t)"
  shows "(err = UB ''call of a null pointer'' \<and> (\<exists>h symbol. os_dlsym e h symbol = None)) \<or>
    (\<not> ndebug e \<and> (\<exists>w. err = Abort w))"
  using WorkerRun_outcome [OF assms] by (auto simp: line_failure_def null_call_def)

theorem WorkerRun_failures_witness:
  "\<exists>t. WorkerRun loading_env (version_plugin loading_env 9) worker0 = Some (Inl (UB ''call of a null pointer''), t)"
proof -
  let ?P = "version_plugin loading_env 9 :: worker_cb worker plugin_code"
  have env: "wait_reports_registered loading_env" by (simp add: wait_reports_registered_def split: if_split)
  obtain s1 where s1: "worker_setup loading_env worker0 = (Inr (), s1)" "spinning s1" "irc_fd s1 = 3"
      "3 \<in> interest (em_fd s1) (w_trace s1)"
    by (simp add: worker_setup_def SetState_def SetupSignalDelivery_def RegisterFd_def sys_epoll_ctl_def
        SIGRTMIN_def SIGRTMAX_def worker0_def spinning_def log_io_def set_errno_if_def cbind_apply cseq_def Let_def interest_def)
  let ?w = "log_io (EvEpollWait (em_fd s1) (card (dom (fd_map s1))) (-1) (WaitEvents [\<lparr>ev_events = EPOLLIN, ev_fd = irc_fd s1\<rparr>])) s1"
  obtain t where t: "worker_callback loading_env ?P ?w = (Inl (UB ''call of a null pointer''), t)"
    using RecvMsg_at_once [of loading_env ?w "irc_fd ?w" "'':eve!e@h PRIVMSG #c :,load version''"]
      TokenizeMessageMultiple_single [of "'':eve!e@h PRIVMSG #c :,load version''"]
      load_line_fails [of ?P "log_io (EvRecv (irc_fd ?w) (RecvData ('':eve!e@h PRIVMSG #c :,load version'' @ [CR, LF]))) ?w"]
    by (auto simp: worker_callback_def wf_line_def)
  have "ev_post t = []"
    using leavesD [OF frame_callback t] s1(2) by (simp add: loop_frame_def spinning_def log_io_def)
  from woken_callback [OF _ s1(2) t this] s1(3,4)
  have "worker_loop loading_env ?P s1 = Some (Inl (UB ''call of a null pointer''), t)"
    using s1(2) by (subst worker_loop.simps) (simp add: spinning_def)
  then obtain err t' where run: "WorkerRun loading_env ?P worker0 = Some (Inl err, t')"
    using s1(1) by (simp add: WorkerRun_def)
  from WorkerRun_failures [OF env worker0_ok run] run show ?thesis by auto
qed

lemma quit_line_stops: "stop_line ''QUIT :now''"
proof -
  obtain m where "IRCMessage_new ''QUIT :now'' DEFAULT_TYPE = Inr m" "command m = ''QUIT''"
    using IRCMessage_new_render [of "[]" "[]" "''QUIT''" "['':now'']"]
    by (auto simp: wf_command_def wf_word_def render_message_def)
  then show ?thesis by (simp add: stop_line_def)
qed

text \<open>C37. Only the last line of a batch decides whether the worker goes on: after a batch has been
  processed the flag is down exactly when its last line asks to stop, so a stop request followed
  by any other line in the same batch is lost.\<close>

theorem only_last_line_stops:
  assumes "ndebug e" "NUL \<notin> set l" "process_lines e P (ls @ [l]) s = (Inr (), t)"
  shows "run_flag t \<longleftrightarrow> \<not> stop_line l"
proof -
  obtain u b t' where "ProcessMessageLine e P l u = (Inr b, t')" "t = t'\<lparr>run_flag := b\<rparr>"
    using process_lines_last [OF assms(3)] by blast
  then show ?thesis using ProcessMessageLine_stop_line [OF assms(1,2), of P u] by auto
qed

theorem only_last_line_stops_witness:
  "\<exists>t. process_lines calm_env (version_plugin calm_env 9) [''QUIT :now'', ''x''] worker0 = (Inr (), t) \<and>
     stop_line ''QUIT :now'' \<and> run_flag t"
proof -
  have "spec_message ''x'' DEFAULT_TYPE = Inl (RuntimeError ''IRCMessage parsing error'')"
    by (simp add: spec_message_def spec_tag_section_def spec_source_section_def spec_command_section_def
        break_at_def)
  then have x: "\<not> stop_line ''x''"
    using IRCMessage_new_spec [of "''x''" DEFAULT_TYPE] by (simp add: stop_line_def)
  have env: "ndebug calm_env" "\<And>h symbol. os_dlsym calm_env h symbol \<noteq> None" by (simp_all add: calm_env_def)
  obtain t where t: "process_lines calm_env (version_plugin calm_env 9) ([''QUIT :now''] @ [''x'']) worker0 = (Inr (), t)"
    using process_lines_return [OF env] by blast
  then have "run_flag t \<longleftrightarrow> \<not> stop_line ''x''" by (intro only_last_line_stops [OF env(1) _ t]) simp
  then show ?thesis using t x quit_line_stops by simp
qed

text \<open>C38. A closed connection is not noticed: while the kernel keeps reporting the socket as readable
  and \<open>recv\<close> returns 0, the worker's loop never returns.\<close>

theorem closed_connection_spins:
  assumes "\<And>tr ep n timeout. os_epoll_wait e tr ep n timeout = WaitEvents [\<lparr>ev_events = EPOLLIN, ev_fd = irc_fd s\<rparr>]"
    and "\<And>tr n. os_recv e tr (irc_fd s) n = RecvData []" "spinning s"
  shows "worker_loop e P s = None"
proof (cases "worker_loop e P s")
  case (Some y)
  obtain r t where "y = (r, t)" by (cases y)
  then obtain u where u: "(worker_round e P)\<^sup>*\<^sup>* s u" "worker_exit e P u r t"
    using worker_loop_run Some by blast
  then have sp: "spinning u" "irc_fd u = irc_fd s" using spinning_rounds [OF assms] by blast+
  then obtain v where "RunEventLoop e (worker_runner e P) (-1) u = Some (Inr 0, v)"
    using spinning_round [of e u P] assms(1,2) by auto
  then show ?thesis using u(2) sp(1) by (auto simp: worker_exit_def spinning_def)
qed simp

theorem closed_connection_spins_witness:
  "worker_loop (calm_env\<lparr>os_epoll_wait := \<lambda>_ _ _ _. WaitEvents [\<lparr>ev_events = EPOLLIN, ev_fd = 3\<rparr>]\<rparr>)
     (version_plugin calm_env 9) (worker0\<lparr>fd_map := [3 \<mapsto>
       \<lparr>ctx_ev = \<lparr>ev_events = EPOLLIN, ev_fd = 3\<rparr>, ctx_cb = OnMessage, ctx_enabled = True\<rparr>]\<rparr>) = None"
  by (rule closed_connection_spins) (simp_all add: worker0_def calm_env_def spinning_def)

text \<open>Destroying the manager releases what it owns: after \<open>~Manager\<close> no plugin handle is open, and
  the last two calls closed the socket and the epoll descriptor.\<close>

theorem Manager_dtor_releases:
  assumes "owned_with None s" "0 \<le> irc_fd s" "0 \<le> em_fd s" "ev_exit s = []"
    and "set (map_order e (dom (plugins_map s))) = dom (plugins_map s)"
  shows "\<exists>t tr. Manager_dtor e run s = (Inr (), t) \<and> (\<forall>h. handle_balance h (w_trace t) = 0) \<and>
    w_trace t = tr @ [EvClose (irc_fd s), EvClose (em_fd s)]"
  using Manager_dtor_run [OF assms, of run] by blast

theorem Manager_dtor_releases_witness:
  "\<exists>t tr. Manager_dtor (calm_env\<lparr>map_order := \<lambda>_. [''version'']\<rparr>) (\<lambda>_ _. cret ())
      (worker0\<lparr>plugins_map := [''version'' \<mapsto> Some 1], w_trace := [EvDlopen ''/srv/kbot/libversion.so'' (Some 1)]\<rparr>) = (Inr (), t) \<and>
    handle_balance 1 (w_trace t) = 0 \<and> w_trace t = tr @ [EvClose 3, EvClose 4]"
proof -
  let ?s = "worker0\<lparr>plugins_map := [''version'' \<mapsto> Some 1], w_trace := [EvDlopen ''/srv/kbot/libversion.so'' (Some 1)]\<rparr>"
  let ?e = "calm_env\<lparr>map_order := \<lambda>_. [''version'']\<rparr>"
  have "card (entry_owners h [''version'' \<mapsto> Some 1]) = (if h = 1 then 1 else 0)" for h
  proof -
    have "entry_owners h [''version'' \<mapsto> Some 1] = (if h = 1 then {''version''} else {})"
      by (auto simp: entry_owners_def split: if_splits)
    then show ?thesis by simp
  qed
  then have "owned_with None ?s" by (simp add: owned_with_def)
  moreover have "0 \<le> irc_fd ?s" "0 \<le> em_fd ?s" "ev_exit ?s = []"
    "set (map_order ?e (dom (plugins_map ?s))) = dom (plugins_map ?s)"
    by (simp_all add: worker0_def)
  ultimately show ?thesis using Manager_dtor_releases [of ?s ?e "\<lambda>_ _. cret ()"]
    by (auto simp: worker0_def)
qed

end
