(* ===== verification/Worker_Invariant.thy ===== *)
theory Worker_Invariant
  imports Worker
begin

text \<open>
  Invariants of a worker. What survives the calls of \<open>recv\<close> is kept by \<open>RecvMsg\<close> (locale
  \<open>receiving_invariant\<close>); what every normal return of the callback and waiting for events keep is kept by the event loop and by
  all rounds of the worker (locale \<open>callback_invariant\<close>). A property that every message line keeps, and that
  depends on nothing the event loop itself changes, is both, and \<open>WorkerRun\<close> keeps it (locale
  \<open>worker_invariant\<close>); its instances are the ownership of plugin handles (in \<open>Session\<close>) and the form of what
  is sent (in \<open>Wire\<close>). \<open>Reading\<close> uses the first two for the lines that a worker processes.
\<close>

section \<open>Receiving\<close>

lemma tokens_wf: "list_all wf_line (TokenizeMessageMultiple msg)"
  unfolding TokenizeMessageMultiple_pieces by (rule line_pieces_wf) (simp_all add: NUL_notin_c_str)

locale receiving_invariant =
  fixes I :: "'a world_scheme \<Rightarrow> bool"
  assumes recv_errno: "I s \<Longrightarrow> I (s\<lparr>w_errno := en\<rparr>)"
    and recv_event: "I s \<Longrightarrow> I (log_io (EvRecv fd r) s)"
begin

lemma sys_recv_keeps: "keeps I (sys_recv e fd n)"
  by (auto simp: keeps_def triple_def sys_recv_def set_errno_if_def Let_def recv_errno recv_event)

lemma recv_loop_keeps: "keeps I (recv_loop e fd tries buf)"
proof (induction tries arbitrary: buf)
  case 0
  show ?case unfolding recv_loop.simps [of e fd 0]
    by (intro keeps_cbind sys_recv_keeps) (auto split: recv_result.split)
next
  case (Suc tries)
  then show ?case unfolding recv_loop.simps [of e fd "Suc tries"]
    by (intro keeps_cbind sys_recv_keeps) (auto split: recv_result.split)
qed

lemma RecvMsg_keeps: "keeps I (RecvMsg e fd)"
  unfolding RecvMsg_def
  by (intro keeps_cbind recv_loop_keeps) (auto intro!: keeps_cbind keeps_basic split: option.split)

end

section \<open>The event loop\<close>

locale callback_invariant =
  fixes I :: "'a wstate \<Rightarrow> bool" and e :: env and P :: "'a wstate plugin_code"
  assumes callback: "returns_keeping I (worker_callback e P)"
    and wait_errno: "I s \<Longrightarrow> I (s\<lparr>w_errno := en\<rparr>)"
    and wait_event: "I s \<Longrightarrow> I (log_io (EvEpollWait ep n timeout r) s)"
begin

lemma runner_keeps: "returns_keeping I (worker_runner e P cb ev)"
  by (cases cb) (simp only: worker_runner.simps callback)

lemma dispatch_keeps: "returns_keeping I (dispatch_events e' (worker_runner e P) evs)"
proof (induction evs)
  case (Cons ev evs)
  show ?case unfolding dispatch_events.simps
    by (intro returns_keeping_cbind returns_keeping_basic)
      (auto intro!: returns_keeping_cseq returns_keeping_basic Cons runner_keeps split: option.split)
qed (simp only: dispatch_events.simps returns_keeping_basic)

lemma static_keeps: "returns_keeping I (run_static (worker_runner e P) cbs)"
proof (induction cbs)
  case (Cons cb cbs)
  then show ?case unfolding run_static.simps by (intro returns_keeping_cseq runner_keeps)
qed (simp only: run_static.simps returns_keeping_basic)

lemma wait_loop_keeps:
  assumes "wait_loop e' n timeout s = Some (r, t)" "I s"
  shows "I t"
proof -
  have "I s \<longrightarrow> I (snd (r, t))"
  proof (rule wait_loop.raw_induct [of "\<lambda>e n timeout s y. I s \<longrightarrow> I (snd y)", OF _ assms(1)])
    fix rec e n timeout y and s :: "'a wstate"
    assume IH: "\<And>e n timeout s y. rec e n timeout s = Some y \<Longrightarrow> I s \<longrightarrow> I (snd y)"
      and body: "(let r = os_epoll_wait e (w_trace s) (em_fd s) n timeout;
          s' = snd (sys_epoll_wait e (em_fd s) n timeout s)
        in if r = WaitErr EINTR then rec e n timeout s' else Some (r, s')) = Some y"
    have "I s \<Longrightarrow> I (snd (sys_epoll_wait e (em_fd s) n timeout s))"
      by (simp add: sys_epoll_wait_def set_errno_if_def Let_def wait_errno wait_event)
    then show "I s \<longrightarrow> I (snd y)" using body IH by (auto simp: Let_def split: if_splits)
  qed
  then show ?thesis using assms(2) by simp
qed

lemma RunEventLoop_keeps:
  assumes "I s" "RunEventLoop e (worker_runner e P) timeout s = Some (Inr k, t)"
  shows "I t"
proof -
  obtain s1 where s1: "cbind (cget ev_pre) (run_static (worker_runner e P)) s = (Inr (), s1)"
    using assms(2) by (auto simp: RunEventLoop_def split: prod.splits sum.splits)
  have o1: "I s1" using returns_keepingD [OF static_keeps assms(1)] s1 by (auto simp: cbind_apply)
  obtain w s2 where s2: "wait_loop e (card (dom (fd_map s1))) timeout s1 = Some (w, s2)"
    using assms(2) s1 by (auto simp: RunEventLoop_def split: option.splits)
  have o2: "I s2" by (rule wait_loop_keeps [OF s2 o1])
  have disp: "returns_keeping I (cseq (cpure (cpp_assert (ndebug e) (evs \<noteq> []) ''r''))
       (cseq (dispatch_events e (worker_runner e P) evs)
       (cseq (cbind (cget ev_post) (run_static (worker_runner e P))) (cret (0::int)))))" for evs
    by (intro returns_keeping_cseq returns_keeping_cbind returns_keeping_basic static_keeps dispatch_keeps)
  show ?thesis using assms(2) s1 s2 o2 returns_keepingD [OF disp o2]
    by (auto simp: RunEventLoop_def split: wait_result.splits)
qed

lemma rounds_keep: "(worker_round e P)\<^sup>*\<^sup>* s u \<Longrightarrow> I s \<Longrightarrow> I u"
  by (induction rule: rtranclp_induct) (auto simp: worker_round_def intro: RunEventLoop_keeps)

end

section \<open>The worker\<close>

text \<open>The calls that the loop makes around the handlers.\<close>

fun loop_event :: "io_event \<Rightarrow> bool" where
  "loop_event (EvRecv fd r) = True"
| "loop_event (EvEpollWait ep n timeout r) = True"
| "loop_event (EvEpollCtl ep opn fd r) = True"
| "loop_event (EvSigmask n) = True"
| "loop_event (EvSetName name) = True"
| "loop_event _ = False"

locale worker_invariant =
  fixes I :: "'a wstate \<Rightarrow> bool" and e :: env and P :: "'a wstate plugin_code"
  assumes line: "wf_line l \<Longrightarrow> keeps I (ProcessMessageLine e P l)"
    and fields: "I (s\<lparr>run_flag := b\<rparr>) = I s" "I (s\<lparr>srv_state := st\<rparr>) = I s" "I (s\<lparr>sig_id := n\<rparr>) = I s"
      "I (s\<lparr>fd_map := m\<rparr>) = I s" "I (s\<lparr>w_errno := en\<rparr>) = I s"
    and events: "loop_event ev \<Longrightarrow> I (log_io ev s) = I s"
begin

lemma errno [simp]: "I (set_errno_if b en s) = I s"
  by (simp add: set_errno_if_def fields)

lemma sys_keeps: "keeps I (sys_epoll_ctl e' ep opn fd evs)"
  by (auto simp: keeps_def triple_def sys_epoll_ctl_def events split: prod.split)

lemma cmod_keeps:
  "keeps I (cmod (\<lambda>s. s\<lparr>run_flag := b\<rparr>))" "keeps I (cmod (\<lambda>s. s\<lparr>srv_state := st\<rparr>))"
  "keeps I (cmod (\<lambda>s. s\<lparr>sig_id := f s\<rparr>))" "keeps I (cmod (\<lambda>s. s\<lparr>fd_map := g s\<rparr>))"
  "keeps I (cmod (\<lambda>s. s\<lparr>w_errno := en\<rparr>))" "loop_event ev \<Longrightarrow> keeps I (cmod (log_io ev))"
  by (auto intro!: keeps_cmod simp: fields events)

end

sublocale worker_invariant \<subseteq> receiving_invariant I
  by unfold_locales (simp_all add: fields events)

context worker_invariant
begin

lemma process_lines_keeps: "list_all wf_line ls \<Longrightarrow> keeps I (process_lines e P ls)"
proof (induction ls)
  case (Cons l ls)
  then show ?case unfolding process_lines.simps
    by (intro keeps_cbind keeps_cseq line cmod_keeps) simp_all
qed (simp only: process_lines.simps keeps_basic)

lemma callback_keeps: "keeps I (worker_callback e P)"
  unfolding worker_callback_def
  by (intro keeps_cbind keeps_basic RecvMsg_keeps) (simp add: keeps_basic process_lines_keeps tokens_wf)

end

sublocale worker_invariant \<subseteq> callback_invariant I e P
  by unfold_locales (simp_all add: keeps_returns callback_keeps fields events)

context worker_invariant
begin

lemmas loop_invariant = callback_invariant_axioms

lemma setup_keeps: "keeps I (worker_setup e)"
proof -
  have "keeps I (RegisterFd e fd evs cb cfg)" for fd evs cb cfg
    unfolding RegisterFd_def Let_def
    by (auto intro!: keeps_cbind keeps_cseq keeps_basic sys_keeps cmod_keeps split: option.split)
  moreover have "keeps I (SetupSignalDelivery name)" for name
    unfolding SetupSignalDelivery_def by (auto intro!: keeps_cbind keeps_cseq keeps_basic cmod_keeps)
  ultimately show ?thesis unfolding worker_setup_def SetState_def
    by (intro keeps_cseq keeps_cbind keeps_basic cmod_keeps)
qed

lemma DeleteFd_keeps: "keeps I (DeleteFd e fd)"
  unfolding DeleteFd_def by (auto intro!: keeps_cbind keeps_cseq keeps_basic sys_keeps cmod_keeps split: option.split)

lemma WorkerRun_keeps:
  assumes "I s" "WorkerRun e P s = Some (Inr (), t)"
  shows "I t"
proof -
  obtain s1 where s1: "worker_setup e s = (Inr (), s1)"
    using assms(2) by (auto simp: WorkerRun_def split: prod.splits sum.splits)
  have o1: "I s1" using keepsD [OF setup_keeps assms(1) s1] by simp
  obtain t1 where l: "worker_loop e P s1 = Some (Inr (), t1)"
    using assms(2) s1 by (auto simp: WorkerRun_def split: option.splits sum.splits)
  then obtain u where u: "(worker_round e P)\<^sup>*\<^sup>* s1 u" "worker_exit e P u (Inr ()) t1" using worker_loop_run by blast
  then have "I t1" using rounds_keep [OF u(1) o1] by (auto simp: worker_exit_def intro: RunEventLoop_keeps)
  moreover have "keeps I (cbind (cget irc_fd) (\<lambda>fd. cbind (DeleteFd e fd) (\<lambda>_. TearDownSignalDelivery)))"
    unfolding TearDownSignalDelivery_def by (intro keeps_cbind keeps_basic DeleteFd_keeps cmod_keeps)
  ultimately show ?thesis using assms(2) s1 l keepsD by (fastforce simp: WorkerRun_def)
qed

end

end
