(* ===== verification/Session.thy ===== *)
theory Session
  imports Worker_Invariant
begin

text \<open>
  One session of the bot: \<open>Manager::CreateNew\<close> of \<open>src/src/Manager.cc\<close> and the function of the server
  thread in \<open>src/src/main.cc\<close>, which creates the manager, logs in, joins the channel, says hello, runs
  the worker and destroys the manager. The destructors of the objects that were moved from do
  nothing, as their descriptors are negative. Before that, the ownership of plugin handles, which
  the commands keep, is shown to be an invariant of the worker.
\<close>

section \<open>Plugin handles during a run\<close>

text \<open>The ownership of handles that the commands keep is kept by everything around them.\<close>

lemma keeps_handles_send: "keeps (owned_with u) (SendMsg e fd d)"
  by (rule handle_quiet_keeps, rule handle_quietI)
    (auto simp: SendMsg_def sys_send_def log_io_def set_errno_if_def split: prod.split)

lemma keeps_handles_PrivMsg:
  assumes "plugin_handles_quiet P"
  shows "keeps (owned_with None) (BuiltinPrivMsg e P m)"
proof -
  have cmd: "keeps (owned_with None) (fn_command P a m)" for a m
    using assms by (auto simp: plugin_handles_quiet_def intro: handle_quiet_keeps)
  have "keeps (owned_with None) (case static_command_map e P c of Some f \<Rightarrow> f m
      | None \<Rightarrow> cbind (cget user_command_map) (\<lambda>tab. cbind (cpure (GetUserCommand m)) (\<lambda>c.
            case tab c of Some cb \<Rightarrow> fn_command P cb m | None \<Rightarrow> cret ())))" for c
  proof (cases "static_command_map e P c")
    case None
    have "keeps (owned_with None) (case tab c of Some cb \<Rightarrow> fn_command P cb m | None \<Rightarrow> cret ())"
      for tab :: "string \<rightharpoonup> callback" and c by (cases "tab c") (simp_all only: option.case cmd keeps_basic)
    then show ?thesis unfolding None option.case by (intro keeps_cbind keeps_basic)
  next
    case (Some f)
    then show ?thesis using builtin_keeps_handles [OF assms Some] by simp
  qed
  then show ?thesis unfolding BuiltinPrivMsg_def
    by (intro keeps_ctry keeps_cseq keeps_cbind keeps_basic) simp_all
qed

lemma keeps_handles_Visitor:
  assumes "plugin_handles_quiet P"
  shows "keeps (owned_with None) (Visitor e P mv)"
proof (cases mv)
  case (VPrivMsg m)
  then show ?thesis by (simp only: Visitor.simps keeps_handles_PrivMsg [OF assms])
qed (simp_all only: Visitor.simps BuiltinPong_def BuiltinNickname_def BuiltinJoin_def BuiltinPart_def,
    (intro keeps_cbind keeps_basic quiet_keeps keeps_handles_send)+)

lemma keeps_handles_line:
  assumes "plugin_handles_quiet P"
  shows "keeps (owned_with None) (ProcessMessageLine e P l)"
  unfolding ProcessMessageLine_def
  by (rule keeps_ctry; (intro keeps_cbind keeps_cseq keeps_basic)?)
    (auto intro!: keeps_cseq keeps_basic keeps_handles_Visitor [OF assms] split: cpp_error.splits)

interpretation handles: worker_invariant "owned_with None" e "version_plugin e a" for e a
proof unfold_locales
  show "keeps (owned_with None) (ProcessMessageLine e (version_plugin e a) l)" for l
    by (rule keeps_handles_line [OF version_plugin_quiet])
  show "owned_with None (log_io ev s) = owned_with None s" if "loop_event ev" for ev and s :: "'a wstate"
    using that by (cases ev) (simp_all add: owned_with_def log_io_def)
qed (simp_all add: owned_with_def)

section \<open>Creating a manager\<close>

text \<open>The manager that \<open>Manager(fd, std::move(server))\<close> constructs; the signal counter is global.\<close>

definition Manager_new :: "int \<Rightarrow> connection \<Rightarrow> int \<Rightarrow> world \<Rightarrow> worker_cb worker" where
  "Manager_new fd c sig w =
     \<lparr>w_trace = w_trace w, w_errno = w_errno w, em_fd = fd, fd_map = Map.empty, ev_pre = [], ev_post = [],
      ev_exit = [], irc_fd = c_fd c, srv_state = kSetup, address = c_address c, port = c_port c,
      chan_map = Map.empty, nickname = c_nickname c, user_command_map = Map.empty, plugins_map = Map.empty,
      sig_id = sig, run_flag = False\<rparr>"

definition CreateNew :: "env \<Rightarrow> connection \<Rightarrow> int \<Rightarrow> (world, worker_cb worker) cpp" where
  "CreateNew e c sig =
     cbind (sys_epoll_create e) (\<lambda>fd.
       if fd < 0 then cthrow (RuntimeError ''Failed to create epoll fd'')
       else cget (Manager_new fd c sig))"

section \<open>The thread function\<close>

text \<open>Login, join and greeting; the result tells whether the login succeeded. \<open>DumpInfo\<close> only logs.\<close>

definition session_start :: "env \<Rightarrow> string \<Rightarrow> string \<Rightarrow> string \<Rightarrow> (('cb, 'a) server_scheme, bool) cpp" where
  "session_start e nick password channel =
     cbind (cget irc_fd) (\<lambda>fd.
     cbind (IRC_Login e fd nick password) (\<lambda>r.
       if r < 0 then cret False
       else cseq (JoinChannel e channel) (cbind (SendChannel e channel ''Hello!'') (\<lambda>_. cret True))))"

definition session_body :: "env \<Rightarrow> worker_cb worker plugin_code \<Rightarrow> string \<Rightarrow> string \<Rightarrow> string \<Rightarrow> worker_cb worker \<Rightarrow>
    (unit result \<times> worker_cb worker) option" where
  "session_body e P nick password channel m =
     (case session_start e nick password channel m of
        (Inl err, s) \<Rightarrow> Some (Inl err, s)
      | (Inr False, s) \<Rightarrow> Some (Manager_dtor e (worker_runner e P) s)
      | (Inr True, s) \<Rightarrow>
          (case WorkerRun e P s of
             None \<Rightarrow> None
           | Some (Inl err, t) \<Rightarrow> Some (Inl err, t)
           | Some (Inr _, t) \<Rightarrow> Some (Manager_dtor e (worker_runner e P) t)))"

text \<open>An exception of \<open>CreateNew\<close> leaves the thread function, so the process is terminated.\<close>

definition server_thread :: "env \<Rightarrow> worker_cb worker plugin_code \<Rightarrow> string \<Rightarrow> string \<Rightarrow> string \<Rightarrow> connection \<Rightarrow> int \<Rightarrow>
    world \<Rightarrow> (unit result \<times> trace) option" where
  "server_thread e P nick password channel c sig w =
     (case CreateNew e c sig w of
        (Inl err, w') \<Rightarrow> Some (Inl err, w_trace w')
      | (Inr m, w') \<Rightarrow> map_option (\<lambda>(r, t). (r, w_trace t)) (session_body e P nick password channel m))"

section \<open>What a session does\<close>

text \<open>One \<open>send\<close> after a trace, with the result that the kernel gives, and whether the last call of a trace is a
  \<open>send\<close> that did not fail.\<close>

definition send_to :: "env \<Rightarrow> int \<Rightarrow> string \<Rightarrow> trace \<Rightarrow> trace" where
  "send_to e fd d tr = tr @ [EvSend fd d (fst (os_send e tr fd d))]"

definition send_ok :: "trace \<Rightarrow> bool" where
  "send_ok tr = (case last tr of EvSend fd d r \<Rightarrow> 0 \<le> r | _ \<Rightarrow> False)"

lemma send_ok_send_to [simp]: "send_ok (send_to e fd d tr) \<longleftrightarrow> \<not> fst (os_send e tr fd d) < 0"
  by (auto simp: send_ok_def send_to_def)

lemma SendMsg_run:
  "\<exists>t. SendMsg e fd d s = (Inr (fst (os_send e (w_trace s) fd d)), t) \<and> w_trace t = send_to e fd d (w_trace s)"
  by (auto simp: SendMsg_def sys_send_def set_errno_if_def send_to_def split: prod.split)

text \<open>The traces of the login, and what \<open>Login\<close> tells of it: the result of the last message when there is a
  password, which hides the failure of an earlier one, and of both messages otherwise.\<close>

definition login_traces :: "env \<Rightarrow> int \<Rightarrow> string \<Rightarrow> string \<Rightarrow> trace \<Rightarrow> trace list" where
  "login_traces e fd nick password tr =
     (let user = send_to e fd (CR # ''USER '' @ nick @ '' 0 * :'' @ nick @ [CR, LF]) tr;
          nck = send_to e fd (CR # ''NICK '' @ nick @ [CR, LF]) user
      in if password = [] then [user, nck]
         else [user, nck, send_to e fd (CR # ''PRIVMSG NickServ :identify '' @ password @ [CR, LF]) nck])"

definition login_ok :: "env \<Rightarrow> int \<Rightarrow> string \<Rightarrow> string \<Rightarrow> trace \<Rightarrow> bool" where
  "login_ok e fd nick password tr =
     (if password = [] then list_all send_ok (login_traces e fd nick password tr)
      else send_ok (last (login_traces e fd nick password tr)))"

lemma IRC_Login_run:
  "\<exists>r t. IRC_Login e fd nick password s = (Inr r, t) \<and> (r < 0 \<longleftrightarrow> \<not> login_ok e fd nick password (w_trace s)) \<and>
     w_trace t = last (login_traces e fd nick password (w_trace s))"
proof -
  let ?user = "CR # ''USER '' @ nick @ '' 0 * :'' @ nick @ [CR, LF]" and ?nick = "CR # ''NICK '' @ nick @ [CR, LF]"
  let ?id = "CR # ''PRIVMSG '' @ ''NickServ'' @ '' :'' @ (''identify '' @ password) @ [CR, LF]"
  obtain s1 where 1: "SendMsg e fd ?user s = (Inr (fst (os_send e (w_trace s) fd ?user)), s1)"
    "w_trace s1 = send_to e fd ?user (w_trace s)" using SendMsg_run by blast
  obtain s2 where 2: "SendMsg e fd ?nick s1 = (Inr (fst (os_send e (w_trace s1) fd ?nick)), s2)"
    "w_trace s2 = send_to e fd ?nick (w_trace s1)" using SendMsg_run by blast
  obtain s3 where 3: "SendMsg e fd ?id s2 = (Inr (fst (os_send e (w_trace s2) fd ?id)), s3)"
    "w_trace s3 = send_to e fd ?id (w_trace s2)" using SendMsg_run by blast
  show ?thesis using 1 2 3
    by (cases "password = []")
      (auto simp: IRC_Login_def IRC_Nick_def PrivMsg_def login_ok_def login_traces_def Let_def cbind_apply)
qed

lemma session_start_run:
  "\<exists>t. session_start e nick password ch s = (Inr (login_ok e (irc_fd s) nick password (w_trace s)), t) \<and>
     w_trace t = (if login_ok e (irc_fd s) nick password (w_trace s)
       then send_to e (irc_fd s) (CR # ''PRIVMSG '' @ ch @ '' :Hello!'' @ [CR, LF])
         (send_to e (irc_fd s) (CR # ''JOIN '' @ ch @ [CR, LF]) (last (login_traces e (irc_fd s) nick password (w_trace s))))
       else last (login_traces e (irc_fd s) nick password (w_trace s)))"
proof -
  have fd: "leaves irc_fd (IRC_Login e (irc_fd s) nick password)" "leaves irc_fd (JoinChannel e ch)"
    unfolding IRC_Login_def IRC_Nick_def PrivMsg_def Let_def JoinChannel_def IRC_Join_def
    by (auto intro!: leaves_cbind leaves_basic split: option.split)
      (auto simp: leaves_def SendMsg_def sys_send_def log_io_def set_errno_if_def split: prod.split)
  obtain r s1 where 1: "IRC_Login e (irc_fd s) nick password s = (Inr r, s1)"
      "r < 0 \<longleftrightarrow> \<not> login_ok e (irc_fd s) nick password (w_trace s)"
      "w_trace s1 = last (login_traces e (irc_fd s) nick password (w_trace s))"
    using IRC_Login_run by blast
  have fd1: "irc_fd s1 = irc_fd s" by (rule leavesD [OF fd(1) 1(1)])
  obtain s2 where 2: "JoinChannel e ch s1 = (Inr (), s2)"
  proof -
    obtain q t where "SendMsg e (irc_fd s1) (CR # ''JOIN '' @ ch @ [CR, LF]) s1 = (Inr q, t)" using SendMsg_run by blast
    then have "\<exists>s2. JoinChannel e ch s1 = (Inr (), s2)"
      by (auto simp: JoinChannel_def IRC_Join_def cbind_apply split: option.split)
    then show ?thesis using that by blast
  qed
  have fd2: "irc_fd s2 = irc_fd s" using leavesD [OF fd(2) 2] fd1 by simp
  have j: "w_trace s2 = send_to e (irc_fd s) (CR # ''JOIN '' @ ch @ [CR, LF]) (w_trace s1)"
    using JoinChannel_effect(1) [OF refl, of e ch s1] 2 fd1 by (simp add: send_to_def)
  obtain s3 where 3: "SendMsg e (irc_fd s) (CR # ''PRIVMSG '' @ ch @ '' :'' @ ''Hello!'' @ [CR, LF]) s2 =
      (Inr (fst (os_send e (w_trace s2) (irc_fd s) (CR # ''PRIVMSG '' @ ch @ '' :'' @ ''Hello!'' @ [CR, LF]))), s3)"
    "w_trace s3 = send_to e (irc_fd s) (CR # ''PRIVMSG '' @ ch @ '' :'' @ ''Hello!'' @ [CR, LF]) (w_trace s2)"
    using SendMsg_run by blast
  show ?thesis using 1 2 3 fd1 fd2 j
    by (cases "r < 0") (auto simp: session_start_def SendChannel_def PrivMsg_def cbind_apply)
qed

lemma session_start_frame:
  "leaves loop_frame (session_start e nick password ch)" "keeps (owned_with None) (session_start e nick password ch)"
proof -
  show "leaves loop_frame (session_start e nick password ch)"
    unfolding session_start_def IRC_Login_def IRC_Nick_def PrivMsg_def Let_def
    by (auto intro!: leaves_cbind leaves_cseq loop.server_ops loop.prims)
  show "keeps (owned_with None) (session_start e nick password ch)"
    unfolding session_start_def IRC_Login_def IRC_Nick_def PrivMsg_def Let_def
    by (auto intro!: keeps_cbind keeps_cseq keeps_basic quiet_keeps keeps_handles_send)
qed

text \<open>What the session relies on: a kernel that reports registered descriptors only, and that iterating over a
  hash map meets every key.\<close>

definition session_env :: "env \<Rightarrow> bool" where
  "session_env e \<longleftrightarrow> wait_reports_registered e \<and> (\<forall>S. finite S \<longrightarrow> set (map_order e S) = S)"

lemma session_ends:
  assumes "session_env e" "loop_ok s" "owned_with None s" "0 \<le> irc_fd s" "0 \<le> em_fd s" "ev_exit s = []"
    and "session_body e (version_plugin e a) nick password ch s = Some (r, t)"
  shows "(r = Inr () \<and> closes (w_trace t) = closes (w_trace s) @ [irc_fd s, em_fd s] \<and>
    (\<forall>h. handle_balance h (w_trace t) = 0)) \<or> (\<exists>err. r = Inl err \<and> line_failure e err)"
proof -
  let ?P = "version_plugin e a"
  obtain b s1 where s1: "session_start e nick password ch s = (Inr b, s1)" using session_start_run by blast
  have f1: "loop_frame s1 = loop_frame s" by (rule leavesD [OF session_start_frame(1) s1])
  have o1: "owned_with None s1" using keepsD [OF session_start_frame(2) assms(3) s1] by simp
  have ends: "Manager_dtor e (worker_runner e ?P) u = (r, t) \<Longrightarrow> ?thesis"
    if "fd_frame u = fd_frame s" "owned_with None u" for u
  proof -
    assume d: "Manager_dtor e (worker_runner e ?P) u = (r, t)"
    have "finite (dom (plugins_map u))" using that(2) by (simp add: owned_with_def)
    then have "set (map_order e (dom (plugins_map u))) = dom (plugins_map u)"
      using assms(1) by (simp add: session_env_def)
    from Manager_dtor_run [OF that(2) _ _ _ this, of "worker_runner e ?P"] show ?thesis
      using d that(1) assms(4-6) by (auto simp: fd_frame_def)
  qed
  show ?thesis
  proof (cases b)
    case False
    then show ?thesis using assms(7) s1 ends [OF fd_frame_loop [OF f1] o1] by (simp add: session_body_def)
  next
    case True
    obtain r' u where u: "WorkerRun e ?P s1 = Some (r', u)"
      using assms(7) s1 True by (auto simp: session_body_def split: option.splits)
    have "wait_reports_registered e" using assms(1) by (simp add: session_env_def)
    from WorkerRun_outcome [OF this loop_ok_frame [OF assms(2) f1] u] show ?thesis
    proof (elim disjE exE conjE)
      assume r: "r' = Inr ()" "fd_frame u = fd_frame s1"
      then have "owned_with None u" using handles.WorkerRun_keeps [OF o1] u by blast
      then show ?thesis using assms(7) s1 True u r ends [of u] fd_frame_loop [OF f1] by (simp add: session_body_def)
    qed (use assms(7) s1 True u in \<open>auto simp: session_body_def\<close>)
  qed
qed

lemma Manager_new_ok:
  assumes "\<forall>h. handle_balance h (w_trace w) = 0"
  shows "loop_ok (Manager_new fd c sig (log_io (EvEpollCreate fd) w))"
    "owned_with None (Manager_new fd c sig (log_io (EvEpollCreate fd) w))"
  using assms
  by (simp_all add: loop_ok_def epoll_inv_def Manager_new_def owned_with_def entry_owners_def enabled_fds_def own_data_def)

lemma server_thread_ends:
  assumes "session_env e" "0 \<le> c_fd c" "\<forall>h. handle_balance h (w_trace w) = 0"
    and "server_thread e (version_plugin e a) nick password ch c sig w = Some (r, tr)"
  shows "(r = Inr () \<and> closes tr = closes (w_trace w) @ [c_fd c, os_epoll_create e (w_trace w)] \<and>
      (\<forall>h. handle_balance h tr = 0)) \<or>
    (r = Inl (RuntimeError ''Failed to create epoll fd'') \<and> os_epoll_create e (w_trace w) < 0) \<or>
    (\<exists>err. r = Inl err \<and> line_failure e err)"
proof (cases "os_epoll_create e (w_trace w) < 0")
  case True
  then show ?thesis using assms(4) by (simp add: server_thread_def CreateNew_def sys_epoll_create_def Let_def)
next
  case False
  let ?fd = "os_epoll_create e (w_trace w)" let ?w = "log_io (EvEpollCreate ?fd) w"
  let ?m = "Manager_new ?fd c sig ?w"
  obtain t where t: "session_body e (version_plugin e a) nick password ch ?m = Some (r, t)" "tr = w_trace t"
    using assms(4) False by (auto simp: server_thread_def CreateNew_def sys_epoll_create_def Let_def)
  have "0 \<le> irc_fd ?m" "0 \<le> em_fd ?m" "ev_exit ?m = []" using assms(2) False by (simp_all add: Manager_new_def)
  from session_ends [OF assms(1) Manager_new_ok [OF assms(3)] this t(1)] show ?thesis
    using t(2) by (auto simp: Manager_new_def)
qed

section \<open>Properties\<close>

text \<open>C29. How a session starts on the wire, call by call: the server thread hands USER, then NICK, then the
  password for NickServ if there is one to \<open>send\<close>. It goes on exactly when \<open>Login\<close> did not report a failure:
  without a password when neither call failed, with one when the last call did not (which hides a failure of
  the others). Then it hands over JOIN and the greeting, in this order; otherwise nothing. No exception is thrown.\<close>

theorem session_start_wire:
  "let fd = irc_fd s;
       user = send_to e fd (CR # ''USER '' @ nick @ '' 0 * :'' @ nick @ [CR, LF]) (w_trace s);
       nck = send_to e fd (CR # ''NICK '' @ nick @ [CR, LF]) user;
       login = (if password = [] then nck
         else send_to e fd (CR # ''PRIVMSG NickServ :identify '' @ password @ [CR, LF]) nck);
       ok = (if password = [] then send_ok user \<and> send_ok nck else send_ok login);
       join = send_to e fd (CR # ''JOIN '' @ ch @ [CR, LF]) login
   in \<exists>t. session_start e nick password ch s = (Inr ok, t) \<and>
        w_trace t = (if ok then send_to e fd (CR # ''PRIVMSG '' @ ch @ '' :Hello!'' @ [CR, LF]) join else login)"
proof -
  obtain t where "session_start e nick password ch s = (Inr (login_ok e (irc_fd s) nick password (w_trace s)), t)"
      "w_trace t = (if login_ok e (irc_fd s) nick password (w_trace s)
        then send_to e (irc_fd s) (CR # ''PRIVMSG '' @ ch @ '' :Hello!'' @ [CR, LF])
          (send_to e (irc_fd s) (CR # ''JOIN '' @ ch @ [CR, LF]) (last (login_traces e (irc_fd s) nick password (w_trace s))))
        else last (login_traces e (irc_fd s) nick password (w_trace s)))"
    using session_start_run [of e nick password ch s] by blast
  then show ?thesis
    by (cases "password = []") (simp_all add: login_ok_def login_traces_def Let_def del: send_ok_send_to)
qed

end
