(* ===== verification/Threads.thy ===== *)
theory Threads
  imports OS_World Interfaces
begin

text \<open>
  The set of server threads (\<open>ServerThreadSet\<close>, \<open>LaunchServerThread\<close> and \<open>ThreadCleanupSelf\<close> of
  \<open>src/src/Manager.hh\<close> and \<open>src/src/Manager.cc\<close>). Each critical section under \<open>thread_set_mtx\<close> is
  one atomic operation; the launching thread, the server threads and the waiting main thread
  interleave as a step relation. A server thread runs from the moment its \<open>jthread\<close> is
  constructed, which is before it is inserted. \<open>WaitAll\<close> waits on a condition variable: it tests the
  predicate, sleeps until it is notified or wakes up without a reason, and tests again. A thread that
  has removed itself from the set is detached and still runs: the arguments stored in its \<open>jthread\<close> are
  destroyed and the thread exits, which nobody waits for.
\<close>

section \<open>State and operations\<close>

datatype thread_phase = NotStarted | Running | Detached | Finished | Crashed

text \<open>The main thread: free to launch, between construction and insertion of a thread, about to test
  the predicate of \<open>WaitAll\<close>, asleep on the condition variable, returned.\<close>

datatype main_pc = Launching | Inserting nat | Testing | Asleep | Returned

record threads =
  thread_set :: "nat set"
  phase_of :: "nat \<Rightarrow> thread_phase"
  main_at :: main_pc

definition InsertNewThread :: "nat \<Rightarrow> threads \<Rightarrow> bool \<times> threads" where
  "InsertNewThread t s = (t \<notin> thread_set s, s\<lparr>thread_set := insert t (thread_set s)\<rparr>)"

text \<open>The first half of \<open>LaunchServerThread\<close>: constructing the \<open>jthread\<close> starts the thread.\<close>

definition start_thread :: "nat \<Rightarrow> threads \<Rightarrow> threads" where
  "start_thread t s = s\<lparr>phase_of := (phase_of s)(t := Running), main_at := Inserting t\<rparr>"

text \<open>The second half: the insertion.\<close>

definition finish_launch :: "nat \<Rightarrow> threads \<Rightarrow> threads" where
  "finish_launch t s = (snd (InsertNewThread t s))\<lparr>main_at := Launching\<rparr>"

text \<open>The condition under which \<open>WaitAll\<close> returns.\<close>

definition WaitAll_ready :: "threads \<Rightarrow> bool" where
  "WaitAll_ready s \<longleftrightarrow> thread_set s = {}"

text \<open>One turn of the loop inside \<open>wait(lock, pred)\<close>; the test and falling asleep are one step, as the mutex
  is held until the thread sleeps.\<close>

definition WaitAll_test :: "threads \<Rightarrow> threads" where
  "WaitAll_test s = s\<lparr>main_at := (if WaitAll_ready s then Returned else Asleep)\<rparr>"

definition notify_all :: "threads \<Rightarrow> threads" where
  "notify_all s = (if main_at s = Asleep then s\<lparr>main_at := Testing\<rparr> else s)"

text \<open>\<open>~ThreadCleanupSelf\<close>: whether the condition variable is notified. A thread that is not in the
  set fails the assertion, or dereferences the end iterator.\<close>

definition ThreadCleanupSelf :: "bool \<Rightarrow> nat \<Rightarrow> threads \<Rightarrow> bool result \<times> threads" where
  "ThreadCleanupSelf nd t s =
     (if t \<in> thread_set s then
        (let s' = s\<lparr>thread_set := thread_set s - {t}, phase_of := (phase_of s)(t := Detached)\<rparr> in
         (Inr (thread_set s' = {}), if thread_set s' = {} then notify_all s' else s'))
      else (Inl (if nd then UB ''thread_set.end()'' else Abort ''it != s.thread_set.end()''),
            s\<lparr>phase_of := (phase_of s)(t := Crashed)\<rparr>))"

text \<open>What is left of a thread after its function has returned.\<close>

definition thread_exit :: "nat \<Rightarrow> threads \<Rightarrow> threads" where
  "thread_exit t s = s\<lparr>phase_of := (phase_of s)(t := Finished)\<rparr>"

section \<open>Interleavings\<close>

inductive thread_step :: "bool \<Rightarrow> threads \<Rightarrow> threads \<Rightarrow> bool" for nd where
  launch: "main_at s = Launching \<Longrightarrow> phase_of s t = NotStarted \<Longrightarrow> thread_step nd s (start_thread t s)"
| insertion: "main_at s = Inserting t \<Longrightarrow> thread_step nd s (finish_launch t s)"
| wait: "main_at s = Launching \<Longrightarrow> thread_step nd s (s\<lparr>main_at := Testing\<rparr>)"
| test: "main_at s = Testing \<Longrightarrow> thread_step nd s (WaitAll_test s)"
| spurious: "main_at s = Asleep \<Longrightarrow> thread_step nd s (s\<lparr>main_at := Testing\<rparr>)"
| cleanup: "phase_of s t = Running \<Longrightarrow> thread_step nd s (snd (ThreadCleanupSelf nd t s))"
| exit: "phase_of s t = Detached \<Longrightarrow> thread_step nd s (thread_exit t s)"

definition threads_init :: "threads \<Rightarrow> bool" where
  "threads_init s \<longleftrightarrow> thread_set s = {} \<and> (\<forall>t. phase_of s t = NotStarted) \<and> main_at s = Launching"

text \<open>A running thread is in the set or about to be inserted; everything in the set is running, or
  crashed before its insertion; the main thread sleeps only while there is a thread to wait for.\<close>

definition threads_inv :: "threads \<Rightarrow> bool" where
  "threads_inv s \<longleftrightarrow>
     (\<forall>t. phase_of s t = Running \<longrightarrow> t \<in> thread_set s \<or> main_at s = Inserting t) \<and>
     (\<forall>t \<in> thread_set s. phase_of s t = Running \<or> phase_of s t = Crashed) \<and>
     (\<forall>t. main_at s = Inserting t \<longrightarrow> t \<notin> thread_set s \<and> (phase_of s t = Running \<or> phase_of s t = Crashed)) \<and>
     (main_at s = Returned \<longrightarrow> thread_set s = {}) \<and>
     (main_at s = Asleep \<longrightarrow> thread_set s \<noteq> {})"

lemmas thread_op_defs = InsertNewThread_def start_thread_def finish_launch_def WaitAll_ready_def
  ThreadCleanupSelf_def WaitAll_test_def notify_all_def thread_exit_def

lemma thread_step_inv: "threads_inv s \<Longrightarrow> thread_step nd s t \<Longrightarrow> threads_inv t"
  by (erule thread_step.cases) (auto simp: threads_inv_def thread_op_defs Let_def split: if_splits)

lemma threads_init_inv: "threads_init s \<Longrightarrow> threads_inv s"
  by (simp add: threads_init_def threads_inv_def)

interpretation thr: invariant_system threads_init "thread_step nd" threads_inv for nd
  by unfold_locales (auto intro: threads_init_inv thread_step_inv)

definition threads0 :: threads where
  "threads0 = \<lparr>thread_set = {}, phase_of = (\<lambda>_. NotStarted), main_at = Launching\<rparr>"

lemma reach_threads0: "reachable threads_init R threads0"
  by (rule reach_init) (simp add: threads_init_def threads0_def)

lemma reach_started: "reachable threads_init (thread_step nd) (start_thread 7 threads0)"
proof (rule reach_step)
  show "reachable threads_init (thread_step nd) threads0" by (rule reach_threads0)
  show "thread_step nd threads0 (start_thread 7 threads0)" by (rule launch) (simp_all add: threads0_def)
qed

lemma reach_inserted: "reachable threads_init (thread_step nd) (finish_launch 7 (start_thread 7 threads0))"
  by (rule reach_step [OF reach_started], rule insertion) (simp add: start_thread_def)

section \<open>Properties\<close>

text \<open>C25. When \<open>WaitAll\<close> has returned, every server thread that was launched has executed its function to
  the end, with the destructor of \<open>ThreadCleanupSelf\<close> last, or has crashed in that destructor: none
  is still running a session and the set is empty. A thread may still be on its way out then.\<close>

theorem WaitAll_waits_for_all:
  assumes "reachable threads_init (thread_step nd) s" "main_at s = Returned"
  shows "thread_set s = {} \<and> (\<forall>t. phase_of s t \<in> {NotStarted, Detached, Finished, Crashed})"
proof -
  have "phase_of s t \<noteq> Running" "thread_set s = {}" for t
    using thr.inv_reachable [OF assms(1)] assms(2) by (auto simp: threads_inv_def)
  then show ?thesis using thread_phase.exhaust by blast
qed

definition launched_run :: threads where
  "launched_run = WaitAll_test (snd (ThreadCleanupSelf True 7
     (WaitAll_test ((finish_launch 7 (start_thread 7 threads0))\<lparr>main_at := Testing\<rparr>))))"

lemma reach_launched_run: "reachable threads_init (thread_step True) launched_run"
proof -
  let ?b = "finish_launch 7 (start_thread 7 threads0)" let ?c = "?b\<lparr>main_at := Testing\<rparr>"
  let ?d = "WaitAll_test ?c" let ?e = "snd (ThreadCleanupSelf True 7 ?d)"
  have "reachable threads_init (thread_step True) ?c"
    by (rule reach_step [OF reach_inserted], rule wait) (simp add: finish_launch_def)
  then have "reachable threads_init (thread_step True) ?d" by (rule reach_step, intro test) simp
  then have "reachable threads_init (thread_step True) ?e"
    by (rule reach_step, intro cleanup) (simp add: thread_op_defs threads0_def)
  then show ?thesis unfolding launched_run_def
    by (rule reach_step, intro test) (simp_all add: thread_op_defs threads0_def Let_def)
qed

theorem WaitAll_waits_for_all_witness:
  "main_at launched_run = Returned \<and> phase_of launched_run 7 = Detached \<and> thread_set launched_run = {}"
proof -
  have "main_at launched_run = Returned" "phase_of launched_run 7 = Detached"
    by (simp_all add: launched_run_def thread_op_defs threads0_def Let_def)
  then show ?thesis using WaitAll_waits_for_all [OF reach_launched_run] by simp
qed

text \<open>The main thread can return, and the process end, while a detached thread still runs.\<close>

lemma returns_before_exit:
  "\<exists>s. reachable threads_init (thread_step True) s \<and> main_at s = Returned \<and> phase_of s 7 = Detached"
  using reach_launched_run by (intro exI [of _ launched_run]) (simp add: launched_run_def thread_op_defs threads0_def Let_def)

text \<open>A cleanup can fail only in the window between the start of a thread and its insertion: for
  a thread that is running while the main thread is not about to insert it, \<open>ThreadCleanupSelf\<close>
  succeeds and notifies exactly when it was the last, and then the main thread is not left asleep.\<close>

theorem cleanup_safe_after_insertion:
  assumes "reachable threads_init (thread_step nd) s" "phase_of s t = Running" "main_at s \<noteq> Inserting t"
  shows "\<exists>s'. ThreadCleanupSelf nd t s = (Inr (thread_set s = {t}), s') \<and>
    thread_set s' = thread_set s - {t} \<and> phase_of s' t = Detached \<and> (thread_set s = {t} \<longrightarrow> main_at s' \<noteq> Asleep)"
  using thr.inv_reachable [OF assms(1)] assms(2,3)
  by (auto simp: threads_inv_def thread_op_defs Let_def)

theorem cleanup_safe_after_insertion_witness:
  "\<exists>s'. ThreadCleanupSelf False 7 (finish_launch 7 (start_thread 7 threads0)) = (Inr True, s') \<and> thread_set s' = {}"
proof -
  let ?b = "finish_launch 7 (start_thread 7 threads0)"
  have "phase_of ?b 7 = Running" "main_at ?b \<noteq> Inserting 7" "thread_set ?b = {7}"
    by (simp_all add: thread_op_defs threads0_def)
  with cleanup_safe_after_insertion [OF reach_inserted [of False] this(1,2)] show ?thesis by auto
qed

text \<open>The window exists: a thread that ends before the main thread inserts it crashes.\<close>

lemma cleanup_before_insertion_crashes:
  "\<exists>s. reachable threads_init (thread_step nd) s \<and> phase_of s 7 = Crashed"
proof -
  let ?a = "start_thread 7 threads0"
  have "reachable threads_init (thread_step nd) (snd (ThreadCleanupSelf nd 7 ?a))"
    by (rule reach_step [OF reach_started], rule cleanup) (simp add: start_thread_def)
  moreover have "phase_of (snd (ThreadCleanupSelf nd 7 ?a)) 7 = Crashed"
    by (simp add: thread_op_defs threads0_def)
  ultimately show ?thesis by blast
qed

end
