(* ===== verification/Options.thy ===== *)
theory Options
  imports Kbot_Prelude
begin

text \<open>
  The command line (first half of \<open>main\<close> in \<open>src/src/main.cc\<close>): \<open>getopt\<close> with the option string of the
  program, \<open>std::stoi\<close> and the range check of the port, the password read from the standard input, and
  the loop that folds the options into the configuration. \<open>usage\<close> ends the process with status 0.
  \<open>getopt\<close> is the GNU one with its default ordering: operands may stand between options, and a
  lone \<open>--\<close> ends them.
\<close>

section \<open>Numbers\<close>

text \<open>\<open>isspace\<close> and \<open>isdigit\<close> of the C locale.\<close>

definition is_space :: "char \<Rightarrow> bool" where
  "is_space c \<longleftrightarrow> c \<in> {SP, CHR 0x09, LF, CHR 0x0B, CHR 0x0C, CR}"

definition is_digit :: "char \<Rightarrow> bool" where
  "is_digit c \<longleftrightarrow> 48 \<le> (of_char c :: nat) \<and> (of_char c :: nat) \<le> 57"

definition digits_val :: "string \<Rightarrow> nat" where
  "digits_val ds = foldl (\<lambda>a c. 10 * a + (of_char c - 48)) 0 ds"

text \<open>\<open>std::stoi\<close>: white space, a sign, the longest run of digits; what follows is ignored. Without
  digits it throws \<open>invalid_argument\<close>, a \<open>logic_error\<close>; outside of \<open>int\<close> it throws \<open>out_of_range\<close>.\<close>

definition stoi :: "string \<Rightarrow> int result" where
  "stoi s =
     (let t = dropWhile is_space s;
          neg = (t \<noteq> [] \<and> hd t = CHR ''-'');
          u = (if t \<noteq> [] \<and> hd t \<in> {CHR ''-'', CHR ''+''} then tl t else t);
          ds = takeWhile is_digit u;
          v = (if neg then - int (digits_val ds) else int (digits_val ds))
      in if ds = [] then Inl (LogicError ''stoi'')
         else if v < - (2 ^ 31) \<or> 2 ^ 31 \<le> v then Inl OutOfRange else Inr v)"

section \<open>getopt\<close>

datatype arg_mode = NoArg | ReqArg | OptArg

definition opt_mode :: "string \<Rightarrow> char \<Rightarrow> arg_mode option" where
  "opt_mode os c =
     (if c = CHR '':'' then None
      else case dropWhile (\<lambda>x. x \<noteq> c) os of
        [] \<Rightarrow> None
      | _ # r \<Rightarrow> Some (case takeWhile (\<lambda>x. x = CHR '':'') r of [] \<Rightarrow> NoArg | [_] \<Rightarrow> ReqArg | _ \<Rightarrow> OptArg))"

text \<open>The characters of one element after the dash: the options it yields and the elements left.\<close>

fun scan_cluster :: "string \<Rightarrow> string \<Rightarrow> string list \<Rightarrow> (char \<times> string option) list \<times> string list" where
  "scan_cluster os [] rest = ([], rest)"
| "scan_cluster os (c # cs) rest =
     (case opt_mode os c of
        None \<Rightarrow> (let (r, rest') = scan_cluster os cs rest in ((CHR ''?'', None) # r, rest'))
      | Some NoArg \<Rightarrow> (let (r, rest') = scan_cluster os cs rest in ((c, None) # r, rest'))
      | Some OptArg \<Rightarrow> ([(c, if cs = [] then None else Some cs)], rest)
      | Some ReqArg \<Rightarrow>
          (if cs \<noteq> [] then ([(c, Some cs)], rest)
           else case rest of a # rest' \<Rightarrow> ([(c, Some a)], rest') | [] \<Rightarrow> ([(CHR ''?'', None)], [])))"

lemma scan_cluster_length: "length (snd (scan_cluster os cs rest)) \<le> length rest"
  by (induction os cs rest rule: scan_cluster.induct)
    (auto simp: Let_def split: option.split arg_mode.split list.split prod.splits)

text \<open>What the calls of \<open>getopt\<close> return until it returns -1, each with \<open>optarg\<close>.\<close>

function getopt_all :: "string \<Rightarrow> string list \<Rightarrow> (char \<times> string option) list" where
  "getopt_all os [] = []"
| "getopt_all os (a # rest) =
     (if a = ''--'' then []
      else if 1 < length a \<and> hd a = CHR ''-'' then
        (case scan_cluster os (tl a) rest of (r, rest') \<Rightarrow> r @ getopt_all os rest')
      else getopt_all os rest)"
  by pat_completeness auto
termination
proof (relation "measure (\<lambda>(os, args). length args)")
  fix os a rest r rest'
  assume "(r, rest') = scan_cluster os (tl a) rest"
  then have "snd (scan_cluster os (tl a) rest) = rest'" by (metis snd_conv)
  then show "((os, rest'), os, a # rest) \<in> measure (\<lambda>(os, args). length args)"
    using scan_cluster_length [of os "tl a" rest] by (simp add: le_imp_less_Suc)
qed auto

section \<open>The configuration\<close>

record config =
  cf_address :: string
  cf_port :: "16 word"
  cf_nickname :: string
  cf_channel :: string
  cf_password :: string
  cf_ssl :: bool

definition default_config :: config where
  "default_config = \<lparr>cf_address = ''chat.freenode.net'', cf_port = 6667, cf_nickname = ''kbot'',
     cf_channel = ''##kbot'', cf_password = [], cf_ssl = False\<rparr>"

text \<open>How \<open>main\<close> ends before its last line: the process exits, or a failure leaves it.\<close>

datatype stop = Exit int | Crash cpp_error

definition usage :: "stop + 'a" where
  "usage = Inl (Exit 0)"

text \<open>The option \<open>p\<close>: both exceptions of \<open>stoi\<close> and a value that does not fit end in \<open>usage\<close>.\<close>

definition parse_port :: "string \<Rightarrow> (16 word) option" where
  "parse_port a = (case stoi a of
      Inl _ \<Rightarrow> None
    | Inr r \<Rightarrow> if r < 0 \<or> 65535 < r then None else Some (of_int r))"

text \<open>\<open>std::cin >> password\<close>: the next word of the input. At the end of the input the string stays as
  it was.\<close>

definition read_word :: "string \<Rightarrow> string \<Rightarrow> string \<times> string" where
  "read_word input old =
     (let t = dropWhile is_space input in
      if t = [] then (old, []) else (takeWhile (\<lambda>c. \<not> is_space c) t, dropWhile (\<lambda>c. \<not> is_space c) t))"

text \<open>An argument that the code reads without a test; a null pointer would be undefined behaviour.\<close>

definition need :: "string option \<Rightarrow> (string \<Rightarrow> stop + 'a) \<Rightarrow> stop + 'a" where
  "need arg f = (case arg of None \<Rightarrow> Inl (Crash (UB ''null optarg'')) | Some a \<Rightarrow> f a)"

text \<open>One round of the \<open>switch\<close>, on the configuration and the rest of the standard input.\<close>

definition option_case :: "char \<Rightarrow> string option \<Rightarrow> config \<times> string \<Rightarrow> stop + config \<times> string" where
  "option_case opt optarg st =
     (case st of (cf, input) \<Rightarrow>
      if opt = CHR ''s'' then need optarg (\<lambda>a. Inr (cf\<lparr>cf_address := a\<rparr>, input))
      else if opt = CHR ''n'' then need optarg (\<lambda>a. Inr (cf\<lparr>cf_nickname := a\<rparr>, input))
      else if opt = CHR ''p'' then
        need optarg (\<lambda>a. case parse_port a of None \<Rightarrow> usage | Some p \<Rightarrow> Inr (cf\<lparr>cf_port := p\<rparr>, input))
      else if opt = CHR ''c'' then need optarg (\<lambda>a. Inr (cf\<lparr>cf_channel := a\<rparr>, input))
      else if opt = CHR ''x'' then
        (case optarg of
           Some a \<Rightarrow> Inr (cf\<lparr>cf_password := a\<rparr>, input)
         | None \<Rightarrow> (let (w, input') = read_word input (cf_password cf) in Inr (cf\<lparr>cf_password := w\<rparr>, input')))
      else if opt = CHR ''l'' then Inr (cf\<lparr>cf_ssl := True\<rparr>, input)
      else usage)"

fun options_loop :: "(char \<times> string option) list \<Rightarrow> config \<times> string \<Rightarrow> stop + config \<times> string" where
  "options_loop [] st = Inr st"
| "options_loop ((opt, optarg) # os) st =
     (case option_case opt optarg st of Inl x \<Rightarrow> Inl x | Inr st' \<Rightarrow> options_loop os st')"

definition optstring :: string where
  "optstring = ''hs:n:p:c:x::l''"

text \<open>The arguments without the program's name, and the standard input.\<close>

definition parse_options :: "string list \<Rightarrow> string \<Rightarrow> stop + config \<times> string" where
  "parse_options args input = options_loop (getopt_all optstring args) (default_config, input)"

section \<open>Numbers: digits in, digits out\<close>

lemma digits_val_snoc: "digits_val (ds @ [c]) = 10 * digits_val ds + (of_char c - 48)"
  by (simp add: digits_val_def)

lemma digit_char: "n < 10 \<Longrightarrow> is_digit (char_of (48 + n)) \<and> of_char (char_of (48 + n) :: char) - (48::nat) = n"
  by (simp add: is_digit_def of_char_of)

lemma show_nat_digits: "show_nat n \<noteq> [] \<and> (\<forall>c \<in> set (show_nat n). is_digit c) \<and> digits_val (show_nat n) = n"
proof (induction n rule: show_nat.induct)
  case (1 n)
  show ?case
  proof (cases "n < 10")
    case True
    then show ?thesis using digit_char [of n] by (simp add: show_nat.simps [of n] digits_val_def)
  next
    case False
    have "n mod 10 < 10" by simp
    then show ?thesis using 1 [OF False] digit_char [of "n mod 10"] False
      by (auto simp: show_nat.simps [of n] digits_val_snoc)
  qed
qed

lemma digit_not_sign: "is_digit c \<Longrightarrow> \<not> is_space c \<and> c \<noteq> CHR ''-'' \<and> c \<noteq> CHR ''+''"
  by (auto simp: is_digit_def is_space_def)

text \<open>\<open>stoi\<close> on its shape.\<close>

lemma stoi_digits:
  assumes "\<forall>c \<in> set ws. is_space c" "sg \<in> {[], ''-'', ''+''}" "ds \<noteq> []" "\<forall>c \<in> set ds. is_digit c"
    and "rest = [] \<or> \<not> is_digit (hd rest)"
  shows "stoi (ws @ sg @ ds @ rest) =
    (let v = (if sg = ''-'' then - int (digits_val ds) else int (digits_val ds)) in
     if v < - (2 ^ 31) \<or> 2 ^ 31 \<le> v then Inl OutOfRange else Inr v)"
proof -
  obtain d ds' where d: "ds = d # ds'" using assms(3) by (cases ds) auto
  have hd: "\<not> is_space d" "d \<noteq> CHR ''-''" "d \<noteq> CHR ''+''" using digit_not_sign [of d] assms(4) d by auto
  have sp: "\<not> is_space (CHR ''-'')" "\<not> is_space (CHR ''+'')" by (simp_all add: is_space_def)
  have w: "dropWhile is_space (ws @ sg @ ds @ rest) = sg @ ds @ rest"
    using assms(1,2) d hd(1) sp by (auto simp: dropWhile_append)
  have t: "takeWhile is_digit (ds @ rest) = ds"
    using assms(4,5) by (cases rest) (auto simp: takeWhile_append)
  show ?thesis using assms(2,3) w t d hd by (auto simp: stoi_def Let_def)
qed

lemma stoi_shape:
  assumes "stoi s = Inr v"
  obtains ws sg ds rest where "s = ws @ sg @ ds @ rest" "\<forall>c \<in> set ws. is_space c" "sg \<in> {[], ''-'', ''+''}"
    "ds \<noteq> []" "\<forall>c \<in> set ds. is_digit c" "rest = [] \<or> \<not> is_digit (hd rest)"
    "v = (if sg = ''-'' then - int (digits_val ds) else int (digits_val ds))"
proof -
  let ?t = "dropWhile is_space s"
  let ?sg = "if ?t \<noteq> [] \<and> hd ?t \<in> {CHR ''-'', CHR ''+''} then [hd ?t] else []"
  let ?u = "if ?t \<noteq> [] \<and> hd ?t \<in> {CHR ''-'', CHR ''+''} then tl ?t else ?t"
  show ?thesis
  proof (rule that [of "takeWhile is_space s" ?sg "takeWhile is_digit ?u" "dropWhile is_digit ?u"])
    have "?sg @ ?u = ?t" by simp
    then show "s = takeWhile is_space s @ ?sg @ takeWhile is_digit ?u @ dropWhile is_digit ?u" by simp
    show "\<forall>c \<in> set (takeWhile is_space s). is_space c" by (auto dest: set_takeWhileD)
    show "?sg \<in> {[], ''-'', ''+''}" by simp
    show "takeWhile is_digit ?u \<noteq> []" using assms by (auto simp: stoi_def Let_def split: if_splits)
    show "\<forall>c \<in> set (takeWhile is_digit ?u). is_digit c" by (auto dest: set_takeWhileD)
    show "dropWhile is_digit ?u = [] \<or> \<not> is_digit (hd (dropWhile is_digit ?u))"
      using hd_dropWhile by blast
    show "v = (if ?sg = ''-'' then - int (digits_val (takeWhile is_digit ?u)) else int (digits_val (takeWhile is_digit ?u)))"
      using assms by (auto simp: stoi_def Let_def split: if_splits)
  qed
qed

lemma parse_port_show: "parse_port (show_nat (unat p)) = Some p"
proof -
  have u: "uint p < 65536" "0 \<le> uint p" using unsigned_less [of p] by simp_all
  have "stoi (show_nat (unat p)) = Inr (uint p)"
    using stoi_digits [of "[]" "[]" "show_nat (unat p)" "[]"] show_nat_digits [of "unat p"] u by (simp add: Let_def)
  then show ?thesis using u by (simp add: parse_port_def)
qed

section \<open>Rendering settings\<close>

text \<open>What a user wants to set, how it is written on the command line, and what it means.\<close>

datatype setting = Host string | Nick string | Port "16 word" | Chan string | Password string | Ssl | Operand string

fun render :: "setting \<Rightarrow> string list" where
  "render (Host a) = [''-s'', a]"
| "render (Nick a) = [''-n'', a]"
| "render (Port p) = [''-p'', show_nat (unat p)]"
| "render (Chan a) = [''-c'', a]"
| "render (Password a) = [''-x'' @ a]"
| "render Ssl = [''-l'']"
| "render (Operand a) = [a]"

fun apply_setting :: "setting \<Rightarrow> config \<times> string \<Rightarrow> config \<times> string" where
  "apply_setting (Host a) (cf, i) = (cf\<lparr>cf_address := a\<rparr>, i)"
| "apply_setting (Nick a) (cf, i) = (cf\<lparr>cf_nickname := a\<rparr>, i)"
| "apply_setting (Port p) (cf, i) = (cf\<lparr>cf_port := p\<rparr>, i)"
| "apply_setting (Chan a) (cf, i) = (cf\<lparr>cf_channel := a\<rparr>, i)"
| "apply_setting (Password a) (cf, i) =
     (if a = [] then (case read_word i (cf_password cf) of (w, i') \<Rightarrow> (cf\<lparr>cf_password := w\<rparr>, i'))
      else (cf\<lparr>cf_password := a\<rparr>, i))"
| "apply_setting Ssl (cf, i) = (cf\<lparr>cf_ssl := True\<rparr>, i)"
| "apply_setting (Operand a) (cf, i) = (cf, i)"

definition plain_operand :: "setting \<Rightarrow> bool" where
  "plain_operand st \<longleftrightarrow> (case st of Operand a \<Rightarrow> a = [] \<or> hd a \<noteq> CHR ''-'' | _ \<Rightarrow> True)"

lemma opt_modes [simp]:
  "opt_mode optstring (CHR ''s'') = Some ReqArg" "opt_mode optstring (CHR ''n'') = Some ReqArg"
  "opt_mode optstring (CHR ''p'') = Some ReqArg" "opt_mode optstring (CHR ''c'') = Some ReqArg"
  "opt_mode optstring (CHR ''x'') = Some OptArg" "opt_mode optstring (CHR ''l'') = Some NoArg"
  by (simp_all add: opt_mode_def optstring_def)

lemma options_loop_setting:
  assumes "plain_operand st"
  shows "options_loop (getopt_all optstring (render st @ args)) s =
    options_loop (getopt_all optstring args) (apply_setting st s)"
  using assms
  by (cases st; cases s)
    (auto simp: option_case_def need_def parse_port_show Let_def plain_operand_def split: prod.split)

lemma options_loop_settings:
  "list_all plain_operand sts \<Longrightarrow>
     options_loop (getopt_all optstring (concat (map render sts) @ args)) s =
     options_loop (getopt_all optstring args) (fold apply_setting sts s)"
  by (induction sts arbitrary: s) (simp_all add: options_loop_setting)

section \<open>No failures\<close>

definition opt_ok :: "char \<times> string option \<Rightarrow> bool" where
  "opt_ok oa \<longleftrightarrow> (case oa of (c, arg) \<Rightarrow> opt_mode optstring c = Some ReqArg \<longrightarrow> arg \<noteq> None)"

lemma opt_ok_simps [simp]:
  "opt_ok (c, Some a)" "opt_ok (c, None) \<longleftrightarrow> opt_mode optstring c \<noteq> Some ReqArg"
  "opt_mode optstring (CHR ''?'') = None"
  by (simp_all add: opt_ok_def opt_mode_def optstring_def)

lemma scan_cluster_ok: "list_all opt_ok (fst (scan_cluster optstring cs rest))"
proof (induction cs arbitrary: rest)
  case (Cons c cs)
  show ?case using Cons [of rest]
    by (auto simp: Let_def split: option.split arg_mode.split list.split prod.splits)
qed simp

lemma getopt_all_ok: "list_all opt_ok (getopt_all optstring args)"
proof (induction "optstring" args rule: getopt_all.induct)
  case (2 a rest)
  show ?case using 2 scan_cluster_ok [of "tl a" rest] by (auto split: prod.split)
qed simp

lemma option_case_ok:
  assumes "opt_ok (c, arg)"
  shows "option_case c arg st \<noteq> Inl (Crash err) \<and> (option_case c arg st = Inl (Exit k) \<longrightarrow> k = 0)"
  using assms
  by (cases st; cases arg) (auto simp: option_case_def need_def usage_def opt_ok_def Let_def split: option.split prod.split)

lemma options_loop_ok:
  "list_all opt_ok os \<Longrightarrow> options_loop os st = Inl x \<Longrightarrow> x = Exit 0"
proof (induction os arbitrary: st)
  case (Cons o' os)
  obtain c arg where [simp]: "o' = (c, arg)" by (cases o')
  show ?case
  proof (cases "option_case c arg st")
    case (Inl y)
    then show ?thesis using Cons option_case_ok [of c arg st] by (cases y) auto
  next
    case (Inr st')
    then show ?thesis using Cons by auto
  qed
qed simp

section \<open>Properties\<close>

text \<open>The options that the usage text describes as \<open>getopt\<close> reads them: \<open>-s\<close>, \<open>-n\<close>, \<open>-p\<close> and \<open>-c\<close> with
  their argument as the next word, and \<open>-l\<close>.\<close>

definition documented :: "setting \<Rightarrow> bool" where
  "documented st \<longleftrightarrow> (case st of Password a \<Rightarrow> False | Operand a \<Rightarrow> False | _ \<Rightarrow> True)"

text \<open>C17. The options \<open>-s\<close>, \<open>-n\<close>, \<open>-p\<close>, \<open>-c\<close> and \<open>-l\<close> mean what the usage text says: every list of them, in any
  order and repeated, each argument as a word of its own, is parsed to exactly these settings applied to the
  defaults in that order. In particular every 16-bit port survives being printed and parsed. The password option and
  operands, where the usage text and the code differ, are not among them.\<close>

theorem parse_options_roundtrip:
  assumes "list_all documented sts"
  shows "parse_options (concat (map render sts)) input = Inr (fold apply_setting sts (default_config, input))"
proof -
  have "list_all plain_operand sts"
    using assms by (rule list.pred_mono_strong) (simp add: documented_def plain_operand_def split: setting.splits)
  then show ?thesis using options_loop_settings [of sts "[]"] by (simp add: parse_options_def)
qed

theorem parse_options_roundtrip_witness:
  "parse_options [''-s'', ''irc.example.net'', ''-l'', ''-p'', show_nat (unat (6697::16 word)), ''-s'', ''irc.example.org''] [] =
     Inr (default_config\<lparr>cf_address := ''irc.example.org'', cf_port := 6697, cf_ssl := True\<rparr>, [])"
  using parse_options_roundtrip [of "[Host ''irc.example.net'', Ssl, Port 6697, Host ''irc.example.org'']" "[]"]
  by (simp add: documented_def)

text \<open>What the code does where the usage text says otherwise: operands are skipped, and a password that follows
  \<open>-x\<close> as a word of its own is such an operand, while the password is read from the input.\<close>

lemma operands_ignored:
  assumes "a = [] \<or> hd a \<noteq> CHR ''-''"
  shows "parse_options (a # args) input = parse_options args input"
  using options_loop_setting [of "Operand a" args] assms by (simp add: parse_options_def plain_operand_def)

lemma password_word_ignored:
  assumes "a = [] \<or> hd a \<noteq> CHR ''-''"
  shows "parse_options [''-x'', a] input =
    Inr (default_config\<lparr>cf_password := fst (read_word input [])\<rparr>, snd (read_word input []))"
  using options_loop_settings [of "[Password [], Operand a]" "[]" "(default_config, input)"] assms
  by (simp add: parse_options_def plain_operand_def default_config_def split: prod.split)

text \<open>A port that is accepted is the number that was written: the argument consists of white space,
  an optional sign, digits and an ignored rest, their value lies in the range of the port, and the
  conversion to 16 bits does not change it.\<close>

theorem parse_port_exact:
  assumes "parse_port a = Some p"
  shows "\<exists>ws sg ds rest. a = ws @ sg @ ds @ rest \<and> (\<forall>c \<in> set ws. is_space c) \<and> sg \<in> {[], ''-'', ''+''} \<and>
    ds \<noteq> [] \<and> (\<forall>c \<in> set ds. is_digit c) \<and> (rest = [] \<or> \<not> is_digit (hd rest)) \<and>
    uint p = (if sg = ''-'' then - int (digits_val ds) else int (digits_val ds))"
proof -
  obtain r where r: "stoi a = Inr r" "0 \<le> r" "r \<le> 65535" "p = of_int r"
    using assms by (auto simp: parse_port_def split: sum.splits if_splits)
  have u: "uint p = r" using r by (simp add: uint_word_of_int take_bit_int_eq_self)
  show ?thesis by (rule stoi_shape [OF r(1)]) (unfold u, blast)
qed

theorem parse_port_exact_witness:
  "parse_port '' +0443/tcp'' = Some 443 \<and> (\<exists>ds. ds \<noteq> [] \<and> uint (443::16 word) = int (digits_val ds))"
proof -
  have p: "parse_port '' +0443/tcp'' = Some 443" by code_simp
  obtain sg ds where "ds \<noteq> []" "uint (443::16 word) = (if sg = ''-'' then - int (digits_val ds) else int (digits_val ds))"
    using parse_port_exact [OF p] by blast
  then show ?thesis using p by (auto split: if_splits)
qed

text \<open>No command line makes the parser fail: it returns a configuration, or the process exits with
  status 0 after printing the usage. No null argument is ever dereferenced.\<close>

theorem parse_options_total:
  "(\<exists>cf rest. parse_options args input = Inr (cf, rest)) \<or> parse_options args input = Inl (Exit 0)"
  using options_loop_ok [OF getopt_all_ok, of args "(default_config, input)"]
  by (cases "parse_options args input") (auto simp: parse_options_def)

end
