(* ===== verification/Program.thy ===== *)
theory Program
  imports Session Threads Options "HOL-Library.List_Lexorder" "HOL-Library.Char_ord"
begin

text \<open>
  The program (\<open>main\<close> in \<open>src/src/main.cc\<close>): options, connection, the server thread with its entry in
  the set of threads, and waiting for it. Whether the thread ends before or after the main thread has
  inserted it into the set is a parameter, the schedule. An exception that leaves the thread function terminates the process.
\<close>

section \<open>The main function\<close>

text \<open>From \<open>LaunchServerThread\<close> to the end: the thread runs and removes itself from the set, and \<open>WaitAll\<close>
  returns when the set is empty. With \<open>early\<close> the thread reaches its cleanup before the main thread has come to
  \<open>InsertNewThread\<close>.\<close>

definition launch_and_wait :: "env \<Rightarrow> bool \<Rightarrow> (unit result \<times> trace) option \<Rightarrow> (stop \<times> trace) option" where
  "launch_and_wait e early thread =
     (let started = start_thread 0 threads0;
          th = (if early then started else finish_launch 0 started) in
      case thread of
        None \<Rightarrow> None
      | Some (Inl err, tr) \<Rightarrow> Some (Crash err, tr)
      | Some (Inr _, tr) \<Rightarrow>
          (case ThreadCleanupSelf (ndebug e) 0 th of
             (Inl err, _) \<Rightarrow> Some (Crash err, tr)
           | (Inr _, th') \<Rightarrow> if WaitAll_ready th' then Some (Exit 0, tr) else None))"

definition main_program :: "env \<Rightarrow> bool \<Rightarrow> worker_cb worker plugin_code \<Rightarrow> string list \<Rightarrow> string \<Rightarrow> int \<Rightarrow> world \<Rightarrow>
    (stop \<times> trace) option" where
  "main_program e early P args input sig w =
     (case parse_options args input of
        Inl stop \<Rightarrow> Some (stop, w_trace w)
      | Inr (cf, _) \<Rightarrow>
          (case ConnectionNew e (c_str (cf_address cf)) (cf_port cf) (c_str (cf_nickname cf)) w of
             (Inl (RuntimeError what), w') \<Rightarrow> Some (Exit 1, w_trace w')
           | (Inl err, w') \<Rightarrow> Some (Crash err, w_trace w')
           | (Inr None, w') \<Rightarrow> (case usage of Inl stop \<Rightarrow> Some (stop, w_trace w') | Inr () \<Rightarrow> Some (Exit 1, w_trace w'))
           | (Inr (Some c), w') \<Rightarrow>
               launch_and_wait e early
                 (server_thread e P (c_str (cf_nickname cf)) (cf_password cf) (c_str (cf_channel cf)) c sig w')))"

section \<open>Connecting and waiting\<close>

lemma connect_loop_quiet:
  "\<exists>fd' s'. connect_loop e ais fd s = (Inr fd', s') \<and> closes (w_trace s') = closes (w_trace s) \<and>
     (\<forall>h. handle_balance h (w_trace s') = handle_balance h (w_trace s))"
proof (induction ais arbitrary: fd s)
  case (Cons i ais)
  let ?fd = "os_socket e (w_trace s) i" let ?s1 = "log_io (EvSocket i ?fd) s"
  let ?s2 = "log_io (EvConnect ?fd i (os_connect e (w_trace ?s1) ?fd i)) ?s1"
  show ?case using Cons [of ?fd ?s2] by (simp add: sys_socket_def sys_connect_def cbind_apply Let_def)
qed simp

lemma ConnectionNew_quiet:
  "\<exists>c s'. ConnectionNew e addr prt nick s = (Inr c, s') \<and> closes (w_trace s') = closes (w_trace s) \<and>
     (\<forall>h. handle_balance h (w_trace s') = handle_balance h (w_trace s)) \<and> (\<forall>k. c = Some k \<longrightarrow> 0 \<le> c_fd k)"
proof (cases "os_getaddrinfo e (w_trace s) (c_str addr) (show_nat (unat prt))")
  case None
  then show ?thesis by (simp add: ConnectionNew_def GetConnectionFd_def cbind_apply)
next
  case (Some ais)
  obtain fd s' where "connect_loop e ais (-1) s = (Inr fd, s')" "closes (w_trace s') = closes (w_trace s)"
    "\<forall>h. handle_balance h (w_trace s') = handle_balance h (w_trace s)" using connect_loop_quiet by blast
  then show ?thesis using Some
    by (auto simp: ConnectionNew_def GetConnectionFd_def cbind_apply)
qed

lemma launch_and_wait_simps [simp]:
  "launch_and_wait e early None = None"
  "launch_and_wait e early (Some (Inl err, tr)) = Some (Crash err, tr)"
  "launch_and_wait e early (Some (Inr (), tr)) =
     Some (if early then Crash (if ndebug e then UB ''thread_set.end()'' else Abort ''it != s.thread_set.end()'') else Exit 0, tr)"
  by (simp_all add: launch_and_wait_def thread_op_defs threads0_def Let_def)

section \<open>Properties\<close>

text \<open>An environment for concrete runs in which every send fails, so that the login does.\<close>

definition mute_env :: env where
  "mute_env = calm_env\<lparr>os_send := \<lambda>_ _ _. (-1, 32), map_order := sorted_list_of_set\<rparr>"

lemma mute_session_env: "session_env mute_env" "ndebug mute_env" "os_epoll_create mute_env = (\<lambda>_. 4)"
    "os_dlsym mute_env h symbol = Some 1" "os_getaddrinfo mute_env = (\<lambda>_ _ _. Some [0])"
    "os_socket mute_env = (\<lambda>_ _. 3)" "os_connect mute_env = (\<lambda>_ _ _. 0)"
  by (simp_all add: session_env_def wait_reports_registered_def mute_env_def calm_env_def)

text \<open>C10. What a server thread leaves behind, with the version plugin, on a connected socket, when the kernel
  reports registered descriptors only, iterating over a hash map meets every key and no plugin handle is open before:
  if the thread function returns, it has closed exactly its socket and its epoll descriptor, once each and in this
  order, and no plugin handle is open. It fails in three cases only: no epoll descriptor could be made, and the
  exception leaves the thread; a plugin command called a symbol that the loader did not find; an assertion failed
  in a build that has them.\<close>

theorem server_thread_releases:
  assumes "session_env e" "0 \<le> c_fd c" "\<forall>h. handle_balance h (w_trace w) = 0"
    and "server_thread e (version_plugin e a) nick password ch c sig w = Some (r, tr)"
  shows "case r of
      Inr _ \<Rightarrow> closes tr = closes (w_trace w) @ [c_fd c, os_epoll_create e (w_trace w)] \<and> (\<forall>h. handle_balance h tr = 0)
    | Inl err \<Rightarrow> (err = RuntimeError ''Failed to create epoll fd'' \<and> os_epoll_create e (w_trace w) < 0) \<or>
        (err = UB ''call of a null pointer'' \<and> (\<exists>h symbol. os_dlsym e h symbol = None)) \<or>
        (\<not> ndebug e \<and> (\<exists>w. err = Abort w))"
  using server_thread_ends [OF assms] by (auto simp: line_failure_def null_call_def) blast

definition conn0 :: connection where
  "conn0 = \<lparr>c_fd = 3, c_address = ''irc'', c_port = 6667, c_nickname = ''kbot''\<rparr>"

lemma mute_thread_ends:
  "\<exists>r tr. server_thread mute_env P nick [] ch c SIGRTMIN w = Some (r, tr)"
proof -
  have start: "\<exists>s. session_start mute_env nick [] ch m = (Inr False, s)" for m :: "worker_cb worker"
    by (simp add: session_start_def IRC_Login_def IRC_Nick_def SendMsg_def sys_send_def mute_env_def cbind_apply Let_def)
  have "\<exists>r t. session_body mute_env P nick [] ch m = Some (r, t)" for m :: "worker_cb worker"
  proof -
    obtain s where "session_start mute_env nick [] ch m = (Inr False, s)" using start by blast
    then show ?thesis by (simp add: session_body_def)
  qed
  then show ?thesis
    by (simp add: server_thread_def CreateNew_def sys_epoll_create_def mute_session_env Let_def)
qed

theorem server_thread_releases_witness:
  "\<exists>tr. server_thread mute_env (version_plugin mute_env 9) ''kbot'' [] ''#c'' conn0 SIGRTMIN \<lparr>w_trace = [], w_errno = 0\<rparr> =
     Some (Inr (), tr) \<and> closes tr = [3, 4]"
proof -
  obtain r tr where run: "server_thread mute_env (version_plugin mute_env 9) ''kbot'' [] ''#c'' conn0 SIGRTMIN
      \<lparr>w_trace = [], w_errno = 0\<rparr> = Some (r, tr)" using mute_thread_ends by blast
  then show ?thesis
    using server_thread_releases [OF mute_session_env(1) _ _ run]
    by (cases r) (auto simp: mute_session_env conn0_def)
qed

text \<open>C3. How the program can end, with the version plugin, from an empty trace, when the kernel reports registered
  descriptors only and iterating over a hash map meets every key, whatever the command line, the input, the server
  and the users send, and for both schedules: it exits with status 0, every plugin handle is closed, and it has
  closed either nothing (no connection was made) or exactly one socket and one epoll descriptor; or it is
  terminated, in four cases only: no epoll descriptor could be made, a plugin command called a symbol that the loader
  did not find, an assertion failed in a build that has them, or the server thread ended before it was inserted
  into the set of threads.\<close>

theorem main_program_outcomes:
  assumes "session_env e"
    and "main_program e early (version_plugin e a) args input sig \<lparr>w_trace = [], w_errno = 0\<rparr> = Some (stop, tr)"
  shows "(stop = Exit 0 \<and> (\<forall>h. handle_balance h tr = 0) \<and> (closes tr = [] \<or> (\<exists>fd ep. closes tr = [fd, ep]))) \<or>
    (stop = Crash (RuntimeError ''Failed to create epoll fd'') \<and> (\<exists>tr. os_epoll_create e tr < 0)) \<or>
    (stop = Crash (UB ''call of a null pointer'') \<and> (\<exists>h symbol. os_dlsym e h symbol = None)) \<or>
    (\<not> ndebug e \<and> (\<exists>w. stop = Crash (Abort w))) \<or>
    (early \<and> stop = Crash (UB ''thread_set.end()''))"
proof (cases "parse_options args input")
  case (Inl x)
  then have "x = Exit 0"
    using options_loop_ok [OF getopt_all_ok] by (auto simp: parse_options_def)
  then show ?thesis using Inl assms(2) by (simp add: main_program_def)
next
  case (Inr st)
  obtain cf rest where st: "st = (cf, rest)" by (cases st)
  let ?w = "\<lparr>w_trace = [], w_errno = 0\<rparr>"
  let ?C = "ConnectionNew e (c_str (cf_address cf)) (cf_port cf) (c_str (cf_nickname cf)) ?w"
  obtain c w' where C: "?C = (Inr c, w')" "closes (w_trace w') = []" "\<forall>k. c = Some k \<longrightarrow> 0 \<le> c_fd k"
    and bal: "\<forall>h. handle_balance h (w_trace w') = 0"
    using ConnectionNew_quiet [of e "c_str (cf_address cf)" "cf_port cf" "c_str (cf_nickname cf)" ?w] by auto
  show ?thesis
  proof (cases c)
    case None
    then show ?thesis using Inr st C bal assms(2) by (auto simp: main_program_def usage_def)
  next
    case (Some k)
    let ?T = "server_thread e (version_plugin e a) (c_str (cf_nickname cf)) (cf_password cf) (c_str (cf_channel cf)) k sig w'"
    have run: "launch_and_wait e early ?T = Some (stop, tr)"
      using assms(2) Inr st C(1) Some by (simp add: main_program_def)
    then obtain r tr' where y: "?T = Some (r, tr')" by (cases ?T) auto
    have "0 \<le> c_fd k" using C(3) Some by simp
    from server_thread_ends [OF assms(1) this bal y] show ?thesis
    proof (elim disjE)
      assume "r = Inr () \<and> closes tr' = closes (w_trace w') @ [c_fd k, os_epoll_create e (w_trace w')] \<and>
        (\<forall>h. handle_balance h tr' = 0)"
      then show ?thesis using run y C(2) by (auto split: if_splits)
    next
      assume "r = Inl (RuntimeError ''Failed to create epoll fd'') \<and> os_epoll_create e (w_trace w') < 0"
      then show ?thesis using run y by auto
    next
      assume "\<exists>err. r = Inl err \<and> line_failure e err"
      then show ?thesis using run y by (auto simp: line_failure_def null_call_def)
    qed
  qed
qed

text \<open>A server that refuses the login, for both schedules.\<close>

theorem main_program_outcomes_witness:
  "\<exists>tr. main_program mute_env False (version_plugin mute_env 9) [] [] SIGRTMIN \<lparr>w_trace = [], w_errno = 0\<rparr> = Some (Exit 0, tr) \<and>
     (closes tr = [] \<or> (\<exists>fd ep. closes tr = [fd, ep])) \<and>
     main_program mute_env True (version_plugin mute_env 9) [] [] SIGRTMIN \<lparr>w_trace = [], w_errno = 0\<rparr> =
       Some (Crash (UB ''thread_set.end()''), tr)"
proof -
  let ?P = "version_plugin mute_env 9 :: worker_cb worker plugin_code" and ?w = "\<lparr>w_trace = [], w_errno = 0\<rparr>"
  obtain c w' nick ch where m: "main_program mute_env early ?P [] [] SIGRTMIN ?w =
      launch_and_wait mute_env early (server_thread mute_env ?P nick [] ch c SIGRTMIN w')" for early
    by (simp add: main_program_def parse_options_def default_config_def ConnectionNew_def GetConnectionFd_def
        sys_socket_def sys_connect_def mute_session_env cbind_apply Let_def)
  obtain r tr where T: "server_thread mute_env ?P nick [] ch c SIGRTMIN w' = Some (r, tr)"
    using mute_thread_ends by blast
  have run: "\<exists>stop. main_program mute_env early ?P [] [] SIGRTMIN ?w = Some (stop, tr)" for early
    using T by (cases r) (simp_all add: m)
  obtain stop where "main_program mute_env False ?P [] [] SIGRTMIN ?w = Some (stop, tr)" using run by blast
  with main_program_outcomes [OF mute_session_env(1) this] have
    1: "main_program mute_env False ?P [] [] SIGRTMIN ?w = Some (Exit 0, tr)" "closes tr = [] \<or> (\<exists>fd ep. closes tr = [fd, ep])"
    by (auto simp: mute_session_env)
  then have "r = Inr ()" using T by (cases r) (simp_all add: m)
  then have "main_program mute_env True ?P [] [] SIGRTMIN ?w = Some (Crash (UB ''thread_set.end()''), tr)"
    using T by (simp add: m mute_session_env)
  with 1 show ?thesis by blast
qed

text \<open>The exit status never tells of a failure: if the process exits, it exits with 0, also after
  an invalid option, a name that cannot be resolved, or a refused connection. The two \<open>return 1\<close>
  of the source are not reached: \<open>usage\<close> does not return, and connecting throws nothing.\<close>

theorem main_exit_status:
  assumes "main_program e early P args input sig w = Some (Exit k, tr)"
  shows "k = 0"
proof (cases "parse_options args input")
  case (Inl x)
  then show ?thesis
    using assms options_loop_ok [OF getopt_all_ok] by (auto simp: main_program_def parse_options_def)
next
  case (Inr st)
  obtain cf rest where st: "st = (cf, rest)" by (cases st)
  obtain c w' where C: "ConnectionNew e (c_str (cf_address cf)) (cf_port cf) (c_str (cf_nickname cf)) w = (Inr c, w')"
    using ConnectionNew_quiet by blast
  have w: "launch_and_wait e early x = Some (Exit k, tr) \<Longrightarrow> k = 0" for x
    by (auto simp: launch_and_wait_def Let_def split: option.splits sum.splits prod.splits if_splits)
  show ?thesis using assms Inr st C w
    by (cases c) (auto simp: main_program_def usage_def)
qed

theorem main_exit_status_witness:
  "\<exists>k tr. main_program (calm_env\<lparr>os_getaddrinfo := \<lambda>_ _ _. None\<rparr>) early null_plugin [] [] SIGRTMIN \<lparr>w_trace = [], w_errno = 0\<rparr> = Some (Exit k, tr) \<and> k = 0"
proof -
  obtain k tr where r: "main_program (calm_env\<lparr>os_getaddrinfo := \<lambda>_ _ _. None\<rparr>) early null_plugin [] [] SIGRTMIN \<lparr>w_trace = [], w_errno = 0\<rparr> = Some (Exit k, tr)"
    by (simp add: main_program_def parse_options_def ConnectionNew_def GetConnectionFd_def cbind_apply usage_def)
  then show ?thesis using main_exit_status [OF r] by blast
qed

end
