(* ===== verification/Ownership.thy ===== *)
theory Ownership
  imports Epoll Server
begin

text \<open>
  Ownership of descriptors and handles under the moves and destructors of the classes:
  \<open>EpollManager\<close> (\<open>src/src/Epoll.cc\<close>), \<open>Database\<close> (\<open>src/src/Database.cc\<close>), \<open>IRC\<close> (\<open>src/src/IRC.hh\<close>),
  \<open>CommandPlugin\<close> and \<open>Server\<close> (\<open>src/src/Server.hh\<close>, \<open>src/src/Server.cc\<close>). The objects live in a store, so
  that an assignment of an object to itself is expressed by equal addresses. The contract of a
  class that owns one resource is the locale \<open>raii\<close>; that no sequence of constructions, moves and
  destructions leaks a resource or releases it twice is proved once in it. Contents that the
  library leaves unspecified in a moved-from container are a parameter of the operations.
\<close>

section \<open>The operations of the classes\<close>

type_synonym 'o store = "nat \<Rightarrow> 'o"

text \<open>\<open>EpollManager\<close>. A negative descriptor means none. \<open>rest\<close> is what the moves leave in the containers
  of the source.\<close>

record 'cb epoll_object =
  eo_fd :: int
  eo_fd_map :: "int \<rightharpoonup> 'cb epoll_context"
  eo_static_events :: "'cb list \<times> 'cb list \<times> 'cb list"

definition EpollManager_take :: "'cb epoll_object \<Rightarrow> nat \<Rightarrow> nat \<Rightarrow> 'cb epoll_object store \<Rightarrow> 'cb epoll_object store" where
  "EpollManager_take rest i m f =
     (let f = f(i := (f i)\<lparr>eo_fd := eo_fd (f m)\<rparr>);
          f = f(m := (f m)\<lparr>eo_fd := -1\<rparr>);
          taken = f m;
          f = f(m := (f m)\<lparr>eo_fd_map := eo_fd_map rest, eo_static_events := eo_static_events rest\<rparr>)
      in f(i := (f i)\<lparr>eo_fd_map := eo_fd_map taken, eo_static_events := eo_static_events taken\<rparr>))"

definition EpollManager_move_new :: "'cb epoll_object \<Rightarrow> nat \<Rightarrow> nat \<Rightarrow> 'cb epoll_object store \<Rightarrow> 'cb epoll_object store" where
  "EpollManager_move_new rest i m f =
     EpollManager_take rest i m (f(i := \<lparr>eo_fd = -1, eo_fd_map = Map.empty, eo_static_events = ([], [], [])\<rparr>))"

definition EpollManager_close :: "'cb epoll_object \<Rightarrow> int list" where
  "EpollManager_close x = (if 0 \<le> eo_fd x then [eo_fd x] else [])"

definition EpollManager_move_assign :: "'cb epoll_object \<Rightarrow> nat \<Rightarrow> nat \<Rightarrow> 'cb epoll_object store \<Rightarrow>
    'cb epoll_object store \<times> int list" where
  "EpollManager_move_assign rest i m f = (EpollManager_take rest i m f, EpollManager_close (f i))"

text \<open>\<open>Database\<close>: the sqlite handle, \<open>None\<close> for a null pointer. \<open>r\<close> and \<open>handle\<close> are what
  \<open>sqlite3_open_v2\<close> returns and stores; the constructor throws when the open fails, and its
  destructor does not run then.\<close>

definition Database_new :: "int \<Rightarrow> nat option \<Rightarrow> (nat option) result" where
  "Database_new r handle = (if r \<noteq> 0 then Inl (RuntimeError ''Failed to open database'') else Inr handle)"

definition Database_move_new :: "nat \<Rightarrow> nat \<Rightarrow> (nat option) store \<Rightarrow> (nat option) store" where
  "Database_move_new i d f = (let old = f d in f(d := None, i := old))"

definition Database_close :: "nat option \<Rightarrow> nat list" where
  "Database_close x = (case x of Some h \<Rightarrow> [h] | None \<Rightarrow> [])"

definition Database_move_assign :: "nat \<Rightarrow> nat \<Rightarrow> (nat option) store \<Rightarrow> (nat option) store \<times> nat list" where
  "Database_move_assign i d f =
     (if i \<noteq> d then (let rs = Database_close (f i); old = f d in (f(d := None, i := old), rs)) else (f, []))"

text \<open>\<open>IRC\<close>: the assignment overwrites the descriptor without closing it.\<close>

definition IRC_move_new :: "nat \<Rightarrow> nat \<Rightarrow> int store \<Rightarrow> int store" where
  "IRC_move_new i j f = (let old = f j in f(j := -1, i := old))"

definition IRC_move_assign :: "nat \<Rightarrow> nat \<Rightarrow> int store \<Rightarrow> int store" where
  "IRC_move_assign i j f = (if i \<noteq> j then (let old = f j in f(j := -1, i := old)) else f)"

definition IRC_close :: "int \<Rightarrow> int list" where
  "IRC_close fd = (if 0 \<le> fd then [fd] else [])"

text \<open>\<open>CommandPlugin\<close>: the assignment calls \<open>dlclose\<close> also on a null handle, which is undefined, and
  has no test for an assignment to itself.\<close>

definition CommandPlugin_move_new :: "nat \<Rightarrow> nat \<Rightarrow> CommandPlugin store \<Rightarrow> CommandPlugin store" where
  "CommandPlugin_move_new i u f = (let f = f(i := None) in f(i := f u, u := f i))"

definition CommandPlugin_move_assign :: "nat \<Rightarrow> nat \<Rightarrow> CommandPlugin store \<Rightarrow>
    (CommandPlugin store \<times> nat list) result" where
  "CommandPlugin_move_assign i u f =
     (case f i of
        None \<Rightarrow> Inl (UB ''dlclose of a null handle'')
      | Some h \<Rightarrow> (let old = f u in Inr (f(u := None, i := old), [h])))"

text \<open>\<open>Server\<close>. The tables of plugins and of their commands stay with the source, and the new object
  starts in \<open>kSetup\<close>. \<open>rest\<close> is what the moves leave in the strings and the channel table.\<close>

record server_object =
  so_fd :: int
  so_state :: ServerState
  so_address :: string
  so_port :: "16 word"
  so_chan_map :: "string \<rightharpoonup> ChannelState"
  so_nickname :: string
  so_local_db :: "nat option"
  so_user_command_map :: "string \<rightharpoonup> callback"
  so_plugins_map :: "string \<rightharpoonup> CommandPlugin"

text \<open>What is left of the source of a move.\<close>

definition server_moved_from :: "server_object \<Rightarrow> server_object \<Rightarrow> server_object" where
  "server_moved_from rest s = s\<lparr>so_fd := -1, so_address := so_address rest, so_chan_map := so_chan_map rest,
     so_nickname := so_nickname rest, so_local_db := None\<rparr>"

definition Server_move_new :: "bool \<Rightarrow> server_object \<Rightarrow> server_object \<Rightarrow> (server_object \<times> server_object) result" where
  "Server_move_new nd rest s =
     rbind (cpp_assert nd (so_state s = kSetup) ''s.state.load() == kSetup'') (\<lambda>_.
       Inr (\<lparr>so_fd = so_fd s, so_state = kSetup, so_address = so_address s, so_port = so_port s,
             so_chan_map = so_chan_map s, so_nickname = so_nickname s, so_local_db = so_local_db s,
             so_user_command_map = Map.empty, so_plugins_map = Map.empty\<rparr>, server_moved_from rest s))"

text \<open>The assignment between two different servers, with the sqlite handle it closes.\<close>

definition Server_move_assign :: "bool \<Rightarrow> server_object \<Rightarrow> server_object \<Rightarrow> server_object \<Rightarrow>
    (server_object \<times> server_object \<times> nat list) result" where
  "Server_move_assign nd rest this s =
     rbind (cpp_assert nd (so_state s = kSetup) ''s.state.load() == kSetup'') (\<lambda>_.
       Inr (this\<lparr>so_fd := so_fd s, so_address := so_address s, so_chan_map := so_chan_map s,
             so_nickname := so_nickname s, so_local_db := so_local_db s, so_port := so_port s\<rparr>,
            server_moved_from rest s, Database_close (so_local_db this)))"

section \<open>Objects that own one resource\<close>

text \<open>The objects of a class that are alive, and what they acquired and released so far.\<close>

record ('o, 'h) objects =
  members :: "nat \<Rightarrow> 'o"
  live :: "nat set"
  acquired :: "'h list"
  released :: "'h list"

definition handles :: "'h option \<Rightarrow> 'h list" where
  "handles x = (case x of None \<Rightarrow> [] | Some h \<Rightarrow> [h])"

text \<open>A step of a program that uses the class: \<open>owned\<close> tells what an object owns. The addresses of an
  assignment may be equal.\<close>

inductive own_step :: "('o \<Rightarrow> 'h option) \<Rightarrow> (nat \<Rightarrow> nat \<Rightarrow> 'o store \<Rightarrow> 'o store) \<Rightarrow>
    (nat \<Rightarrow> nat \<Rightarrow> 'o store \<Rightarrow> 'o store \<times> 'h list) \<Rightarrow> ('o \<Rightarrow> 'h list) \<Rightarrow>
    ('o, 'h) objects \<Rightarrow> ('o, 'h) objects \<Rightarrow> bool" for owned move_new move_assign close where
  construct: "i \<notin> live s \<Longrightarrow>
     own_step owned move_new move_assign close s
       (s\<lparr>members := (members s)(i := x), live := insert i (live s), acquired := handles (owned x) @ acquired s\<rparr>)"
| move_construct: "i \<notin> live s \<Longrightarrow> j \<in> live s \<Longrightarrow>
     own_step owned move_new move_assign close s
       (s\<lparr>members := move_new i j (members s), live := insert i (live s)\<rparr>)"
| assign: "i \<in> live s \<Longrightarrow> j \<in> live s \<Longrightarrow> move_assign i j (members s) = (f, rs) \<Longrightarrow>
     own_step owned move_new move_assign close s (s\<lparr>members := f, released := rs @ released s\<rparr>)"
| destroy: "i \<in> live s \<Longrightarrow>
     own_step owned move_new move_assign close s
       (s\<lparr>live := live s - {i}, released := close (members s i) @ released s\<rparr>)"

definition no_objects :: "('o, 'h) objects \<Rightarrow> bool" where
  "no_objects s \<longleftrightarrow> live s = {} \<and> acquired s = [] \<and> released s = []"

definition owners :: "('o \<Rightarrow> 'h option) \<Rightarrow> 'h \<Rightarrow> ('o, 'h) objects \<Rightarrow> nat set" where
  "owners owned h s = {i \<in> live s. owned (members s i) = Some h}"

text \<open>Every resource has been released once for each time it was acquired, except where an object
  owns it.\<close>

definition balanced :: "('o \<Rightarrow> 'h option) \<Rightarrow> ('o, 'h) objects \<Rightarrow> bool" where
  "balanced owned s \<longleftrightarrow> finite (live s) \<and>
     (\<forall>h. count_list (acquired s) h = count_list (released s) h + card (owners owned h s))"

lemma count_handles: "count_list (handles x) h = of_bool (x = Some h)"
  by (simp add: handles_def split: option.split)

text \<open>One for an object that owns \<open>h\<close>.\<close>

definition own :: "('o \<Rightarrow> 'h option) \<Rightarrow> 'h \<Rightarrow> 'o \<Rightarrow> nat" where
  "own owned h x = of_bool (owned x = Some h)"

lemma own_simps: "count_list (handles (owned x)) h = own owned h x" "owned x = None \<Longrightarrow> own owned h x = 0"
  "owned x = owned y \<Longrightarrow> own owned h x = own owned h y"
  by (simp_all add: own_def count_handles)

lemma card_owners: "finite (live s) \<Longrightarrow> card (owners owned h s) = (\<Sum>i\<in>live s. own owned h (members s i))"
  by (simp add: owners_def own_def Int_def)

text \<open>The sum over a set in which the values at two places changed.\<close>

lemma sum_two:
  fixes g g' :: "nat \<Rightarrow> nat"
  assumes "finite A" "i \<in> A" "j \<in> A" "i \<noteq> j" "\<And>k. k \<noteq> i \<Longrightarrow> k \<noteq> j \<Longrightarrow> g' k = g k"
  shows "sum g' A + (g i + g j) = sum g A + (g' i + g' j)"
proof -
  have "A = insert i (insert j (A - {i, j}))" using assms by blast
  then have "sum f A = f i + (f j + sum f (A - {i, j}))" for f :: "nat \<Rightarrow> nat"
    using assms(1,4) by (metis Diff_iff finite_Diff finite_insert insert_iff sum.insert)
  then show ?thesis using assms(5) sum.cong [of "A - {i, j}" _ g' g] by simp
qed

text \<open>The contract. An assignment to itself may keep the resource or release it.\<close>

locale raii =
  fixes owned :: "'o \<Rightarrow> 'h option"
    and move_new :: "nat \<Rightarrow> nat \<Rightarrow> 'o store \<Rightarrow> 'o store"
    and move_assign :: "nat \<Rightarrow> nat \<Rightarrow> 'o store \<Rightarrow> 'o store \<times> 'h list"
    and close :: "'o \<Rightarrow> 'h list"
  assumes close_owned: "close x = handles (owned x)"
    and move_new_takes: "i \<noteq> j \<Longrightarrow> owned (move_new i j f i) = owned (f j) \<and> owned (move_new i j f j) = None"
    and move_new_other: "k \<noteq> i \<Longrightarrow> k \<noteq> j \<Longrightarrow> owned (move_new i j f k) = owned (f k)"
    and move_assign_takes: "i \<noteq> j \<Longrightarrow> move_assign i j f = (g, rs) \<Longrightarrow>
      owned (g i) = owned (f j) \<and> owned (g j) = None \<and> rs = close (f i)"
    and move_assign_self: "move_assign i i f = (g, rs) \<Longrightarrow>
      owned (g i) = owned (f i) \<and> rs = [] \<or> owned (g i) = None \<and> rs = close (f i)"
    and move_assign_other: "move_assign i j f = (g, rs) \<Longrightarrow> k \<noteq> i \<Longrightarrow> k \<noteq> j \<Longrightarrow> owned (g k) = owned (f k)"
begin

lemma sum_move_new:
  assumes "finite A" "i \<notin> A" "j \<in> A"
  shows "(\<Sum>k\<in>insert i A. own owned h (move_new i j f k)) = (\<Sum>k\<in>A. own owned h (f k))"
proof -
  have ij: "i \<noteq> j" using assms by auto
  have "(\<Sum>k\<in>insert i A. own owned h (move_new i j f k)) + (own owned h (f i) + own owned h (f j)) =
      (\<Sum>k\<in>insert i A. own owned h (f k)) + (own owned h (move_new i j f i) + own owned h (move_new i j f j))"
    using assms ij move_new_other [of _ i j f] by (intro sum_two) (auto simp: own_def)
  moreover have "own owned h (move_new i j f i) = own owned h (f j)" "own owned h (move_new i j f j) = 0"
    using move_new_takes [OF ij, of f] by (simp_all add: own_def)
  ultimately show ?thesis using assms(1,2) by simp
qed

lemma sum_move_assign:
  assumes "finite A" "i \<in> A" "j \<in> A" "move_assign i j f = (g, rs)"
  shows "count_list rs h + (\<Sum>k\<in>A. own owned h (g k)) = (\<Sum>k\<in>A. own owned h (f k))"
proof (cases "i = j")
  case True
  have "(\<Sum>k\<in>A - {i}. own owned h (g k)) = (\<Sum>k\<in>A - {i}. own owned h (f k))"
    using move_assign_other [OF assms(4)] True by (intro sum.cong) (auto simp: own_def)
  moreover have "count_list rs h + own owned h (g i) = own owned h (f i)"
    using move_assign_self [of i f g rs] assms(4) True by (auto simp: close_owned own_simps own_def)
  ultimately show ?thesis using assms(1,2) by (simp add: sum.remove [of A i])
next
  case False
  have "(\<Sum>k\<in>A. own owned h (g k)) + (own owned h (f i) + own owned h (f j)) =
      (\<Sum>k\<in>A. own owned h (f k)) + (own owned h (g i) + own owned h (g j))"
    using assms(1-3) False move_assign_other [OF assms(4)] by (intro sum_two) (auto simp: own_def)
  moreover have "own owned h (g i) = own owned h (f j)" "own owned h (g j) = 0" "count_list rs h = own owned h (f i)"
    using move_assign_takes [OF False assms(4)] by (simp_all add: close_owned own_simps(1)) (simp_all add: own_def)
  ultimately show ?thesis by simp
qed

lemma step_balanced:
  assumes "balanced owned s" "own_step owned move_new move_assign close s t"
  shows "balanced owned t"
  using assms(2)
proof cases
  case (construct i x)
  have "(\<Sum>k\<in>live s. own owned h (((members s)(i := x)) k)) = (\<Sum>k\<in>live s. own owned h (members s k))" for h
    using construct by (intro sum.cong) auto
  then show ?thesis using assms(1) construct by (simp add: balanced_def card_owners own_simps(1))
next
  case (move_construct i j)
  then show ?thesis using assms(1) sum_move_new [where A = "live s" and i = i and j = j and f = "members s"]
    by (simp add: balanced_def card_owners)
next
  case (assign i j f rs)
  then show ?thesis
    using assms(1) sum_move_assign [where A = "live s" and i = i and j = j and f = "members s" and g = f and rs = rs]
    by (simp add: balanced_def card_owners add.assoc add.left_commute)
next
  case (destroy i)
  then show ?thesis using assms(1)
    by (auto simp: balanced_def card_owners close_owned own_simps(1) sum.remove [of "live s" i])
qed

lemma init_balanced: "no_objects s \<Longrightarrow> balanced owned s"
  by (simp add: no_objects_def balanced_def owners_def)

end

sublocale raii \<subseteq> ow: invariant_system no_objects "own_step owned move_new move_assign close" "balanced owned"
  by unfold_locales (auto intro: init_balanced step_balanced)

context raii
begin

lemma all_released:
  assumes "reachable no_objects (own_step owned move_new move_assign close) s" "live s = {}"
  shows "count_list (acquired s) h = count_list (released s) h"
  using ow.inv_reachable [OF assms(1)] assms(2) by (simp add: balanced_def owners_def)

lemma released_at_most_once:
  assumes "reachable no_objects (own_step owned move_new move_assign close) s"
  shows "count_list (released s) h + card (owners owned h s) = count_list (acquired s) h"
  using ow.inv_reachable [OF assms] by (simp add: balanced_def)

end

section \<open>The classes that keep the contract\<close>

definition EpollManager_owned :: "'cb epoll_object \<Rightarrow> int option" where
  "EpollManager_owned x = (if 0 \<le> eo_fd x then Some (eo_fd x) else None)"

interpretation em: raii EpollManager_owned "EpollManager_move_new rest" "EpollManager_move_assign rest" EpollManager_close for rest
  by unfold_locales
    (auto simp: EpollManager_owned_def EpollManager_close_def EpollManager_move_new_def EpollManager_take_def
      EpollManager_move_assign_def handles_def Let_def)

interpretation db: raii "\<lambda>x. x" Database_move_new Database_move_assign Database_close
  by unfold_locales
    (auto simp: Database_close_def Database_move_new_def Database_move_assign_def handles_def Let_def split: if_splits)

text \<open>What the destructor of the event manager closes is \<open>EpollManager_close\<close>, and the destructor of
  the client closes \<open>IRC_close\<close>.\<close>

lemma EpollManager_dtor_closes:
  "ev_exit s = [] \<Longrightarrow> eo_fd x = em_fd s \<Longrightarrow>
     w_trace (snd (EpollManager_dtor run s)) = w_trace s @ map EvClose (EpollManager_close x)"
  by (simp add: EpollManager_dtor_def EpollManager_close_def sys_close_def log_io_def cbind_apply)

lemma IRC_dtor_closes: "w_trace (snd (IRC_dtor fd s)) = w_trace s @ map EvClose (IRC_close fd)"
  by (simp add: IRC_dtor_def IRC_close_def sys_close_def log_io_def)

text \<open>A \<open>CommandPlugin\<close> keeps the contract only between different objects that hold a handle.\<close>

lemma CommandPlugin_move_assign_result:
  "CommandPlugin_move_assign i u f = Inr (g, rs) \<longleftrightarrow>
     (\<exists>h. f i = Some h \<and> rs = [h] \<and> g = (f(u := None))(i := f u))"
  by (auto simp: CommandPlugin_move_assign_def Let_def split: option.split)

text \<open>Assigned to itself it holds the handle that it just closed.\<close>

lemma CommandPlugin_self_assign_dangles:
  "f i = Some h \<Longrightarrow> \<exists>g. CommandPlugin_move_assign i i f = Inr (g, [h]) \<and> g i = Some h"
  by (simp add: CommandPlugin_move_assign_def Let_def)

text \<open>The assignment of a client overwrites an open descriptor that neither destructor closes any more.\<close>

lemma IRC_move_assign_leaks:
  assumes "i \<noteq> j" "0 \<le> f i" "f i \<noteq> f j" "IRC_move_assign i j f = g"
  shows "f i \<notin> set (IRC_close (g i)) \<union> set (IRC_close (g j))"
  using assms by (auto simp: IRC_move_assign_def IRC_close_def Let_def)

lemma Server_move_assign_leaks:
  assumes "Server_move_assign nd rest this s = Inr (t, s', rs)" "0 \<le> so_fd this" "so_fd this \<noteq> so_fd s"
  shows "so_fd this \<notin> set (IRC_close (so_fd t)) \<union> set (IRC_close (so_fd s')) \<and> rs = Database_close (so_local_db this)"
  using assms by (auto simp: Server_move_assign_def server_moved_from_def IRC_close_def rbind_eq_Inr)

section \<open>A run of every step\<close>

text \<open>Two objects are constructed, a third takes over the first, is assigned the second, and all three
  are destroyed.\<close>

definition own_run :: "(nat \<Rightarrow> nat \<Rightarrow> 'o store \<Rightarrow> 'o store) \<Rightarrow> (nat \<Rightarrow> nat \<Rightarrow> 'o store \<Rightarrow> 'o store \<times> 'h list) \<Rightarrow>
    ('o \<Rightarrow> 'h list) \<Rightarrow> 'o \<Rightarrow> 'o \<Rightarrow> 'h list \<Rightarrow> ('o, 'h) objects" where
  "own_run move_new move_assign close x y acq =
     (let f = move_new 2 0 ((\<lambda>_. x)(0 := x, 1 := y)); (g, rs) = move_assign 2 1 f in
      \<lparr>members = g, live = {}, acquired = acq, released = close (g 2) @ close (g 1) @ close (g 0) @ rs\<rparr>)"

lemma own_run_reachable:
  "reachable no_objects (own_step owned move_new move_assign close)
     (own_run move_new move_assign close x y (handles (owned y) @ handles (owned x)))"
proof -
  let ?S = "own_step owned move_new move_assign close" let ?R = "reachable no_objects ?S"
  let ?f = "move_new 2 0 ((\<lambda>_. x)(0 := x, 1 := y))" let ?acq = "handles (owned y) @ handles (owned x)"
  obtain g rs where g: "move_assign 2 1 ?f = (g, rs)" by fastforce
  have "?R \<lparr>members = \<lambda>_. x, live = {}, acquired = [], released = []\<rparr>"
    by (rule reach_init) (simp add: no_objects_def)
  from reach_step [OF this construct [of 0 _ owned _ _ _ x]]
  have "?R \<lparr>members = \<lambda>_. x, live = {0}, acquired = handles (owned x), released = []\<rparr>" by (simp add: fun_upd_def)
  from reach_step [OF this construct [of 1 _ owned _ _ _ y]]
  have "?R \<lparr>members = (\<lambda>_. x)(0 := x, 1 := y), live = {1, 0}, acquired = ?acq, released = []\<rparr>"
    by (simp add: fun_upd_def)
  from reach_step [OF this move_construct [of 2 _ 0]]
  have "?R \<lparr>members = ?f, live = {2, 1, 0}, acquired = ?acq, released = []\<rparr>" by simp
  from reach_step [OF this assign [of 2 _ 1 _ g rs]] g
  have "?R \<lparr>members = g, live = {2, 1, 0}, acquired = ?acq, released = rs\<rparr>" by simp
  from reach_step [OF this destroy [of 0]]
  have "?R \<lparr>members = g, live = {2, 1}, acquired = ?acq, released = close (g 0) @ rs\<rparr>"
    by (simp add: insert_Diff_if)
  from reach_step [OF this destroy [of 1]]
  have "?R \<lparr>members = g, live = {2}, acquired = ?acq, released = close (g 1) @ close (g 0) @ rs\<rparr>"
    by (simp add: insert_Diff_if)
  from reach_step [OF this destroy [of 2]]
  show ?thesis using g by (simp add: own_run_def)
qed

section \<open>Properties\<close>

text \<open>C40. The descriptor of an event manager is neither leaked nor closed twice: after any sequence
  of constructions, moves (also of an object to itself) and destructions, every descriptor has
  been closed as often as it was handed to a constructor, less the live objects that hold it; and
  once no object is alive, exactly as often.\<close>

theorem EpollManager_ownership:
  assumes "reachable no_objects (own_step EpollManager_owned (EpollManager_move_new rest)
      (EpollManager_move_assign rest) EpollManager_close) s"
  shows "count_list (released s) fd + card (owners EpollManager_owned fd s) = count_list (acquired s) fd \<and>
    (live s = {} \<longrightarrow> count_list (released s) fd = count_list (acquired s) fd)"
  using em.released_at_most_once [OF assms] em.all_released [OF assms] by simp

definition em_object :: "int \<Rightarrow> nat epoll_object" where
  "em_object fd = \<lparr>eo_fd = fd, eo_fd_map = Map.empty, eo_static_events = ([], [], [])\<rparr>"

theorem EpollManager_ownership_witness:
  "count_list (released (own_run (EpollManager_move_new (em_object 0)) (EpollManager_move_assign (em_object 0))
     EpollManager_close (em_object 5) (em_object 6) [6, 5])) 5 = 1"
proof -
  have h: "handles (EpollManager_owned (em_object 6)) @ handles (EpollManager_owned (em_object 5)) = [6, 5]"
    by (simp add: handles_def EpollManager_owned_def em_object_def)
  show ?thesis
    using EpollManager_ownership [OF own_run_reachable [of EpollManager_owned _ _ _ "em_object 5" "em_object 6", unfolded h],
        of "em_object 0" 5]
    by (simp add: own_run_def Let_def split: prod.splits)
qed

text \<open>The handle of a database connection is neither leaked nor closed twice, in the same sense.\<close>

theorem Database_ownership:
  assumes "reachable no_objects (own_step (\<lambda>x. x) Database_move_new Database_move_assign Database_close) s"
  shows "count_list (released s) h + card (owners (\<lambda>x. x) h s) = count_list (acquired s) h \<and>
    (live s = {} \<longrightarrow> count_list (released s) h = count_list (acquired s) h)"
  using db.released_at_most_once [OF assms] db.all_released [OF assms] by simp

theorem Database_ownership_witness:
  "count_list (released (own_run Database_move_new Database_move_assign Database_close (Some 5) (Some 6) [6, 5])) 5 = 1"
  using Database_ownership [OF own_run_reachable [of "\<lambda>x. x" _ _ _ "Some 5" "Some 6"], of 5]
  by (simp add: own_run_def handles_def Let_def split: prod.splits)

text \<open>Moving a server that is still being set up (no plugin loaded) into a manager or a thread
  changes nothing: in both builds the target is the source, field by field, and what is left of the
  source owns neither the socket nor the database.\<close>

theorem Server_move_setup:
  assumes "so_state s = kSetup" "so_user_command_map s = Map.empty" "so_plugins_map s = Map.empty"
  shows "\<exists>s'. Server_move_new nd rest s = Inr (s, s') \<and> IRC_close (so_fd s') = [] \<and>
    Database_close (so_local_db s') = [] \<and> so_plugins_map s' = Map.empty"
  using assms by (simp add: Server_move_new_def server_moved_from_def IRC_close_def Database_close_def)

definition server_obj :: server_object where
  "server_obj = \<lparr>so_fd = 3, so_state = kSetup, so_address = ''irc'', so_port = 6667, so_chan_map = Map.empty,
     so_nickname = ''kbot'', so_local_db = None, so_user_command_map = Map.empty, so_plugins_map = Map.empty\<rparr>"

theorem Server_move_setup_witness:
  "\<exists>s'. Server_move_new False server_obj server_obj = Inr (server_obj, s') \<and> IRC_close (so_fd s') = []"
  using Server_move_setup [of server_obj False server_obj] by (auto simp: server_obj_def)

end
