(* ===== verification/Handover.thy ===== *)
theory Handover
  imports Program Ownership
begin

text \<open>
  From \<open>ConnectionNew\<close> to \<open>WorkerRun\<close> the server object is moved several times: into the optional of
  \<open>main\<close>, into the arguments of the thread, into the manager, and with the manager into the worker's
  parameter (\<open>src/src/main.cc\<close>, \<open>src/src/Manager.hh\<close>, \<open>src/src/Manager.cc\<close>). \<open>Session\<close> lets one state stand for
  all these objects. This theory has the objects, and shows that every move hands over exactly the
  state that \<open>Session\<close> has, and that the destructors of what is left behind do nothing: a server that
  was moved from sends no QUIT and closes no socket.
\<close>

section \<open>Objects\<close>

record 'cb manager_object =
  mo_epoll :: "'cb epoll_object"
  mo_server :: server_object

text \<open>The constructors; the database of a new server is default-constructed.\<close>

definition Server_of :: "connection \<Rightarrow> server_object" where
  "Server_of c = \<lparr>so_fd = c_fd c, so_state = kSetup, so_address = c_address c, so_port = c_port c,
     so_chan_map = Map.empty, so_nickname = c_nickname c, so_local_db = None, so_user_command_map = Map.empty,
     so_plugins_map = Map.empty\<rparr>"

definition EpollManager_of :: "int \<Rightarrow> 'cb epoll_object" where
  "EpollManager_of fd = \<lparr>eo_fd = fd, eo_fd_map = Map.empty, eo_static_events = ([], [], [])\<rparr>"

definition Manager_ctor :: "bool \<Rightarrow> server_object \<Rightarrow> int \<Rightarrow> server_object \<Rightarrow> ('cb manager_object \<times> server_object) result" where
  "Manager_ctor nd rest fd s =
     rbind (Server_move_new nd rest s) (\<lambda>(t, left).
       Inr (\<lparr>mo_epoll = EpollManager_of fd, mo_server = t\<rparr>, left))"

text \<open>\<open>Manager(Manager &&m) = default\<close>: the base class, then the member.\<close>

definition Manager_move_new :: "bool \<Rightarrow> 'cb manager_object \<Rightarrow> 'cb manager_object \<Rightarrow>
    ('cb manager_object \<times> 'cb manager_object) result" where
  "Manager_move_new nd rest M =
     (let f = EpollManager_move_new (mo_epoll rest) 1 0 (\<lambda>_. mo_epoll M) in
      rbind (Server_move_new nd (mo_server rest) (mo_server M)) (\<lambda>(t, left).
        Inr (\<lparr>mo_epoll = f 1, mo_server = t\<rparr>, \<lparr>mo_epoll = f 0, mo_server = left\<rparr>)))"

text \<open>The server on its way to the thread: one entry of \<open>rests\<close> for each move, with what the library leaves
  in moved-from strings and tables.\<close>

fun Server_moves :: "bool \<Rightarrow> server_object list \<Rightarrow> server_object \<Rightarrow> (server_object \<times> server_object list) result" where
  "Server_moves nd [] s = Inr (s, [])"
| "Server_moves nd (rest # rests) s =
     rbind (Server_move_new nd rest s) (\<lambda>(t, left).
     rbind (Server_moves nd rests t) (\<lambda>(u, lefts). Inr (u, left # lefts)))"

section \<open>Objects and states\<close>

definition server_of :: "('cb, 'a) server_scheme \<Rightarrow> server_object" where
  "server_of s = \<lparr>so_fd = irc_fd s, so_state = srv_state s, so_address = address s, so_port = port s,
     so_chan_map = chan_map s, so_nickname = nickname s, so_local_db = None,
     so_user_command_map = user_command_map s, so_plugins_map = plugins_map s\<rparr>"

definition manager_of :: "('cb, 'a) server_scheme \<Rightarrow> 'cb manager_object" where
  "manager_of s = \<lparr>mo_epoll = \<lparr>eo_fd = em_fd s, eo_fd_map = fd_map s, eo_static_events = (ev_pre s, ev_post s, ev_exit s)\<rparr>,
     mo_server = server_of s\<rparr>"

text \<open>A state whose object is the given one.\<close>

definition put_server :: "server_object \<Rightarrow> ('cb, 'a) server_scheme \<Rightarrow> ('cb, 'a) server_scheme" where
  "put_server x s = s\<lparr>irc_fd := so_fd x, srv_state := so_state x, address := so_address x, port := so_port x,
     chan_map := so_chan_map x, nickname := so_nickname x, user_command_map := so_user_command_map x,
     plugins_map := so_plugins_map x\<rparr>"

definition put_manager :: "'cb manager_object \<Rightarrow> ('cb, 'a) server_scheme \<Rightarrow> ('cb, 'a) server_scheme" where
  "put_manager M s = put_server (mo_server M) (s\<lparr>em_fd := eo_fd (mo_epoll M), fd_map := eo_fd_map (mo_epoll M),
     ev_pre := fst (eo_static_events (mo_epoll M)), ev_post := fst (snd (eo_static_events (mo_epoll M))),
     ev_exit := snd (snd (eo_static_events (mo_epoll M)))\<rparr>)"

lemma manager_of_put: "so_local_db (mo_server M) = None \<Longrightarrow> manager_of (put_manager M s) = M"
  by (simp add: manager_of_def server_of_def put_manager_def put_server_def)

text \<open>A server in setup, which may be moved.\<close>

definition movable :: "server_object \<Rightarrow> bool" where
  "movable s \<longleftrightarrow> so_state s = kSetup \<and> so_user_command_map s = Map.empty \<and> so_plugins_map s = Map.empty"

lemma Server_move_movable:
  "movable s \<Longrightarrow> Server_move_new nd rest s = Inr (s, server_moved_from rest s)"
  by (simp add: movable_def Server_move_new_def)

lemma Server_moves_movable:
  "movable s \<Longrightarrow> Server_moves nd rests s = Inr (s, map (\<lambda>rest. server_moved_from rest s) rests)"
  by (induction rests) (simp_all add: Server_move_movable)

lemma Manager_move_movable:
  "movable (mo_server M) \<Longrightarrow> Manager_move_new nd rest M = Inr (M,
     \<lparr>mo_epoll = (mo_epoll rest)\<lparr>eo_fd := -1\<rparr>, mo_server = server_moved_from (mo_server rest) (mo_server M)\<rparr>)"
  by (simp add: Manager_move_new_def Server_move_movable EpollManager_move_new_def EpollManager_take_def Let_def)

text \<open>What is left of a server or manager has nothing to release.\<close>

lemma Server_dtor_left:
  assumes "movable s" "map_order e {} = []"
  shows "Server_dtor e (put_server (server_moved_from rest s) t) = (Inr (), put_server (server_moved_from rest s) t)"
  using assms
  by (simp add: movable_def Server_dtor_def IRC_Quit_def IRC_dtor_def server_moved_from_def put_server_def cbind_apply cseq_def)

lemma Manager_dtor_left:
  assumes "movable (mo_server M)" "map_order e {} = []" "snd (snd (eo_static_events (mo_epoll rest))) = []"
    and "Manager_move_new nd rest M = Inr (M', left)"
  shows "Manager_dtor e run (put_manager left t) = (Inr (), put_manager left t)"
proof -
  have left: "left = \<lparr>mo_epoll = (mo_epoll rest)\<lparr>eo_fd := -1\<rparr>, mo_server = server_moved_from (mo_server rest) (mo_server M)\<rparr>"
    using assms(4) Manager_move_movable [OF assms(1)] by auto
  have "ev_exit (put_manager left t) = []" "em_fd (put_manager left t) = -1"
    using assms(3) by (simp_all add: left put_manager_def put_server_def)
  moreover have "Server_dtor e (put_manager left t) = (Inr (), put_manager left t)"
    using Server_dtor_left [OF assms(1,2)] by (simp add: left put_manager_def)
  ultimately show ?thesis
    by (simp add: Manager_dtor_def EpollManager_dtor_def cbind_apply cseq_def)
qed

section \<open>The session\<close>

definition setup_frame :: "('cb, 'a) server_scheme \<Rightarrow> _" where
  "setup_frame s = (srv_state s, user_command_map s, plugins_map s)"

lemma setup_prims:
  "leaves setup_frame (SendMsg e fd d)" "leaves setup_frame (cmod (\<lambda>s. s\<lparr>chan_map := g s\<rparr>))"
  by (auto simp: leaves_def setup_frame_def SendMsg_def sys_send_def log_io_def set_errno_if_def Let_def split: prod.split)

lemma session_start_setup: "leaves setup_frame (session_start e nick password ch)"
  unfolding session_start_def IRC_Login_def IRC_Nick_def PrivMsg_def JoinChannel_def IRC_Join_def SendChannel_def Let_def
  by (auto intro!: leaves_cbind leaves_cseq leaves_basic setup_prims split: option.split)

lemma CreateNew_state:
  assumes "CreateNew e c sig w = (Inr m, w')"
  shows "\<exists>fd w'. m = Manager_new fd c sig w' \<and> 0 \<le> fd"
  using assms by (auto simp: CreateNew_def sys_epoll_create_def cbind_apply Let_def split: if_splits)

lemma Manager_new_objects:
  "server_of (Manager_new fd c sig w) = Server_of c"
  "manager_of (Manager_new fd c sig w) = \<lparr>mo_epoll = EpollManager_of fd, mo_server = Server_of c\<rparr>"
  by (simp_all add: manager_of_def server_of_def Manager_new_def Server_of_def EpollManager_of_def)

lemma movable_new: "movable (Server_of c)"
  by (simp add: movable_def Server_of_def)

lemma movable_started:
  assumes "CreateNew e c sig w = (Inr m, w')" "session_start e nick password ch m = (r, s)"
  shows "movable (server_of s)"
proof -
  obtain fd w1 where "m = Manager_new fd c sig w1" using CreateNew_state [OF assms(1)] by blast
  then have "setup_frame m = (kSetup, Map.empty, Map.empty)" by (simp add: setup_frame_def Manager_new_def)
  moreover have "setup_frame s = setup_frame m"
    using session_start_setup assms(2) unfolding leaves_def by (metis snd_conv)
  ultimately show ?thesis by (simp add: movable_def setup_frame_def server_of_def)
qed

section \<open>Properties\<close>

text \<open>C13. One state may stand for all the objects of a session: in both builds, moving the new server any
  number of times and then into the manager gives the object of the state that \<open>CreateNew\<close> returns;
  moving the manager into the worker, after login and join, gives the object of the state that the
  worker starts with; no assertion of a move fails; and the destructors of the servers and of the
  manager that were moved from return without a system call.\<close>

theorem session_handover:
  assumes "CreateNew e c sig w = (Inr m, w')" "session_start e nick password ch m = (Inr b, s)"
    and "map_order e {} = []" "snd (snd (eo_static_events (mo_epoll rest))) = []"
  shows "\<exists>lefts left1 left2. Server_moves nd rests (Server_of c) = Inr (Server_of c, lefts) \<and>
    Manager_ctor nd rest1 (em_fd m) (Server_of c) = Inr (manager_of m, left1) \<and>
    Manager_move_new nd rest (manager_of s) = Inr (manager_of s, left2) \<and>
    (\<forall>x \<in> set (left1 # lefts). Server_dtor e (put_server x t) = (Inr (), put_server x t)) \<and>
    Manager_dtor e run (put_manager left2 t) = (Inr (), put_manager left2 t)"
proof -
  have mv: "movable (mo_server (manager_of s))"
    using movable_started [OF assms(1,2)] by (simp add: manager_of_def)
  obtain left2 where l2: "Manager_move_new nd rest (manager_of s) = Inr (manager_of s, left2)"
    using Manager_move_movable [OF mv] by blast
  have "Manager_ctor nd rest1 (em_fd m) (Server_of c) = Inr (manager_of m, server_moved_from rest1 (Server_of c))"
  proof -
    obtain fd w1 where m: "m = Manager_new fd c sig w1" using CreateNew_state [OF assms(1)] by blast
    then have "em_fd m = fd" by (simp add: Manager_new_def)
    then show ?thesis unfolding m Manager_new_objects(2) by (simp add: Manager_ctor_def Server_move_movable [OF movable_new])
  qed
  then show ?thesis
    using Server_moves_movable [OF movable_new] l2 Manager_dtor_left [OF mv assms(3,4) l2]
      Server_dtor_left [OF movable_new assms(3)] by auto
qed

theorem session_handover_witness:
  "\<exists>m w' b s left2. CreateNew calm_env conn0 SIGRTMIN \<lparr>w_trace = [], w_errno = 0\<rparr> = (Inr m, w') \<and>
     session_start calm_env ''kbot'' [] ''#c'' m = (Inr b, s) \<and>
     Manager_move_new False (manager_of worker0) (manager_of s) = Inr (manager_of s, left2) \<and>
     Manager_dtor calm_env (\<lambda>_ _. cret ()) (put_manager left2 worker0) = (Inr (), put_manager left2 worker0)"
proof -
  obtain m w' where m: "CreateNew calm_env conn0 SIGRTMIN \<lparr>w_trace = [], w_errno = 0\<rparr> = (Inr m, w')"
    by (simp add: CreateNew_def sys_epoll_create_def calm_env_def cbind_apply Let_def)
  obtain b s where s: "session_start calm_env ''kbot'' [] ''#c'' m = (Inr b, s)" using session_start_run by blast
  have "map_order calm_env {} = []" "snd (snd (eo_static_events (mo_epoll (manager_of worker0)))) = []"
    by (simp_all add: calm_env_def manager_of_def worker0_def)
  from session_handover [OF m s this, of False "[]" server_obj worker0 "\<lambda>_ _. cret ()"] m s show ?thesis by blast
qed

end
