(* ===== verification/Locks.thy ===== *)
theory Locks
  imports Interfaces
begin

text \<open>
  The locking discipline of the server. The mutexes of \<open>Server\<close> (\<open>src/src/Server.hh\<close>) are held by scoped
  lock objects, so what an operation does with them is a list of nested critical sections; this
  theory gives that list for the operations of \<open>src/src/Server.cc\<close>, the replies and built-in commands
  of \<open>src/src/UserCommand.cc\<close>, the plugin callbacks of \<open>src/plugins/Plugin.hh\<close> and the handlers of
  \<open>src/src/Manager.cc\<close>, with the outcome of each branch as an argument. Threads that run such lists
  concurrently form a step relation. The critical sections are nested in a fixed order, so no
  schedule blocks, whatever the number of threads; and they exclude each other, which is why the
  other theories may treat each operation as one step.
\<close>

section \<open>Critical sections\<close>

text \<open>\<open>server_mtx\<close> is never locked.\<close>

datatype mutex = Chan_mtx | Nick_mtx | User_command_mtx | Plugins_map_mtx

text \<open>\<open>std::unique_lock\<close> and \<open>std::shared_lock\<close>.\<close>

datatype lock_mode = Unique | Shared

datatype critical = Hold mutex lock_mode "critical list"

datatype lock_op = Acquire mutex lock_mode | Release mutex

fun flatten :: "critical \<Rightarrow> lock_op list" where
  "flatten (Hold m md body) = Acquire m md # concat (map flatten body) @ [Release m]"

text \<open>An exception that leaves an operation ends it in the middle; the lock objects of the scopes that
  it leaves release their mutexes. \<open>cut\<close> relates the sections of a run to those of such a run.\<close>

inductive cut :: "critical list \<Rightarrow> critical list \<Rightarrow> bool" where
  cut_nil: "cut cs []"
| cut_here: "cut body body' \<Longrightarrow> cut (Hold m md body # cs) [Hold m md body']"
| cut_later: "cut cs cs' \<Longrightarrow> cut (c # cs) (c # cs')"

section \<open>Operations of the server\<close>

definition GetNickname_locks :: "critical list" where
  "GetNickname_locks = [Hold Nick_mtx Unique []]"

definition UpdateNickname_locks :: "critical list" where
  "UpdateNickname_locks = [Hold Nick_mtx Unique []]"

definition DumpInfo_locks :: "critical list" where
  "DumpInfo_locks = [Hold Nick_mtx Unique [], Hold Chan_mtx Shared []]"

definition JoinChannel_locks :: "critical list" where
  "JoinChannel_locks = [Hold Chan_mtx Unique []]"

definition UpdateJoinChannel_locks :: "critical list" where
  "UpdateJoinChannel_locks = [Hold Chan_mtx Unique []]"

definition UpdatePartChannel_locks :: "critical list" where
  "UpdatePartChannel_locks = [Hold Chan_mtx Unique []]"

definition PartChannel_locks :: "critical list" where
  "PartChannel_locks = [Hold Chan_mtx Unique []]"

definition AddPluginCommands_locks :: "critical list" where
  "AddPluginCommands_locks = [Hold User_command_mtx Unique []]"

definition RemovePluginCommands_locks :: "critical list" where
  "RemovePluginCommands_locks = [Hold User_command_mtx Unique []]"

section \<open>Replies and commands\<close>

definition SendInvokerReply_locks :: "critical list" where
  "SendInvokerReply_locks = GetNickname_locks"

definition InvokerPermissionCheck_locks :: "bool \<Rightarrow> critical list" where
  "InvokerPermissionCheck_locks capable = (if capable then [] else SendInvokerReply_locks)"

definition UserCommandForward_locks :: "bool \<Rightarrow> critical list \<Rightarrow> critical list" where
  "UserCommandForward_locks in_range callback = (if in_range then callback else SendInvokerReply_locks)"

text \<open>The code of a plugin: what its callbacks and its commands lock.\<close>

record plugin_locks =
  pl_register :: "critical list"
  pl_delete :: "critical list"
  pl_help :: "critical list"
  pl_command :: "critical list"

text \<open>A built-in command with the outcomes of its tests: the permission of the invoker, whether the
  channel could be left, the plugin opened or found.\<close>

datatype builtin_run =
    Hi
  | Nick bool
  | Join bool
  | Part bool bool
  | LoadPlugin bool
  | UnloadPlugin bool
  | HelpPlugin bool
  | HelpList

fun builtin_locks :: "plugin_locks \<Rightarrow> builtin_run \<Rightarrow> critical list" where
  "builtin_locks P Hi = SendInvokerReply_locks"
| "builtin_locks P (Nick capable) = InvokerPermissionCheck_locks capable"
| "builtin_locks P (Join capable) =
     InvokerPermissionCheck_locks capable @ (if capable then JoinChannel_locks else [])"
| "builtin_locks P (Part capable parted) =
     InvokerPermissionCheck_locks capable @
     (if capable then PartChannel_locks @ (if parted then [] else SendInvokerReply_locks) else [])"
| "builtin_locks P (LoadPlugin opened) =
     (if opened then pl_register P @ [Hold Plugins_map_mtx Unique SendInvokerReply_locks]
      else SendInvokerReply_locks)"
| "builtin_locks P (UnloadPlugin found) =
     [Hold Plugins_map_mtx Unique (if found then pl_delete P @ SendInvokerReply_locks else SendInvokerReply_locks)]"
| "builtin_locks P (HelpPlugin found) =
     [Hold Plugins_map_mtx Shared (if found then pl_help P else SendInvokerReply_locks)]"
| "builtin_locks P HelpList =
     SendInvokerReply_locks @ [Hold User_command_mtx Unique []] @ SendInvokerReply_locks"

section \<open>Handlers\<close>

text \<open>A message with the way it takes: a built-in command that passed or failed the arity guard, or one
  looked up among the commands of the plugins.\<close>

datatype handler_run =
    OnPing
  | OnNick
  | OnJoin
  | OnPart
  | OnBuiltin bool builtin_run
  | OnPluginCommand bool
  | OnUnknownCommand

fun handler_locks :: "plugin_locks \<Rightarrow> handler_run \<Rightarrow> critical list" where
  "handler_locks P OnPing = []"
| "handler_locks P OnNick = UpdateNickname_locks"
| "handler_locks P OnJoin = UpdateJoinChannel_locks"
| "handler_locks P OnPart = UpdatePartChannel_locks"
| "handler_locks P (OnBuiltin in_range c) = UserCommandForward_locks in_range (builtin_locks P c)"
| "handler_locks P (OnPluginCommand in_range) =
     [Hold User_command_mtx Shared (UserCommandForward_locks in_range (pl_command P))]"
| "handler_locks P OnUnknownCommand = [Hold User_command_mtx Shared []]"

text \<open>The callbacks that the macros of \<open>Plugin.hh\<close> export, with the one command of the version plugin.\<close>

definition RegisterCallbackImpl_locks :: "critical list" where
  "RegisterCallbackImpl_locks = AddPluginCommands_locks"

definition DeleteCallbackImpl_locks :: "critical list" where
  "DeleteCallbackImpl_locks = RemovePluginCommands_locks"

definition HelpCallbackImpl_locks :: "critical list" where
  "HelpCallbackImpl_locks = SendInvokerReply_locks"

definition Plugin_version_locks :: "critical list" where
  "Plugin_version_locks = SendInvokerReply_locks"

definition version_plugin_locks :: plugin_locks where
  "version_plugin_locks = \<lparr>pl_register = RegisterCallbackImpl_locks, pl_delete = DeleteCallbackImpl_locks,
     pl_help = HelpCallbackImpl_locks, pl_command = Plugin_version_locks\<rparr>"

lemmas lock_defs = GetNickname_locks_def UpdateNickname_locks_def DumpInfo_locks_def JoinChannel_locks_def
  UpdateJoinChannel_locks_def UpdatePartChannel_locks_def PartChannel_locks_def AddPluginCommands_locks_def
  RemovePluginCommands_locks_def SendInvokerReply_locks_def InvokerPermissionCheck_locks_def
  UserCommandForward_locks_def RegisterCallbackImpl_locks_def DeleteCallbackImpl_locks_def
  HelpCallbackImpl_locks_def Plugin_version_locks_def

section \<open>The order\<close>

fun rank :: "mutex \<Rightarrow> nat" where
  "rank Plugins_map_mtx = 0"
| "rank User_command_mtx = 1"
| "rank Nick_mtx = 2"
| "rank Chan_mtx = 2"

text \<open>Nested sections have larger ranks, starting from \<open>k\<close>.\<close>

fun in_order :: "nat \<Rightarrow> critical \<Rightarrow> bool" where
  "in_order k (Hold m md body) \<longleftrightarrow> k \<le> rank m \<and> list_all (in_order (Suc (rank m))) body"

abbreviation ordered :: "nat \<Rightarrow> critical list \<Rightarrow> bool" where
  "ordered k cs \<equiv> list_all (in_order k) cs"

lemma in_order_mono: "in_order k c \<Longrightarrow> j \<le> k \<Longrightarrow> in_order j c"
  by (cases c) auto

lemma ordered_mono: "ordered k cs \<Longrightarrow> j \<le> k \<Longrightarrow> ordered j cs"
  by (auto simp: list_all_iff intro: in_order_mono)

lemma cut_ordered: "cut cs cs' \<Longrightarrow> ordered k cs \<Longrightarrow> ordered k cs'"
  by (induction arbitrary: k rule: cut.induct) auto

text \<open>What the server relies on in the code of a plugin: its callbacks that run under \<open>plugins_map_mtx\<close>,
  and its commands, which run under \<open>user_command_mtx\<close>, take only mutexes that come later.\<close>

locale plugin_locking =
  fixes P :: plugin_locks
  assumes register_order: "ordered 0 (pl_register P)"
    and delete_order: "ordered 1 (pl_delete P)"
    and help_order: "ordered 1 (pl_help P)"
    and command_order: "ordered 2 (pl_command P)"
begin

lemma builtin_order: "ordered 0 (builtin_locks P c)"
  using register_order delete_order help_order
  by (cases c) (auto simp: lock_defs intro: ordered_mono)

lemma handler_order: "ordered 0 (handler_locks P r)"
  using builtin_order command_order by (cases r) (auto simp: lock_defs numeral_2_eq_2)

end

interpretation version_locking: plugin_locking version_plugin_locks
  by unfold_locales (simp_all add: version_plugin_locks_def lock_defs)

section \<open>Threads that take locks\<close>

record lock_thread =
  held :: "(mutex \<times> lock_mode) list"
  todo :: "lock_op list"

text \<open>Whether a lock can be had. A \<open>std::shared_mutex\<close> may or may not make a reader wait for writers that
  wait; \<open>pw\<close> is that choice. A mutex that the thread itself holds counts.\<close>

definition may_acquire :: "bool \<Rightarrow> lock_thread list \<Rightarrow> mutex \<Rightarrow> lock_mode \<Rightarrow> bool" where
  "may_acquire pw S m md =
     (case md of
        Unique \<Rightarrow> list_all (\<lambda>th. m \<notin> fst ` set (held th)) S
      | Shared \<Rightarrow> list_all (\<lambda>th. (m, Unique) \<notin> set (held th)) S \<and>
                  (pw \<longrightarrow> list_all (\<lambda>th. todo th = [] \<or> hd (todo th) \<noteq> Acquire m Unique) S))"

inductive lock_step :: "bool \<Rightarrow> lock_thread list \<Rightarrow> lock_thread list \<Rightarrow> bool" for pw where
  acquire: "i < length S \<Longrightarrow> S ! i = \<lparr>held = hs, todo = Acquire m md # ops\<rparr> \<Longrightarrow> may_acquire pw S m md \<Longrightarrow>
     lock_step pw S (S[i := \<lparr>held = (m, md) # hs, todo = ops\<rparr>])"
| release: "i < length S \<Longrightarrow> S ! i = \<lparr>held = (m, md) # hs, todo = Release m # ops\<rparr> \<Longrightarrow>
     lock_step pw S (S[i := \<lparr>held = hs, todo = ops\<rparr>])"

text \<open>A thread that holds \<open>hs\<close> and follows the order until it holds nothing.\<close>

fun follows :: "(mutex \<times> lock_mode) list \<Rightarrow> lock_op list \<Rightarrow> bool" where
  "follows hs [] \<longleftrightarrow> hs = []"
| "follows hs (Acquire m md # ops) \<longleftrightarrow> list_all (\<lambda>(m', _). rank m' < rank m) hs \<and> follows ((m, md) # hs) ops"
| "follows hs (Release m # ops) \<longleftrightarrow> (case hs of [] \<Rightarrow> False | (m', _) # hs' \<Rightarrow> m' = m \<and> follows hs' ops)"

lemma follows_flatten:
  "in_order k c \<Longrightarrow> list_all (\<lambda>(m, _). rank m < k) hs \<Longrightarrow> follows hs ops \<Longrightarrow> follows hs (flatten c @ ops)"
proof (induction c arbitrary: k hs ops)
  case (Hold m md body)
  have body: "follows hs' (concat (map flatten cs) @ ops')"
    if "set cs \<subseteq> set body" "ordered (Suc (rank m)) cs" "list_all (\<lambda>(m', _). rank m' < Suc (rank m)) hs'" "follows hs' ops'"
    for cs hs' ops'
    using that
  proof (induction cs arbitrary: ops')
    case (Cons c cs)
    then have "follows hs' (concat (map flatten cs) @ ops')" by simp
    then show ?case using Hold.IH [of c "Suc (rank m)" hs'] Cons.prems by simp
  qed simp
  have lt: "list_all (\<lambda>(m', _). rank m' < rank m) hs" using Hold.prems(1,2) by (auto simp: list_all_iff)
  then have "list_all (\<lambda>(m', _). rank m' < Suc (rank m)) ((m, md) # hs)" by (auto simp: list_all_iff)
  then have "follows ((m, md) # hs) (concat (map flatten body) @ Release m # ops)"
    using body [of body "(m, md) # hs" "Release m # ops"] Hold.prems by simp
  then show ?case using lt by simp
qed

lemma follows_sections: "ordered 0 cs \<Longrightarrow> follows [] (concat (map flatten cs))"
proof (induction cs)
  case (Cons c cs)
  then show ?case using follows_flatten [of 0 c "[]"] by simp
qed simp

definition wf_threads :: "lock_thread list \<Rightarrow> bool" where
  "wf_threads S \<longleftrightarrow> list_all (\<lambda>th. follows (held th) (todo th)) S"

definition exclusive :: "lock_thread list \<Rightarrow> bool" where
  "exclusive S \<longleftrightarrow> (\<forall>i j m. i < length S \<longrightarrow> j < length S \<longrightarrow> i \<noteq> j \<longrightarrow>
     (m, Unique) \<in> set (held (S ! i)) \<longrightarrow> m \<notin> fst ` set (held (S ! j)))"

definition finished :: "lock_thread list \<Rightarrow> bool" where
  "finished S \<longleftrightarrow> list_all (\<lambda>th. todo th = []) S"

definition pending :: "lock_thread list \<Rightarrow> nat" where
  "pending S = sum_list (map (\<lambda>th. length (todo th)) S)"

lemma wf_nth: "wf_threads S \<Longrightarrow> i < length S \<Longrightarrow> follows (held (S ! i)) (todo (S ! i))"
  by (simp add: wf_threads_def list_all_length)

lemma wf_update: "wf_threads S \<Longrightarrow> follows hs ops \<Longrightarrow> wf_threads (S[i := \<lparr>held = hs, todo = ops\<rparr>])"
  by (auto simp: wf_threads_def list_all_iff dest: set_update_subset_insert [THEN subsetD])

lemma lock_step_wf: "lock_step pw S T \<Longrightarrow> wf_threads S \<Longrightarrow> wf_threads T"
  by (induction rule: lock_step.induct) (use wf_nth in \<open>fastforce intro: wf_update\<close>)+

lemma lock_step_exclusive: "lock_step pw S T \<Longrightarrow> exclusive S \<Longrightarrow> exclusive T"
proof (induction rule: lock_step.induct)
  case (acquire i S hs m md ops)
  have free: "m \<notin> fst ` set (held (S ! j))" if "md = Unique" "j < length S" for j
    using acquire(3) that by (auto simp: may_acquire_def list_all_length)
  have nou: "(m, Unique) \<notin> set (held (S ! j))" if "j < length S" for j
    using acquire(3) that by (cases md) (force simp: may_acquire_def list_all_length)+
  show ?case unfolding exclusive_def
  proof (intro allI impI)
    fix a b l
    assume h: "a < length (S[i := \<lparr>held = (m, md) # hs, todo = ops\<rparr>])" "b < length (S[i := \<lparr>held = (m, md) # hs, todo = ops\<rparr>])"
      "a \<noteq> b" "(l, Unique) \<in> set (held (S[i := \<lparr>held = (m, md) # hs, todo = ops\<rparr>] ! a))"
    then show "l \<notin> fst ` set (held (S[i := \<lparr>held = (m, md) # hs, todo = ops\<rparr>] ! b))"
      using acquire(1,2,4) free nou unfolding exclusive_def
      by (auto simp: nth_list_update split: if_splits) (metis fst_conv image_eqI lock_thread.select_convs(1))+
  qed
next
  case (release i S m md hs ops)
  then show ?case unfolding exclusive_def
    by (auto simp: nth_list_update split: if_splits) (metis fst_conv image_eqI list.set_intros(2) lock_thread.select_convs(1))+
qed

lemma pending_update:
  "i < length S \<Longrightarrow> pending (S[i := th]) + length (todo (S ! i)) = pending S + length (todo th)"
  using elem_le_sum_list [of i "map (\<lambda>th. length (todo th)) S"] unfolding pending_def
  by (simp add: map_update sum_list_update)

lemma lock_step_pending: "lock_step pw S T \<Longrightarrow> pending S = Suc (pending T)"
proof (induction rule: lock_step.induct)
  case (acquire i S hs m md ops)
  then show ?case using pending_update [of i S "\<lparr>held = (m, md) # hs, todo = ops\<rparr>"] by simp
next
  case (release i S m md hs ops)
  then show ?case using pending_update [of i S "\<lparr>held = hs, todo = ops\<rparr>"] by simp
qed

text \<open>Deadlock freedom: among the threads that wait, one waits for a mutex of maximal rank. A holder of
  this mutex would wait for a larger one; without a holder, the mutex can be had, by a waiting
  writer if readers have to give way.\<close>

lemma not_blocked:
  assumes "wf_threads S" "\<not> finished S"
  shows "\<exists>T. lock_step pw S T"
proof (rule ccontr)
  assume no: "\<nexists>T. lock_step pw S T"
  define U where "U = {i. i < length S \<and> todo (S ! i) \<noteq> []}"
  have waits: "\<exists>m md ops. todo (S ! i) = Acquire m md # ops \<and> \<not> may_acquire pw S m md" if i: "i \<in> U" for i
  proof -
    obtain x ops where x: "todo (S ! i) = x # ops" "i < length S" using i by (cases "todo (S ! i)") (auto simp: U_def)
    have th: "S ! i = \<lparr>held = held (S ! i), todo = x # ops\<rparr>" using x(1) by (cases "S ! i") simp
    show ?thesis
    proof (cases x)
      case (Acquire m md)
      then show ?thesis using acquire [OF x(2), of "held (S ! i)" m md ops pw] th no x(1) by auto
    next
      case (Release m)
      then obtain md hs where "held (S ! i) = (m, md) # hs"
        using wf_nth [OF assms(1) x(2)] x(1) by (auto split: list.splits)
      then show ?thesis using release [OF x(2), of m md hs ops pw] th Release no by auto
    qed
  qed
  let ?r = "\<lambda>i. case hd (todo (S ! i)) of Acquire m md \<Rightarrow> rank m | Release m \<Rightarrow> 0"
  have "finite U" "U \<noteq> {}" using assms(2) by (auto simp: U_def finished_def list_all_length)
  then have fr: "finite (?r ` U)" "?r ` U \<noteq> {}" by simp_all
  obtain i where "i \<in> U" "?r i = Max (?r ` U)" using Max_in [OF fr] by fastforce
  then have i: "i \<in> U" "\<And>j. j \<in> U \<Longrightarrow> ?r j \<le> ?r i" using Max_ge [OF fr(1)] by auto
  obtain m md ops where m: "todo (S ! i) = Acquire m md # ops" "\<not> may_acquire pw S m md" using waits [OF i(1)] by blast
  have free: "m \<notin> fst ` set (held (S ! j))" if j: "j < length S" for j
  proof
    assume hm: "m \<in> fst ` set (held (S ! j))"
    then have "j \<in> U" using wf_nth [OF assms(1) j] j by (cases "todo (S ! j)") (auto simp: U_def)
    moreover from this obtain m' md' ops' where m': "todo (S ! j) = Acquire m' md' # ops'" using waits by blast
    ultimately have "rank m' \<le> rank m" using i(2) [of j] m(1) by simp
    moreover have "rank m < rank m'" using wf_nth [OF assms(1) j] m' hm by (auto simp: list_all_iff)
    ultimately show False by simp
  qed
  then have u: "may_acquire pw S m Unique" by (simp add: may_acquire_def list_all_length)
  then obtain j where "j < length S" "todo (S ! j) \<noteq> []" "hd (todo (S ! j)) = Acquire m Unique"
    using m(2) free by (cases md) (force simp: may_acquire_def list_all_length)+
  then show False using waits [of j] u by (auto simp: U_def)
qed

lemma all_finish: "wf_threads S \<Longrightarrow> \<exists>T. (lock_step pw)\<^sup>*\<^sup>* S T \<and> finished T"
proof (induction "pending S" arbitrary: S)
  case 0
  then have "finished S" using not_blocked [of S pw] lock_step_pending by fastforce
  then show ?case by blast
next
  case (Suc n)
  show ?case
  proof (cases "finished S")
    case False
    then obtain S' where S': "lock_step pw S S'" using not_blocked Suc.prems by blast
    then have "n = pending S'" using lock_step_pending Suc.hyps(2) by fastforce
    moreover have "wf_threads S'" using lock_step_wf S' Suc.prems by blast
    ultimately obtain T where "(lock_step pw)\<^sup>*\<^sup>* S' T" "finished T" using Suc.hyps(1) by blast
    then show ?thesis using S' by (meson converse_rtranclp_into_rtranclp)
  qed blast
qed

section \<open>Threads of a server\<close>

text \<open>The sections of one operation of a thread that works on the server, normal or cut short.\<close>

definition server_run :: "plugin_locks \<Rightarrow> critical list \<Rightarrow> bool" where
  "server_run P cs \<longleftrightarrow> (\<exists>r. cut (handler_locks P r) cs) \<or> cut DumpInfo_locks cs \<or> cut JoinChannel_locks cs"

definition server_threads :: "plugin_locks \<Rightarrow> lock_thread list \<Rightarrow> bool" where
  "server_threads P S \<longleftrightarrow> (\<forall>th \<in> set S. held th = [] \<and>
     (\<exists>runs. list_all (server_run P) runs \<and> todo th = concat (map flatten (concat runs))))"

context plugin_locking
begin

lemma server_run_order: "server_run P cs \<Longrightarrow> ordered 0 cs"
  using cut_ordered handler_order by (auto simp: server_run_def) (fastforce simp: lock_defs)+

lemma runs_order: "list_all (server_run P) runs \<Longrightarrow> ordered 0 (concat runs)"
  by (induction runs) (simp_all add: server_run_order)

lemma server_threads_wf: "server_threads P S \<Longrightarrow> wf_threads S"
  using follows_sections [OF runs_order] by (fastforce simp: server_threads_def wf_threads_def list_all_iff)

lemma server_threads_exclusive: "server_threads P S \<Longrightarrow> exclusive S"
  by (auto simp: server_threads_def exclusive_def)

end

sublocale plugin_locking \<subseteq> locking: invariant_system "server_threads P" "lock_step pw" "\<lambda>S. wf_threads S \<and> exclusive S" for pw
  by unfold_locales (auto intro: server_threads_wf server_threads_exclusive lock_step_wf lock_step_exclusive)

context plugin_locking
begin

lemma never_deadlocks:
  assumes "reachable (server_threads P) (lock_step pw) S"
  shows "(finished S \<or> (\<exists>T. lock_step pw S T)) \<and> (\<exists>T. (lock_step pw)\<^sup>*\<^sup>* S T \<and> finished T)"
  using locking.inv_reachable [OF assms] not_blocked [of S pw] all_finish [of S pw] by blast

lemma mutual_exclusion: "reachable (server_threads P) (lock_step pw) S \<Longrightarrow> exclusive S"
  using locking.inv_reachable by blast

end

section \<open>What happens without the order\<close>

text \<open>The deadlock that the comment in \<open>BuiltinPrivMsg\<close> warns of: a plugin command that itself registers
  commands waits for the mutex that its own invocation holds.\<close>

definition registering_plugin :: plugin_locks where
  "registering_plugin = version_plugin_locks\<lparr>pl_command := AddPluginCommands_locks\<rparr>"

lemma cut_refl: "cut cs cs"
  by (induction cs) (auto intro: cut.intros)

text \<open>Threads that each handle one message.\<close>

definition handling :: "plugin_locks \<Rightarrow> handler_run \<Rightarrow> lock_thread" where
  "handling P r = \<lparr>held = [], todo = concat (map flatten (handler_locks P r))\<rparr>"

lemma handling_start: "reachable (server_threads P) R (map (handling P) rs)"
proof (rule reach_init)
  have "server_run P (handler_locks P r)" for r unfolding server_run_def using cut_refl by blast
  then have "\<exists>runs. list_all (server_run P) runs \<and> todo (handling P r) = concat (map flatten (concat runs))" for r
    by (intro exI [of _ "[handler_locks P r]"]) (simp add: handling_def)
  then show "server_threads P (map (handling P) rs)" by (auto simp: server_threads_def handling_def)
qed

lemma registering_command_deadlocks:
  "\<exists>S. reachable (server_threads registering_plugin) (lock_step pw) S \<and> \<not> finished S \<and> (\<nexists>T. lock_step pw S T)"
proof -
  let ?ops = "[Acquire User_command_mtx Unique, Release User_command_mtx, Release User_command_mtx]"
  let ?S0 = "[\<lparr>held = [], todo = Acquire User_command_mtx Shared # ?ops\<rparr>]"
  let ?S1 = "[\<lparr>held = [(User_command_mtx, Shared)], todo = ?ops\<rparr>]"
  have "reachable (server_threads registering_plugin) (lock_step pw) ?S0"
    using handling_start [of registering_plugin "lock_step pw" "[OnPluginCommand True]"]
    by (simp add: handling_def lock_defs registering_plugin_def)
  moreover have "lock_step pw ?S0 (?S0[0 := \<lparr>held = [(User_command_mtx, Shared)], todo = ?ops\<rparr>])"
    by (rule acquire) (simp_all add: may_acquire_def)
  ultimately have "reachable (server_threads registering_plugin) (lock_step pw) ?S1" by (auto dest: reach_step)
  moreover have "\<nexists>T. lock_step pw ?S1 T" by (auto elim!: lock_step.cases simp: may_acquire_def)
  ultimately show ?thesis by (auto simp: finished_def)
qed

section \<open>Properties\<close>

text \<open>C11. No deadlock: any number of threads that handle messages, run built-in and plugin commands and
  dump the server, each possibly interrupted by exceptions, never block each other for ever. In
  every reachable state all are done or one of them can go on, and every schedule can be completed,
  whether or not readers have to wait for waiting writers.\<close>

theorem server_never_deadlocks:
  assumes "reachable (server_threads version_plugin_locks) (lock_step pw) S"
  shows "(finished S \<or> (\<exists>T. lock_step pw S T)) \<and> (\<exists>T. (lock_step pw)\<^sup>*\<^sup>* S T \<and> finished T)"
  by (rule version_locking.never_deadlocks [OF assms])

text \<open>Two threads for a concrete run: one unloads the plugin, the other runs its command.\<close>

definition two_threads :: "lock_thread list" where
  "two_threads = map (handling version_plugin_locks) [OnBuiltin True (UnloadPlugin True), OnPluginCommand True]"

lemma two_threads_start: "reachable (server_threads version_plugin_locks) R two_threads"
  unfolding two_threads_def by (rule handling_start)

lemmas two_threads_defs = two_threads_def handling_def version_plugin_locks_def lock_defs

theorem server_never_deadlocks_witness:
  "length (todo (hd two_threads)) = 6 \<and> (\<exists>T. (lock_step True)\<^sup>*\<^sup>* two_threads T \<and> finished T)"
proof -
  have "length (todo (hd two_threads)) = 6" by (simp add: two_threads_defs)
  then show ?thesis
    using server_never_deadlocks [OF two_threads_start, of True] by blast
qed

text \<open>Critical sections exclude each other: while a thread holds a mutex of the server uniquely, no
  other thread holds it in any way.\<close>

theorem server_mutual_exclusion:
  assumes "reachable (server_threads version_plugin_locks) (lock_step pw) S"
    and "i < length S" "j < length S" "i \<noteq> j" "(m, Unique) \<in> set (held (S ! i))"
  shows "(m, md) \<notin> set (held (S ! j))"
  using version_locking.mutual_exclusion [OF assms(1)] assms(2-5) unfolding exclusive_def by force

theorem server_mutual_exclusion_witness:
  "\<exists>S. lock_step False two_threads S \<and> (Plugins_map_mtx, Unique) \<in> set (held (S ! 0)) \<and>
     (Plugins_map_mtx, Shared) \<notin> set (held (S ! 1))"
proof -
  let ?S = "two_threads[0 := \<lparr>held = [(Plugins_map_mtx, Unique)], todo = tl (todo (two_threads ! 0))\<rparr>]"
  have st: "lock_step False two_threads ?S"
    by (rule acquire [where hs = "[]"]) (simp_all add: two_threads_defs may_acquire_def)
  have "length ?S = 2" "(Plugins_map_mtx, Unique) \<in> set (held (?S ! 0))" by (simp_all add: two_threads_defs)
  then show ?thesis
    using server_mutual_exclusion [OF reach_step [where step = "lock_step False", OF two_threads_start st], of 0 1 Plugins_map_mtx Shared] st
    by (intro exI [of _ ?S]) simp
qed

end
