(* ===== verification/Atomicity.thy ===== *)
theory Atomicity
  imports Server Locks
begin

text \<open>
  Why the operations of a server may be treated as single steps. The members of \<open>Server\<close> in
  \<open>src/src/Server.cc\<close> and \<open>src/src/Server.hh\<close> are broken up into the accesses they consist of: look something up
  under the mutex, talk to the network, change the table piece by piece, unlock. Threads that call
  them interleave between any two accesses. The contract that the accesses have to meet for this to
  be unobservable is the locale \<open>guarded_sections\<close>; inside it every run is explained by a serial one.
  The locale is interpreted on the server's operations, whose serial form is proved equal to the
  definitions of \<open>Server\<close>. \<open>GetState\<close> and \<open>SetState\<close> take no mutex: they are one access of an atomic member.
  Two members are not among the operations: \<open>GetNickname\<close>, which returns a reference that is read after the mutex has
  been released, and which no such contract can cover, and \<open>DumpInfo\<close>, which logs two sections one after the
  other.
\<close>

section \<open>Operations in pieces\<close>

record ('o, 'l, 's) section_ops =
  guard :: "'o \<Rightarrow> mutex option"
  find_step :: "'o \<Rightarrow> 's \<Rightarrow> 'l"
  io_step :: "'o \<Rightarrow> 'l \<Rightarrow> 's \<Rightarrow> 'l \<times> 's"
  write_steps :: "'o \<Rightarrow> 'l \<Rightarrow> ('s \<Rightarrow> 's) list"

text \<open>An operation that runs alone, with the local variables it ends with.\<close>

definition run_section :: "('o, 'l, 's) section_ops \<Rightarrow> 'o \<Rightarrow> 's \<Rightarrow> 'l \<times> 's" where
  "run_section S x s =
     (let (l, t) = io_step S x (find_step S x s) s in (l, fold (\<lambda>f. f) (write_steps S x l) t))"

text \<open>Where a thread is in an operation: locked, after the lookup, with the changes that are left.\<close>

datatype ('o, 'l, 's) section_pc =
    Idle
  | Begun 'o
  | Found 'o 'l
  | Writing 'o 'l "('s \<Rightarrow> 's) list"

record ('o, 'l, 's) conc =
  shared :: 's
  pcs :: "('o, 'l, 's) section_pc list"
  scripts :: "'o list list"
  hist :: "(nat \<times> 'o \<times> 'l) list"

fun current :: "('o, 'l, 's) section_pc \<Rightarrow> 'o option" where
  "current Idle = None"
| "current (Begun x) = Some x"
| "current (Found x l) = Some x"
| "current (Writing x l ws) = Some x"

definition holds :: "('o, 'l, 's) section_ops \<Rightarrow> mutex \<Rightarrow> ('o, 'l, 's) section_pc \<Rightarrow> bool" where
  "holds S m p \<longleftrightarrow> (case current p of None \<Rightarrow> False | Some x \<Rightarrow> guard S x = Some m)"

inductive section_step :: "('o, 'l, 's) section_ops \<Rightarrow> ('o, 'l, 's) conc \<Rightarrow> ('o, 'l, 's) conc \<Rightarrow> bool" for S where
  sec_begin: "i < length (pcs c) \<Longrightarrow> pcs c ! i = Idle \<Longrightarrow> scripts c ! i = x # xs \<Longrightarrow>
     (\<And>m. guard S x = Some m \<Longrightarrow> list_all (\<lambda>p. \<not> holds S m p) (pcs c)) \<Longrightarrow>
     section_step S c (c\<lparr>pcs := (pcs c)[i := Begun x], scripts := (scripts c)[i := xs]\<rparr>)"
| sec_find: "i < length (pcs c) \<Longrightarrow> pcs c ! i = Begun x \<Longrightarrow>
     section_step S c (c\<lparr>pcs := (pcs c)[i := Found x (find_step S x (shared c))]\<rparr>)"
| sec_io: "i < length (pcs c) \<Longrightarrow> pcs c ! i = Found x l \<Longrightarrow> io_step S x l (shared c) = (l', t) \<Longrightarrow>
     section_step S c (c\<lparr>shared := t, pcs := (pcs c)[i := Writing x l' (write_steps S x l')],
       hist := hist c @ [(i, x, l')]\<rparr>)"
| sec_write: "i < length (pcs c) \<Longrightarrow> pcs c ! i = Writing x l (f # fs) \<Longrightarrow>
     section_step S c (c\<lparr>shared := f (shared c), pcs := (pcs c)[i := Writing x l fs]\<rparr>)"
| sec_end: "i < length (pcs c) \<Longrightarrow> pcs c ! i = Writing x l [] \<Longrightarrow>
     section_step S c (c\<lparr>pcs := (pcs c)[i := Idle]\<rparr>)"

definition conc_start :: "'s \<Rightarrow> 'o list list \<Rightarrow> ('o, 'l, 's) conc \<Rightarrow> bool" where
  "conc_start s scs c \<longleftrightarrow> shared c = s \<and> scripts c = scs \<and> hist c = [] \<and> pcs c = replicate (length scs) Idle"

section \<open>Serial explanations\<close>

fun explains :: "('o, 'l, 's) section_ops \<Rightarrow> 's \<Rightarrow> (nat \<times> 'o \<times> 'l) list \<Rightarrow> 's \<Rightarrow> bool" where
  "explains S s [] u \<longleftrightarrow> u = s"
| "explains S s ((i, x, l) # h) u \<longleftrightarrow> fst (run_section S x s) = l \<and> explains S (snd (run_section S x s)) h u"

lemma explains_snoc:
  "explains S s h u \<Longrightarrow> run_section S x u = (l, v) \<Longrightarrow> explains S s (h @ [(i, x, l)]) v"
  by (induction S s h u rule: explains.induct) auto

text \<open>What thread \<open>i\<close> has done according to a history.\<close>

definition done_by :: "nat \<Rightarrow> (nat \<times> 'o \<times> 'l) list \<Rightarrow> 'o list" where
  "done_by i h = map (\<lambda>(_, x, _). x) (filter (\<lambda>(j, _, _). j = i) h)"

lemma done_by_simps [simp]:
  "done_by i [] = []" "done_by i (h @ [(j, x, l)]) = done_by i h @ (if j = i then [x] else [])"
  by (simp_all add: done_by_def)

text \<open>What a thread has begun and not yet made visible, and the changes it owes to the tables.\<close>

fun inflight :: "('o, 'l, 's) section_pc \<Rightarrow> 'o list" where
  "inflight (Begun x) = [x]"
| "inflight (Found x l) = [x]"
| "inflight _ = []"

fun pend :: "('o, 'l, 's) section_pc \<Rightarrow> 's \<Rightarrow> 's" where
  "pend (Writing x l ws) s = fold (\<lambda>f. f) ws s"
| "pend _ s = s"

definition view :: "('o, 'l, 's) conc \<Rightarrow> 's" where
  "view c = foldr pend (pcs c) (shared c)"

lemma foldr_pend_commute:
  "(\<And>q s. q \<in> set qs \<Longrightarrow> f (pend q s) = pend q (f s)) \<Longrightarrow> foldr pend qs (f s) = f (foldr pend qs s)"
  by (induction qs) simp_all

lemma foldr_pend_update:
  "i < length ps \<Longrightarrow> (\<And>q s. q \<in> set (ps[i := Idle]) \<Longrightarrow> pend X (pend q s) = pend q (pend X s)) \<Longrightarrow>
     foldr pend (ps[i := X]) s = pend X (foldr pend (ps[i := Idle]) s)"
proof (induction ps arbitrary: i)
  case (Cons p ps)
  then show ?case by (cases i) simp_all
qed simp

lemma view_same: "i < length ps \<Longrightarrow> pend X = pend (ps ! i) \<Longrightarrow> foldr pend (ps[i := X]) s = foldr pend ps s"
proof (induction ps arbitrary: i)
  case (Cons p ps)
  then show ?case by (cases i) simp_all
qed simp

text \<open>Every lookup result is still what the table says, and the changes left are the operation's own; no
  two threads are in sections under the same mutex.\<close>

definition legal :: "('o, 'l, 's) section_ops \<Rightarrow> ('o, 'l, 's) section_pc \<Rightarrow> 's \<Rightarrow> bool" where
  "legal S p s \<longleftrightarrow> (case p of
       Found x l \<Rightarrow> l = find_step S x s
     | Writing x l ws \<Rightarrow> set ws \<subseteq> set (write_steps S x l)
     | _ \<Rightarrow> True)"

definition apart :: "('o, 'l, 's) section_ops \<Rightarrow> ('o, 'l, 's) section_pc list \<Rightarrow> bool" where
  "apart S ps \<longleftrightarrow> (\<forall>i < length ps. \<forall>j < length ps. \<forall>m. i \<noteq> j \<longrightarrow> holds S m (ps ! i) \<longrightarrow> \<not> holds S m (ps ! j))"

definition section_inv :: "('o, 'l, 's) section_ops \<Rightarrow> 's \<Rightarrow> 'o list list \<Rightarrow> ('o, 'l, 's) conc \<Rightarrow> bool" where
  "section_inv S s scs c \<longleftrightarrow> length (pcs c) = length scs \<and> length (scripts c) = length scs \<and> apart S (pcs c) \<and>
     (\<forall>p \<in> set (pcs c). legal S p (shared c)) \<and> explains S s (hist c) (view c) \<and>
     (\<forall>i < length scs. done_by i (hist c) @ inflight (pcs c ! i) @ scripts c ! i = scs ! i)"

lemma apart_same:
  assumes "apart S ps" "i < length ps" "current X = current (ps ! i)"
  shows "apart S (ps[i := X])"
proof -
  have "holds S m (ps[i := X] ! j) \<longleftrightarrow> holds S m (ps ! j)" if "j < length ps" for m j
    using assms(2,3) that by (cases "j = i") (simp_all add: holds_def)
  then show ?thesis using assms(1) by (simp add: apart_def)
qed

lemma apart_free:
  assumes "apart S ps" "i < length ps" "\<And>m. holds S m X \<Longrightarrow> list_all (\<lambda>p. \<not> holds S m p) ps"
  shows "apart S (ps[i := X])"
  unfolding apart_def
proof (intro allI impI)
  fix a b m
  assume h: "a < length (ps[i := X])" "b < length (ps[i := X])" "a \<noteq> b" "holds S m (ps[i := X] ! a)"
  then have "holds S m X \<Longrightarrow> \<not> holds S m (ps ! a) \<and> \<not> holds S m (ps ! b)"
    using assms(3) by (simp add: list_all_length)
  moreover have "a \<noteq> i \<Longrightarrow> b \<noteq> i \<Longrightarrow> \<not> holds S m (ps ! b)"
    using assms(1) h unfolding apart_def by simp
  ultimately show "\<not> holds S m (ps[i := X] ! b)"
    using h(3,4) assms(2) by (cases "a = i"; cases "b = i") auto
qed

lemma fold_swap:
  assumes "\<And>f g s. f \<in> set fs \<Longrightarrow> g \<in> set gs \<Longrightarrow> f (g s) = g (f s)"
  shows "fold (\<lambda>f. f) fs (fold (\<lambda>f. f) gs s) = fold (\<lambda>f. f) gs (fold (\<lambda>f. f) fs s)"
proof -
  have one: "f (fold (\<lambda>f. f) gs s) = fold (\<lambda>f. f) gs (f s)" if "f \<in> set fs" for f s
    using assms that by (induction gs arbitrary: s) (simp_all, metis)
  show ?thesis using one
  proof (induction fs arbitrary: s)
    case (Cons f fs)
    have "fold (\<lambda>f. f) fs (f (fold (\<lambda>f. f) gs s)) = fold (\<lambda>f. f) fs (fold (\<lambda>f. f) gs (f s))"
      by (rule arg_cong, rule Cons.prems) simp
    also have "\<dots> = fold (\<lambda>f. f) gs (fold (\<lambda>f. f) fs (f s))" by (rule Cons.IH, rule Cons.prems) simp
    finally show ?case by simp
  qed simp
qed

section \<open>The contract of guarded sections\<close>

text \<open>
  Talking to the network neither reads nor changes the tables, a lookup is blind to the changes of
  sections under other mutexes, such changes commute, and what runs without a mutex changes nothing.
\<close>

locale guarded_sections =
  fixes S :: "('o, 'l, 's) section_ops"
  assumes io_find: "find_step S x (snd (io_step S y l s)) = find_step S x s"
    and write_io: "f \<in> set (write_steps S y k) \<Longrightarrow>
      io_step S x l (f s) = (fst (io_step S x l s), f (snd (io_step S x l s)))"
    and write_find: "guard S x \<noteq> guard S y \<Longrightarrow> f \<in> set (write_steps S y l) \<Longrightarrow> find_step S x (f s) = find_step S x s"
    and write_write: "guard S x \<noteq> guard S y \<Longrightarrow> f \<in> set (write_steps S x k) \<Longrightarrow> g \<in> set (write_steps S y l) \<Longrightarrow>
      f (g s) = g (f s)"
    and unguarded: "guard S x = None \<Longrightarrow> write_steps S x l = []"
begin

lemma legal_io: "legal S p s \<Longrightarrow> legal S p (snd (io_step S x l s))"
  by (auto simp: legal_def io_find split: section_pc.splits)

lemma pend_swap:
  assumes "apart S ps" "i < length ps" "j < length ps" "i \<noteq> j" "current X = current (ps ! i)"
    and "legal S X s" "legal S (ps ! j) t"
  shows "pend X (pend (ps ! j) u) = pend (ps ! j) (pend X u)"
proof (cases "\<exists>x l ws y k vs. X = Writing x l ws \<and> ps ! j = Writing y k vs")
  case True
  then obtain x l ws y k vs where X: "X = Writing x l ws" and Y: "ps ! j = Writing y k vs" by blast
  show ?thesis
  proof (cases "guard S x")
    case None
    then show ?thesis using X assms(6) unguarded [of x l] by (simp add: legal_def)
  next
    case (Some m)
    then have "holds S m (ps ! i)" using X assms(5) by (simp add: holds_def flip: assms(5))
    then have "guard S x \<noteq> guard S y" using assms(1-4) Y Some by (auto simp: apart_def holds_def)
    then have "f (g v) = g (f v)" if "f \<in> set ws" "g \<in> set vs" for f g v
      using write_write [of x y f l g k v] that X Y assms(6,7) by (auto simp: legal_def)
    then have "fold (\<lambda>f. f) ws (fold (\<lambda>f. f) vs u) = fold (\<lambda>f. f) vs (fold (\<lambda>f. f) ws u)" by (rule fold_swap)
    then show ?thesis using X Y by simp
  qed
next
  case False
  then show ?thesis by (cases X; cases "ps ! j") auto
qed

lemma others_swap:
  assumes "apart S ps" "\<forall>p \<in> set ps. legal S p t" "i < length ps" "current X = current (ps ! i)" "legal S X s"
    and "q \<in> set (ps[i := Idle])"
  shows "pend X (pend q u) = pend q (pend X u)"
proof -
  from assms(6) obtain j where j: "j < length ps" "q = ps[i := Idle] ! j" by (auto simp: in_set_conv_nth)
  then show ?thesis using pend_swap [OF assms(1,3) j(1) _ assms(4,5), of t u] assms(2) nth_mem [OF j(1)]
    by (cases "j = i") (auto simp: assms(3))
qed

lemma view_split:
  assumes "apart S ps" "\<forall>p \<in> set ps. legal S p t" "i < length ps" "current X = current (ps ! i)" "legal S X s"
  shows "foldr pend (ps[i := X]) u = pend X (foldr pend (ps[i := Idle]) u)"
  by (rule foldr_pend_update [OF assms(3)]) (rule others_swap [OF assms])

lemma io_view:
  "\<forall>p \<in> set ps. legal S p s \<Longrightarrow>
     io_step S x l (foldr pend ps t) = (fst (io_step S x l t), foldr pend ps (snd (io_step S x l t)))"
proof (induction ps)
  case (Cons p ps)
  have "io_step S x l (fold (\<lambda>f. f) ws u) = (fst (io_step S x l u), fold (\<lambda>f. f) ws (snd (io_step S x l u)))"
    if "set ws \<subseteq> set (write_steps S y k)" for ws y k u
    using that write_io by (induction ws arbitrary: u) auto
  then show ?case using Cons by (cases p) (auto simp: legal_def)
qed simp

lemma find_view:
  assumes "\<forall>q \<in> set qs. legal S q s \<and> (\<forall>x'. current q = Some x' \<longrightarrow> guard S x' = guard S x \<longrightarrow> guard S x = None)"
  shows "find_step S x (foldr pend qs t) = find_step S x t"
  using assms
proof (induction qs)
  case (Cons q qs)
  have "find_step S x (pend q u) = find_step S x u" for u
  proof (cases q)
    case (Writing y l ws)
    then have ws: "set ws \<subseteq> set (write_steps S y l)" and g: "guard S y \<noteq> guard S x \<or> ws = []"
      using Cons.prems unguarded [of y l] by (auto simp: legal_def)
    have "find_step S x (fold (\<lambda>f. f) ws u) = find_step S x u"
      using ws g write_find [of x y _ l] by (induction ws arbitrary: u) auto
    then show ?thesis using Writing by simp
  qed simp_all
  then show ?case using Cons by simp
qed simp

text \<open>One lemma for each kind of step; the first covers those that leave the shared state alone.\<close>

lemma inv_quiet:
  assumes "section_inv S s scs c" "i < length (pcs c)" "apart S ((pcs c)[i := X])" "pend X = pend (pcs c ! i)"
    and "legal S X (shared c)" "inflight X @ xs = inflight (pcs c ! i) @ scripts c ! i"
  shows "section_inv S s scs (c\<lparr>pcs := (pcs c)[i := X], scripts := (scripts c)[i := xs]\<rparr>)"
proof -
  have "foldr pend ((pcs c)[i := X]) (shared c) = foldr pend (pcs c) (shared c)"
    by (rule view_same) (simp_all add: assms)
  moreover have "\<forall>p \<in> set ((pcs c)[i := X]). legal S p (shared c)"
    using assms(1,5) set_update_subset_insert [of "pcs c" i X] by (auto simp: section_inv_def)
  moreover have "done_by j (hist c) @ inflight ((pcs c)[i := X] ! j) @ (scripts c)[i := xs] ! j = scs ! j"
    if "j < length scs" for j
    using assms(1,2,6) that by (cases "j = i") (auto simp: section_inv_def)
  ultimately show ?thesis using assms(1,3) by (simp add: section_inv_def view_def)
qed

lemma apart_guard:
  assumes "apart S ps" "i < length ps" "current (ps ! i) = Some x" "q \<in> set (ps[i := Idle])" "current q = Some y"
  shows "guard S x = guard S y \<Longrightarrow> guard S x = None"
proof (rule ccontr)
  assume "guard S x = guard S y" "guard S x \<noteq> None"
  then obtain m where m: "guard S x = Some m" "guard S y = Some m" by auto
  obtain j where j: "j < length ps" "q = ps[i := Idle] ! j" using assms(4) by (auto simp: in_set_conv_nth)
  then have "j \<noteq> i" using assms(2,5) by auto
  then have "q = ps ! j" using j by simp
  then have "holds S m (ps ! i)" "holds S m (ps ! j)" using assms(3,5) m by (simp_all add: holds_def)
  then show False using assms(1,2) j(1) \<open>j \<noteq> i\<close> unfolding apart_def by blast
qed

lemma legal_idle: "\<forall>p \<in> set ps. legal S p s \<Longrightarrow> \<forall>p \<in> set (ps[i := Idle]). legal S p s"
  using set_update_subset_insert [of ps i Idle] by (auto simp: legal_def)

lemma inv_io:
  assumes inv: "section_inv S s scs c" and i: "i < length (pcs c)" "pcs c ! i = Found x l"
    and io: "io_step S x l (shared c) = (l', t)"
  shows "section_inv S s scs (c\<lparr>shared := t, pcs := (pcs c)[i := Writing x l' (write_steps S x l')],
    hist := hist c @ [(i, x, l')]\<rparr>)"
proof -
  let ?X = "Writing x l' (write_steps S x l')" and ?ps = "(pcs c)[i := Idle]"
  have ap: "apart S (pcs c)" and lg: "\<forall>p \<in> set (pcs c). legal S p (shared c)" using inv by (simp_all add: section_inv_def)
  have t: "t = snd (io_step S x l (shared c))" using io by simp
  have lgi: "\<forall>p \<in> set ?ps. legal S p (shared c)"
    using legal_idle [OF lg] .
  have same: "foldr pend (pcs c) (shared c) = foldr pend ?ps (shared c)"
    using view_same [of i "pcs c" Idle "shared c"] i by (simp add: fun_eq_iff)
  have "l = find_step S x (shared c)" using lg nth_mem [OF i(1)] i(2) by (force simp: legal_def)
  moreover have "find_step S x (foldr pend ?ps (shared c)) = find_step S x (shared c)"
    by (rule find_view [of _ "shared c"]) (use lgi apart_guard [OF ap i(1), of x] i(2) in force)
  ultimately have run: "run_section S x (view c) = (l', fold (\<lambda>f. f) (write_steps S x l') (foldr pend ?ps t))"
    using io_view [OF lgi, of x l "shared c"] io by (simp add: run_section_def view_def same)
  have "foldr pend ((pcs c)[i := ?X]) t = pend ?X (foldr pend ?ps t)"
    by (rule view_split [OF ap lg i(1)]) (simp_all add: i legal_def)
  then have "explains S s (hist c @ [(i, x, l')]) (foldr pend ((pcs c)[i := ?X]) t)"
    using explains_snoc [OF _ run] inv by (simp add: section_inv_def)
  moreover have "apart S ((pcs c)[i := ?X])" using ap i by (intro apart_same) simp_all
  moreover have "\<forall>p \<in> set ((pcs c)[i := ?X]). legal S p t"
    using lg set_update_subset_insert [of "pcs c" i ?X] legal_io [of _ "shared c" x l] t
    by (fastforce simp: legal_def)
  ultimately show ?thesis using inv i by (auto simp: section_inv_def view_def nth_list_update)
qed

lemma inv_write:
  assumes inv: "section_inv S s scs c" and i: "i < length (pcs c)" "pcs c ! i = Writing x l (f # fs)"
  shows "section_inv S s scs (c\<lparr>shared := f (shared c), pcs := (pcs c)[i := Writing x l fs]\<rparr>)"
proof -
  let ?X = "Writing x l fs" and ?ps = "(pcs c)[i := Idle]" and ?u = "shared c"
  have ap: "apart S (pcs c)" and lg: "\<forall>p \<in> set (pcs c). legal S p ?u" using inv by (simp_all add: section_inv_def)
  have "legal S (Writing x l (f # fs)) ?u" using lg nth_mem [OF i(1)] i(2) by metis
  then have X: "legal S ?X v" "legal S (Writing x l [f]) v" and f: "f \<in> set (write_steps S x l)" for v
    by (simp_all add: legal_def)
  have "pend (Writing x l [f]) (pend q v) = pend q (pend (Writing x l [f]) v)" if "q \<in> set ?ps" for q v
    by (rule others_swap [OF ap lg i(1) _ X(2) that]) (simp add: i)
  then have fp: "foldr pend ?ps (f ?u) = f (foldr pend ?ps ?u)" by (intro foldr_pend_commute) simp
  have "foldr pend ((pcs c)[i := ?X]) (f ?u) = pend ?X (foldr pend ?ps (f ?u))"
    by (rule view_split [OF ap lg i(1) _ X(1)]) (simp add: i)
  also have "\<dots> = pend (Writing x l (f # fs)) (foldr pend ?ps ?u)" by (simp add: fp)
  also have "\<dots> = foldr pend ((pcs c)[i := Writing x l (f # fs)]) ?u"
    by (rule view_split [OF ap lg i(1), symmetric]) (use i lg nth_mem [OF i(1)] in auto)
  also have "\<dots> = view c" using i by (metis list_update_id view_def)
  finally have view: "foldr pend ((pcs c)[i := ?X]) (f ?u) = view c" .
  have "legal S q (f ?u)" if q: "q \<in> set ?ps" for q
  proof (cases q)
    case (Found y k)
    have "guard S y \<noteq> guard S x"
      using apart_guard [OF ap i(1) _ q, of x y] unguarded [of x l] f Found i(2) by auto
    then show ?thesis using legal_idle [OF lg, of i] q Found write_find [of y x f l ?u] f by (auto simp: legal_def)
  qed (use legal_idle [OF lg, of i] q in \<open>force simp: legal_def\<close>)+
  then have "\<forall>p \<in> set ((pcs c)[i := ?X]). legal S p (f ?u)"
    using X(1) i(1) set_update_subset_insert [of ?ps i ?X] by (auto simp: subset_iff)
  moreover have "apart S ((pcs c)[i := ?X])" using ap i by (intro apart_same) simp_all
  ultimately show ?thesis using inv i view by (auto simp: section_inv_def view_def nth_list_update)
qed

lemma inv_section_step: "section_step S c d \<Longrightarrow> section_inv S s scs c \<Longrightarrow> section_inv S s scs d"
proof (induction rule: section_step.induct)
  case (sec_begin i c x xs)
  then have "apart S ((pcs c)[i := Begun x])" by (intro apart_free) (simp_all add: section_inv_def holds_def)
  then show ?case by (intro inv_quiet) (simp_all add: sec_begin fun_eq_iff legal_def)
next
  case (sec_find i c x)
  then have "apart S ((pcs c)[i := Found x (find_step S x (shared c))])" by (intro apart_same) (simp_all add: section_inv_def)
  then have "section_inv S s scs (c\<lparr>pcs := (pcs c)[i := Found x (find_step S x (shared c))],
      scripts := (scripts c)[i := scripts c ! i]\<rparr>)"
    by (intro inv_quiet) (simp_all add: sec_find fun_eq_iff legal_def)
  then show ?case by simp
next
  case (sec_end i c x l)
  then have "apart S ((pcs c)[i := Idle])" by (intro apart_free) (simp_all add: section_inv_def holds_def)
  then have "section_inv S s scs (c\<lparr>pcs := (pcs c)[i := Idle], scripts := (scripts c)[i := scripts c ! i]\<rparr>)"
    by (intro inv_quiet) (simp_all add: sec_end fun_eq_iff legal_def)
  then show ?case by simp
qed (auto intro: inv_io inv_write)

lemma inv_conc_start: "conc_start s scs c \<Longrightarrow> section_inv S s scs c"
proof -
  assume c: "conc_start s scs c"
  have "foldr pend (replicate n Idle) s = s" for n by (induction n) simp_all
  then show ?thesis using c
    by (auto simp: conc_start_def section_inv_def apart_def holds_def legal_def view_def simp del: foldr_replicate)
qed

end

sublocale guarded_sections \<subseteq> sections: invariant_system "conc_start s scs" "section_step S" "section_inv S s scs" for s scs
  by unfold_locales (auto intro: inv_conc_start inv_section_step)

context guarded_sections
begin

text \<open>Every run is explained by a serial one that keeps the order of each thread; when nobody is in the
  middle of an operation, the explanation ends in the state that there is.\<close>

lemma explained:
  assumes "reachable (conc_start s scs) (section_step S) c"
  shows "explains S s (hist c) (view c)" "list_all (\<lambda>p. p = Idle) (pcs c) \<Longrightarrow> view c = shared c"
    "\<forall>i < length scs. done_by i (hist c) @ inflight (pcs c ! i) @ scripts c ! i = scs ! i"
proof -
  have "foldr pend ps t = t" if "list_all (\<lambda>p. p = Idle) ps" for ps :: "('o, 'l, 's) section_pc list" and t
    using that by (induction ps) simp_all
  then show "list_all (\<lambda>p. p = Idle) (pcs c) \<Longrightarrow> view c = shared c" by (simp add: view_def)
qed (use sections.inv_reachable [OF assms] in \<open>simp_all add: section_inv_def\<close>)

end

section \<open>The operations of the server\<close>

text \<open>Calls of members of \<open>Server\<close>, and the local variables of one: the entry that was found, the nickname
  that was compared, the result of sending, and the state that was loaded.\<close>

datatype server_call =
    CallJoin string
  | CallUpdateJoin string
  | CallPart string
  | CallUpdatePart string
  | CallUpdateNickname string string
  | CallAddCommands "(string \<times> callback) list"
  | CallRemoveCommands "string list"
  | CallSendChannel string string
  | CallSetNickname string
  | CallGetState
  | CallSetState ServerState

record call_locals =
  it :: "ChannelState option"
  cur :: string
  sent :: int
  seen :: ServerState

fun call_guard :: "server_call \<Rightarrow> mutex option" where
  "call_guard (CallUpdateNickname old new) = Some Nick_mtx"
| "call_guard (CallAddCommands sp) = Some User_command_mtx"
| "call_guard (CallRemoveCommands sp) = Some User_command_mtx"
| "call_guard (CallSendChannel c msg) = None"
| "call_guard (CallSetNickname d) = None"
| "call_guard CallGetState = None"
| "call_guard (CallSetState st) = None"
| "call_guard _ = Some Chan_mtx"

fun call_find :: "server_call \<Rightarrow> ('cb, 'a) server_scheme \<Rightarrow> call_locals" where
  "call_find (CallJoin c) s = \<lparr>it = chan_map s c, cur = [], sent = 0, seen = kSetup\<rparr>"
| "call_find (CallUpdateJoin c) s = \<lparr>it = chan_map s c, cur = [], sent = 0, seen = kSetup\<rparr>"
| "call_find (CallPart c) s = \<lparr>it = chan_map s c, cur = [], sent = 0, seen = kSetup\<rparr>"
| "call_find (CallUpdatePart c) s = \<lparr>it = chan_map s c, cur = [], sent = 0, seen = kSetup\<rparr>"
| "call_find (CallUpdateNickname old new) s = \<lparr>it = None, cur = nickname s, sent = 0, seen = kSetup\<rparr>"
| "call_find _ s = \<lparr>it = None, cur = [], sent = 0, seen = kSetup\<rparr>"

text \<open>The message that a call sends; \<open>PartChannel\<close> sends one for a known channel only.\<close>

fun call_message :: "server_call \<Rightarrow> call_locals \<Rightarrow> string option" where
  "call_message (CallJoin c) l = Some (CR # ''JOIN '' @ c @ [CR, LF])"
| "call_message (CallPart c) l = (if it l = None then None else Some (CR # ''PART '' @ c @ [CR, LF]))"
| "call_message (CallSendChannel c msg) l = Some (CR # ''PRIVMSG '' @ c @ '' :'' @ msg @ [CR, LF])"
| "call_message (CallSetNickname d) l = Some (CR # ''NICK '' @ c_str d @ [CR, LF])"
| "call_message _ l = None"

text \<open>What a call does between its lookup and its changes: a message, or the one access of the atomic.\<close>

definition call_io :: "env \<Rightarrow> server_call \<Rightarrow> call_locals \<Rightarrow> ('cb, 'a) server_scheme \<Rightarrow>
    call_locals \<times> ('cb, 'a) server_scheme" where
  "call_io e x l s =
     (case x of
        CallGetState \<Rightarrow> (l\<lparr>seen := srv_state s\<rparr>, s)
      | CallSetState st \<Rightarrow> (l, s\<lparr>srv_state := st\<rparr>)
      | _ \<Rightarrow>
          (case call_message x l of
             None \<Rightarrow> (l, s)
           | Some d \<Rightarrow> (l\<lparr>sent := fst (os_send e (w_trace s) (irc_fd s) d)\<rparr>, snd (sys_send e (irc_fd s) d s))))"

definition set_chan :: "((string \<rightharpoonup> ChannelState) \<Rightarrow> (string \<rightharpoonup> ChannelState)) \<Rightarrow> ('cb, 'a) server_scheme \<Rightarrow>
    ('cb, 'a) server_scheme" where
  "set_chan f s = s\<lparr>chan_map := f (chan_map s)\<rparr>"

definition set_commands :: "((string \<rightharpoonup> callback) \<Rightarrow> (string \<rightharpoonup> callback)) \<Rightarrow> ('cb, 'a) server_scheme \<Rightarrow>
    ('cb, 'a) server_scheme" where
  "set_commands f s = s\<lparr>user_command_map := f (user_command_map s)\<rparr>"

fun call_writes :: "server_call \<Rightarrow> call_locals \<Rightarrow> (('cb, 'a) server_scheme \<Rightarrow> ('cb, 'a) server_scheme) list" where
  "call_writes (CallJoin c) l =
     (if sent l < 0 then []
      else if it l = None then [set_chan (fm_insert c JoinRequested)] else [set_chan (fm_assign c JoinRequested)])"
| "call_writes (CallUpdateJoin c) l = (if it l = Some JoinRequested then [set_chan (fm_assign c Joined)] else [])"
| "call_writes (CallPart c) l =
     (if it l = None \<or> sent l < 0 then [] else [set_chan (fm_assign c PartRequested)])"
| "call_writes (CallUpdatePart c) l = (if it l = Some PartRequested then [set_chan (fm_erase c)] else [])"
| "call_writes (CallUpdateNickname old new) l = (if old = cur l then [\<lambda>s. s\<lparr>nickname := new\<rparr>] else [])"
| "call_writes (CallAddCommands sp) l = map (\<lambda>(k, v). set_commands (fm_insert k v)) sp"
| "call_writes (CallRemoveCommands sp) l = map (\<lambda>k. set_commands (fm_erase k)) sp"
| "call_writes _ l = []"

definition server_sections :: "env \<Rightarrow> (server_call, call_locals, ('cb, 'a) server_scheme) section_ops" where
  "server_sections e = \<lparr>guard = call_guard, find_step = call_find, io_step = call_io e, write_steps = call_writes\<rparr>"

lemma section_sel [simp]:
  "guard (server_sections e) = call_guard" "find_step (server_sections e) = call_find"
  "io_step (server_sections e) = call_io e" "write_steps (server_sections e) = call_writes"
  by (simp_all add: server_sections_def)

text \<open>A change touches the table that the guard of its call protects, and nothing else.\<close>

lemma call_writes_cases:
  assumes "f \<in> set (call_writes x l)"
  obtains g where "call_guard x = Some Chan_mtx" "f = set_chan g"
  | new where "call_guard x = Some Nick_mtx" "f = (\<lambda>s. s\<lparr>nickname := new\<rparr>)"
  | g where "call_guard x = Some User_command_mtx" "f = set_commands g"
  using assms by (cases x) (auto split: if_splits)

lemma send_fields:
  "chan_map (snd (sys_send e fd d s)) = chan_map s" "nickname (snd (sys_send e fd d s)) = nickname s"
  "user_command_map (snd (sys_send e fd d s)) = user_command_map s"
  by (simp_all add: sys_send_def log_io_def set_errno_if_def split: prod.split)

lemma send_set:
  "sys_send e fd d (set_chan f s) = (fst (sys_send e fd d s), set_chan f (snd (sys_send e fd d s)))"
  "sys_send e fd d (set_commands g s) = (fst (sys_send e fd d s), set_commands g (snd (sys_send e fd d s)))"
  "sys_send e fd d (s\<lparr>nickname := new\<rparr>) = (fst (sys_send e fd d s), (snd (sys_send e fd d s))\<lparr>nickname := new\<rparr>)"
  by (simp_all add: sys_send_def set_chan_def set_commands_def log_io_def set_errno_if_def split: prod.split)

interpretation srv_sections: guarded_sections "server_sections e" for e
proof (unfold_locales, simp_all)
  show "call_find x (snd (call_io e y l s)) = call_find x s" for x y l and s :: "('a, 'b) server_scheme"
    by (cases x) (auto simp: call_io_def send_fields split: option.split server_call.split)
  show "call_io e x l (f s) = (fst (call_io e x l s), f (snd (call_io e x l s)))"
    if "f \<in> set (call_writes y k)" for f x y l k and s :: "('a, 'b) server_scheme"
    using that
    by (cases rule: call_writes_cases)
      (simp_all add: call_io_def send_set split: option.split server_call.split, simp_all add: set_chan_def set_commands_def)
  show "call_find x (f s) = call_find x s"
    if "call_guard x \<noteq> call_guard y" "f \<in> set (call_writes y l)" for x y f l and s :: "('a, 'b) server_scheme"
    using that(2,1)
    by (cases rule: call_writes_cases) (cases x; simp add: set_chan_def set_commands_def)+
  show "f (g s) = g (f s)"
    if "call_guard x \<noteq> call_guard y" "f \<in> set (call_writes x k)" "g \<in> set (call_writes y l)"
    for x y f g k l and s :: "('a, 'b) server_scheme"
    using that(3)
  proof (cases rule: call_writes_cases)
    case (1 h)
    show ?thesis using that(2) 1 that(1) by (cases rule: call_writes_cases) (auto simp: set_chan_def set_commands_def)
  next
    case (2 new)
    show ?thesis using that(2) 2 that(1) by (cases rule: call_writes_cases) (auto simp: set_chan_def set_commands_def)
  next
    case (3 h)
    show ?thesis using that(2) 3 that(1) by (cases rule: call_writes_cases) (auto simp: set_chan_def set_commands_def)
  qed
  show "call_guard x = None \<Longrightarrow> call_writes x l = []" for x l by (cases x) simp_all
qed

section \<open>Serial runs are calls of the server's members\<close>

datatype call_value = NoValue | BoolValue bool | StateValue ServerState

definition drop_value :: "('s, unit) cpp \<Rightarrow> ('s, call_value) cpp" where
  "drop_value m = cseq m (cret NoValue)"

fun call_op :: "env \<Rightarrow> server_call \<Rightarrow> (('cb, 'a) server_scheme, call_value) cpp" where
  "call_op e (CallJoin c) = drop_value (JoinChannel e c)"
| "call_op e (CallUpdateJoin c) = drop_value (UpdateJoinChannel c)"
| "call_op e (CallPart c) = cbind (PartChannel e c) (\<lambda>b. cret (BoolValue b))"
| "call_op e (CallUpdatePart c) = drop_value (UpdatePartChannel c)"
| "call_op e (CallUpdateNickname old new) = drop_value (UpdateNickname old new)"
| "call_op e (CallAddCommands sp) = drop_value (AddPluginCommands sp)"
| "call_op e (CallRemoveCommands sp) = drop_value (RemovePluginCommands sp)"
| "call_op e (CallSendChannel c msg) = cbind (SendChannel e c msg) (\<lambda>b. cret (BoolValue b))"
| "call_op e (CallSetNickname d) = drop_value (SetNickname e d)"
| "call_op e CallGetState = cbind GetState (\<lambda>st. cret (StateValue st))"
| "call_op e (CallSetState st) = drop_value (SetState st)"

text \<open>What a call returns, from its local variables.\<close>

fun call_result :: "server_call \<Rightarrow> call_locals \<Rightarrow> call_value" where
  "call_result (CallPart c) l = BoolValue (it l \<noteq> None \<and> 0 \<le> sent l)"
| "call_result (CallSendChannel c msg) l = BoolValue (sent l \<noteq> 0)"
| "call_result CallGetState l = StateValue (seen l)"
| "call_result _ l = NoValue"

lemma fold_set_commands:
  "fold (\<lambda>f. f) (map (\<lambda>(k, v). set_commands (fm_insert k v)) sp) s =
     s\<lparr>user_command_map := fold (\<lambda>(k, v). fm_insert k v) sp (user_command_map s)\<rparr>"
  "fold (\<lambda>f. f) (map (\<lambda>k. set_commands (fm_erase k)) ks) s =
     s\<lparr>user_command_map := fold fm_erase ks (user_command_map s)\<rparr>"
  by (induction sp arbitrary: s) (auto simp: set_commands_def,
      induction ks arbitrary: s, auto simp: set_commands_def)

lemma call_op_section:
  "call_op e x s = (let (l, t) = run_section (server_sections e) x s in (Inr (call_result x l), t))"
proof (cases x)
  case (CallAddCommands sp)
  then show ?thesis
    by (simp add: run_section_def call_io_def drop_value_def AddPluginCommands_def fold_set_commands cseq_def cbind_apply)
next
  case (CallRemoveCommands sp)
  then show ?thesis
    by (simp add: run_section_def call_io_def drop_value_def RemovePluginCommands_def fold_set_commands cseq_def cbind_apply)
qed (auto simp: run_section_def call_io_def drop_value_def channel_op_defs UpdateNickname_def SendChannel_def
    SetNickname_def GetState_def SetState_def irc_send_defs cseq_def cbind_apply set_chan_def split: prod.splits option.splits)

text \<open>Reading the nickname through the reference that \<open>GetNickname\<close> has returned holds no mutex and sees the changes of
  a section under \<open>nick_mtx\<close> while they are made, so no contract of guarded sections covers it.\<close>

definition with_reference :: "env \<Rightarrow> (server_call option, call_locals, ('cb, 'a) server_scheme) section_ops" where
  "with_reference e =
     \<lparr>guard = (\<lambda>x. case x of None \<Rightarrow> None | Some y \<Rightarrow> call_guard y),
      find_step = (\<lambda>x s. case x of None \<Rightarrow> \<lparr>it = None, cur = nickname s, sent = 0, seen = kSetup\<rparr> | Some y \<Rightarrow> call_find y s),
      io_step = (\<lambda>x l s. case x of None \<Rightarrow> (l, s) | Some y \<Rightarrow> call_io e y l s),
      write_steps = (\<lambda>x l. case x of None \<Rightarrow> [] | Some y \<Rightarrow> call_writes y l)\<rparr>"

lemma reference_unguarded: "\<not> guarded_sections (with_reference e :: (_, _, ('cb, 'a) server_scheme) section_ops)"
proof
  let ?S = "with_reference e :: (_, _, ('cb, 'a) server_scheme) section_ops"
  let ?x = "CallUpdateNickname [] ''bot''" and ?f = "\<lambda>s :: ('cb, 'a) server_scheme. s\<lparr>nickname := ''bot''\<rparr>"
  let ?l = "\<lparr>it = None, cur = [], sent = 0, seen = kSetup\<rparr>"
  fix s :: "('cb, 'a) server_scheme"
  assume "guarded_sections ?S"
  from guarded_sections.write_find [OF this, of None "Some ?x" ?f ?l "s\<lparr>nickname := []\<rparr>"] show False
    by (simp add: with_reference_def)
qed

text \<open>A serial run of calls, with the values they returned.\<close>

fun serial :: "env \<Rightarrow> (nat \<times> server_call \<times> call_locals) list \<Rightarrow> ('cb, 'a) server_scheme \<Rightarrow>
    ('cb, 'a) server_scheme \<Rightarrow> bool" where
  "serial e [] s u \<longleftrightarrow> u = s"
| "serial e ((i, x, l) # h) s u \<longleftrightarrow> fst (call_op e x s) = Inr (call_result x l) \<and> serial e h (snd (call_op e x s)) u"

lemma explains_serial: "explains (server_sections e) s h u \<Longrightarrow> serial e h s u"
proof (induction h arbitrary: s)
  case (Cons y h)
  obtain i x l where "y = (i, x, l)" by (cases y)
  then show ?case using Cons by (auto simp: call_op_section split: prod.splits)
qed simp

lemma hist_grows: "(section_step S)\<^sup>*\<^sup>* c d \<Longrightarrow> prefix (hist c) (hist d)"
proof (induction rule: rtranclp_induct)
  case (step d f)
  from step(2) have "prefix (hist d) (hist f)" by cases simp_all
  then show ?case using step(3) by (rule prefix_order.trans [rotated])
qed simp

section \<open>Schedules\<close>

text \<open>The next step of thread \<open>i\<close>, if it has one and can take it.\<close>

definition advance :: "('o, 'l, 's) section_ops \<Rightarrow> nat \<Rightarrow> ('o, 'l, 's) conc \<Rightarrow> ('o, 'l, 's) conc" where
  "advance S i c =
     (if i < length (pcs c) then
        (case pcs c ! i of
           Idle \<Rightarrow>
             (case scripts c ! i of
                [] \<Rightarrow> c
              | x # xs \<Rightarrow>
                  if (case guard S x of None \<Rightarrow> True | Some m \<Rightarrow> list_all (\<lambda>p. \<not> holds S m p) (pcs c))
                  then c\<lparr>pcs := (pcs c)[i := Begun x], scripts := (scripts c)[i := xs]\<rparr> else c)
         | Begun x \<Rightarrow> c\<lparr>pcs := (pcs c)[i := Found x (find_step S x (shared c))]\<rparr>
         | Found x l \<Rightarrow>
             (let (l', t) = io_step S x l (shared c) in
              c\<lparr>shared := t, pcs := (pcs c)[i := Writing x l' (write_steps S x l')], hist := hist c @ [(i, x, l')]\<rparr>)
         | Writing x l [] \<Rightarrow> c\<lparr>pcs := (pcs c)[i := Idle]\<rparr>
         | Writing x l (f # fs) \<Rightarrow> c\<lparr>shared := f (shared c), pcs := (pcs c)[i := Writing x l fs]\<rparr>)
      else c)"

lemma advance_step: "advance S i c = c \<or> section_step S c (advance S i c)"
  by (auto simp: advance_def intro: section_step.intros split: section_pc.split list.split option.split prod.split)

lemma schedule_reachable:
  "reachable init (section_step S) c \<Longrightarrow> reachable init (section_step S) (fold (advance S) is c)"
proof (induction "is" arbitrary: c)
  case (Cons i "is")
  then show ?case using advance_step [of S i c] by (auto intro: reach_step)
qed simp

section \<open>Properties\<close>

text \<open>C5. The members of a server that change its tables, its nickname or its state, or send (\<open>JoinChannel\<close>,
  \<open>UpdateJoinChannel\<close>, \<open>PartChannel\<close>, \<open>UpdatePartChannel\<close>, \<open>UpdateNickname\<close>, \<open>SetNickname\<close>, \<open>SendChannel\<close>,
  \<open>AddPluginCommands\<close>, \<open>RemovePluginCommands\<close>, \<open>SetState\<close>) and \<open>GetState\<close> are linearizable; not among them are \<open>GetNickname\<close>,
  whose result is read without the mutex, and \<open>DumpInfo\<close>. However the accesses of any number of threads that
  call them interleave, the calls so far have the effect and the results of calling them one after
  the other, in an order that keeps the order of every thread. A call enters this order between its
  begin and its end and the order only grows, so a call that has ended comes before every call that
  begins later; and when no call is in progress, the state is the one after the serial calls.\<close>

theorem server_calls_linearizable:
  assumes "reachable (conc_start s scs) (section_step (server_sections e)) c"
  shows "serial e (hist c) s (view c) \<and> (list_all (\<lambda>p. p = Idle) (pcs c) \<longrightarrow> view c = shared c) \<and>
    (\<forall>i < length scs. done_by i (hist c) @ inflight (pcs c ! i) @ scripts c ! i = scs ! i) \<and>
    (\<forall>d. (section_step (server_sections e))\<^sup>*\<^sup>* c d \<longrightarrow> prefix (hist c) (hist d))"
  using srv_sections.explained [OF assms] explains_serial [of e s "hist c" "view c"] hist_grows [of "server_sections e" c]
  by simp

text \<open>Two threads: one joins a channel, the other applies the confirmation and a change of nickname; the
  first is interrupted by the nickname, while the confirmation has to wait for the mutex.\<close>

definition conc0 :: "(server_call, call_locals, nat server) conc" where
  "conc0 = \<lparr>shared = server0, pcs = [Idle, Idle],
     scripts = [[CallJoin ''#c''], [CallUpdateNickname ''kbot'' ''bot'', CallUpdateJoin ''#c'']], hist = []\<rparr>"

theorem server_calls_linearizable_witness:
  "\<exists>c. c = fold (advance (server_sections calm_env)) [0, 0, 1, 1, 0, 1, 1, 1, 1, 0, 0, 1, 1, 1, 1, 1] conc0 \<and>
     map (fst \<circ> snd) (hist c) = [CallJoin ''#c'', CallUpdateNickname ''kbot'' ''bot'', CallUpdateJoin ''#c''] \<and>
     serial calm_env (hist c) server0 (shared c) \<and> chan_map (shared c) ''#c'' = Some Joined"
proof -
  let ?c = "fold (advance (server_sections calm_env)) [0, 0, 1, 1, 0, 1, 1, 1, 1, 0, 0, 1, 1, 1, 1, 1] conc0"
  have "reachable (conc_start server0 (scripts conc0)) (section_step (server_sections calm_env)) conc0"
    by (rule reach_init) (simp add: conc_start_def conc0_def numeral_2_eq_2)
  then have r: "reachable (conc_start server0 (scripts conc0)) (section_step (server_sections calm_env)) ?c"
    by (rule schedule_reachable)
  have c: "list_all (\<lambda>p. p = Idle) (pcs ?c)" "chan_map (shared ?c) ''#c'' = Some Joined"
    "map (fst \<circ> snd) (hist ?c) = [CallJoin ''#c'', CallUpdateNickname ''kbot'' ''bot'', CallUpdateJoin ''#c'']"
    by (simp_all add: advance_def conc0_def holds_def call_io_def calm_env_def server0_def sys_send_def log_io_def
        set_errno_if_def set_chan_def)
  show ?thesis using server_calls_linearizable [OF r] c by auto
qed

end
