(* ===== verification/Process.thy ===== *)
theory Process
  imports Signals Threads
begin

text \<open>
  The process as a whole: the main thread of \<open>src/src/main.cc\<close> and any number of server threads, which share
  the set of threads (\<open>Threads\<close>) and the counter of signal numbers (\<open>Signals\<close>). A server thread logs in or
  fails to; if it logged in it runs \<open>WorkerRun\<close>, which takes a signal number at its beginning and gives one back
  at its end; then it removes itself from the set, detached, and exits. What a session does in between is the subject of
  \<open>Session\<close>; here only its end counts. The steps of all threads interleave.
\<close>

section \<open>State and steps\<close>

text \<open>Where a server thread is in its function: before the result of the login, in \<open>WorkerRun\<close>, past it.\<close>

datatype stage = Starting | Working | Leaving

record process =
  thr_part :: threads
  sig_part :: sigs
  stage_of :: "nat \<Rightarrow> stage"

definition on_threads :: "threads \<Rightarrow> process \<Rightarrow> process" where
  "on_threads th s = s\<lparr>thr_part := th\<rparr>"

definition on_signals :: "sigs \<Rightarrow> process \<Rightarrow> process" where
  "on_signals sg s = s\<lparr>sig_part := sg\<rparr>"

definition to_stage :: "nat \<Rightarrow> stage \<Rightarrow> process \<Rightarrow> process" where
  "to_stage t g s = s\<lparr>stage_of := (stage_of s)(t := g)\<rparr>"

definition running :: "process \<Rightarrow> nat \<Rightarrow> stage \<Rightarrow> bool" where
  "running s t g \<longleftrightarrow> phase_of (thr_part s) t = Running \<and> stage_of s t = g"

text \<open>\<open>T\<close> are the threads that may be launched.\<close>

inductive process_step :: "nat set \<Rightarrow> bool \<Rightarrow> process \<Rightarrow> process \<Rightarrow> bool" for T nd where
  p_launch: "main_at (thr_part s) = Launching \<Longrightarrow> t \<in> T \<Longrightarrow> phase_of (thr_part s) t = NotStarted \<Longrightarrow>
     process_step T nd s (on_threads (start_thread t (thr_part s)) s)"
| p_insert: "main_at (thr_part s) = Inserting t \<Longrightarrow> process_step T nd s (on_threads (finish_launch t (thr_part s)) s)"
| p_wait: "main_at (thr_part s) = Launching \<Longrightarrow> process_step T nd s (on_threads ((thr_part s)\<lparr>main_at := Testing\<rparr>) s)"
| p_test: "main_at (thr_part s) = Testing \<Longrightarrow> process_step T nd s (on_threads (WaitAll_test (thr_part s)) s)"
| p_login: "t \<in> T \<Longrightarrow> running s t Starting \<Longrightarrow> process_step T nd s (to_stage t Working s)"
| p_login_failed: "t \<in> T \<Longrightarrow> running s t Starting \<Longrightarrow> process_step T nd s (to_stage t Leaving s)"
| p_load: "t \<in> T \<Longrightarrow> running s t Working \<Longrightarrow> sig_pc_of (sig_part s) t = Outside \<Longrightarrow>
     process_step T nd s (on_signals (sig_load t (sig_part s)) s)"
| p_exchange: "t \<in> T \<Longrightarrow> running s t Working \<Longrightarrow> sig_pc_of (sig_part s) t = Loaded cur \<Longrightarrow>
     process_step T nd s (on_signals (sig_exchange t cur (sig_part s)) s)"
| p_teardown: "t \<in> T \<Longrightarrow> running s t Working \<Longrightarrow>
     sig_pc_of (sig_part s) t = Holding i \<or> sig_pc_of (sig_part s) t = Skipped \<Longrightarrow>
     process_step T nd s (to_stage t Leaving (on_signals (sig_teardown t (sig_part s)) s))"
| p_cleanup: "t \<in> T \<Longrightarrow> running s t Leaving \<Longrightarrow>
     process_step T nd s (on_threads (snd (ThreadCleanupSelf nd t (thr_part s))) s)"
| p_exit: "t \<in> T \<Longrightarrow> phase_of (thr_part s) t = Detached \<Longrightarrow>
     process_step T nd s (on_threads (thread_exit t (thr_part s)) s)"

text \<open>A condition variable may wake up the main thread without a reason.\<close>

inductive process_any :: "nat set \<Rightarrow> bool \<Rightarrow> process \<Rightarrow> process \<Rightarrow> bool" for T nd where
  any_step: "process_step T nd s s' \<Longrightarrow> process_any T nd s s'"
| any_spurious: "main_at (thr_part s) = Asleep \<Longrightarrow>
     process_any T nd s (on_threads ((thr_part s)\<lparr>main_at := Testing\<rparr>) s)"

definition process_init :: "process \<Rightarrow> bool" where
  "process_init s \<longleftrightarrow> threads_init (thr_part s) \<and> sig_init (sig_part s) \<and> (\<forall>t. stage_of s t = Starting)"

lemmas process_defs = on_threads_def on_signals_def to_stage_def running_def thread_op_defs
  sig_load_def sig_exchange_def sig_teardown_def

section \<open>Invariants\<close>

text \<open>Each part of the process takes steps of its own system only.\<close>

lemma process_threads:
  "process_any T nd s s' \<Longrightarrow> thr_part s' = thr_part s \<or> thread_step nd (thr_part s) (thr_part s')"
  by (auto elim!: process_any.cases process_step.cases simp: on_threads_def on_signals_def to_stage_def running_def
      intro: thread_step.intros)

lemma process_reach_threads:
  "reachable process_init (process_any T nd) s \<Longrightarrow> reachable threads_init (thread_step nd) (thr_part s)"
proof (induction rule: reachable.induct)
  case (reach_step s s')
  then show ?case using process_threads [OF reach_step.hyps(2)] by (metis reachable.reach_step)
qed (simp add: process_init_def reachable.reach_init)

text \<open>Only threads of \<open>T\<close> run; a thread is in the signal protocol exactly while it works.\<close>

definition stages_ok :: "nat set \<Rightarrow> process \<Rightarrow> bool" where
  "stages_ok T s \<longleftrightarrow> (\<forall>t. t \<notin> T \<longrightarrow> phase_of (thr_part s) t = NotStarted) \<and>
     (\<forall>t. stage_of s t = Starting \<longrightarrow> sig_pc_of (sig_part s) t = Outside) \<and>
     (\<forall>t. stage_of s t = Working \<longrightarrow> sig_pc_of (sig_part s) t \<noteq> Gone \<and> phase_of (thr_part s) t = Running) \<and>
     (\<forall>t. stage_of s t = Leaving \<longrightarrow> sig_pc_of (sig_part s) t = Gone \<or> sig_pc_of (sig_part s) t = Outside) \<and>
     (\<forall>t. phase_of (thr_part s) t = NotStarted \<longrightarrow> stage_of s t = Starting)"

lemma stages_step: "stages_ok T s \<Longrightarrow> process_any T nd s s' \<Longrightarrow> stages_ok T s'"
  unfolding stages_ok_def
  by (erule process_any.cases, erule process_step.cases)
    (auto simp: process_defs Let_def split: if_splits)

text \<open>Who holds a signal number, and that the counter counts them.\<close>

definition holders :: "sigs \<Rightarrow> nat set" where
  "holders sg = {t. \<exists>i. sig_pc_of sg t = Holding i}"

definition counted :: "sigs \<Rightarrow> bool" where
  "counted sg \<longleftrightarrow> sig_counter sg = SIGRTMIN + int (card (holders sg)) \<and> (\<forall>t. sig_pc_of sg t \<noteq> Skipped)"

lemma holders_in: "stages_ok T s \<Longrightarrow> holders (sig_part s) \<subseteq> T"
proof
  fix t assume ok: "stages_ok T s" and "t \<in> holders (sig_part s)"
  then obtain i where "sig_pc_of (sig_part s) t = Holding i" by (auto simp: holders_def)
  then have "stage_of s t = Working" using ok by (cases "stage_of s t") (auto simp: stages_ok_def)
  then show "t \<in> T" using ok by (auto simp: stages_ok_def)
qed

lemma holders_pc:
  "holders (sg\<lparr>sig_counter := n, sig_pc_of := (sig_pc_of sg)(t := p)\<rparr>) =
     (case p of Holding i \<Rightarrow> insert t (holders sg) | _ \<Rightarrow> holders sg - {t})"
  "holders (sg\<lparr>sig_pc_of := (sig_pc_of sg)(t := p)\<rparr>) =
     (case p of Holding i \<Rightarrow> insert t (holders sg) | _ \<Rightarrow> holders sg - {t})"
  by (auto simp: holders_def split: sig_pc.split)

lemma counted_load:
  assumes "counted sg" "holders sg \<subseteq> T" "finite T" "int (card T) \<le> SIGRTMAX - SIGRTMIN"
    and "t \<in> T" "sig_pc_of sg t = Outside"
  shows "counted (sig_load t sg)"
proof -
  have "t \<notin> holders sg" using assms(6) by (simp add: holders_def)
  then have "card (holders sg) < card T" using assms(2,3,5) by (metis psubset_card_mono psubsetI)
  then have "sig_counter sg \<noteq> SIGRTMAX" using assms(1,4) by (simp add: counted_def)
  then show ?thesis using assms(1) \<open>t \<notin> holders sg\<close>
    by (auto simp: sig_load_def Let_def counted_def holders_pc)
qed

lemma counted_exchange:
  assumes "counted sg" "finite (holders sg)" "sig_pc_of sg t = Loaded cur"
  shows "counted (sig_exchange t cur sg)"
proof -
  have "t \<notin> holders sg" using assms(3) by (simp add: holders_def)
  then show ?thesis using assms(1,2) by (auto simp: sig_exchange_def counted_def holders_pc)
qed

lemma counted_teardown:
  assumes "counted sg" "finite (holders sg)" "sig_pc_of sg t = Holding i \<or> sig_pc_of sg t = Skipped"
  shows "counted (sig_teardown t sg)"
proof -
  have "t \<in> holders sg" using assms(1,3) by (auto simp: holders_def counted_def)
  then have "card (holders sg) = Suc (card (holders sg - {t}))" using assms(2) by (metis card.remove)
  then show ?thesis using assms(1) by (auto simp: sig_teardown_def counted_def holders_pc)
qed

lemma counted_step:
  assumes "finite T" "int (card T) \<le> SIGRTMAX - SIGRTMIN"
  shows "counted (sig_part s) \<Longrightarrow> stages_ok T s \<Longrightarrow> process_any T nd s s' \<Longrightarrow> counted (sig_part s')"
proof -
  assume c: "counted (sig_part s)" and ok: "stages_ok T s" and st: "process_any T nd s s'"
  note h = holders_in [OF ok]
  then have f: "finite (holders (sig_part s))" using assms(1) finite_subset by blast
  from st show ?thesis
  proof cases
    case any_step
    then show ?thesis
      by cases (auto simp: on_threads_def on_signals_def to_stage_def c
          intro: counted_load [OF c h assms] counted_exchange [OF c f] counted_teardown [OF c f])
  qed (simp add: on_threads_def c)
qed

text \<open>There are as many numbers as values between the bounds of the real-time range.\<close>

definition few :: "nat set \<Rightarrow> bool" where
  "few T \<longleftrightarrow> finite T \<and> int (card T) \<le> SIGRTMAX - SIGRTMIN"

definition process_inv :: "nat set \<Rightarrow> process \<Rightarrow> bool" where
  "process_inv T s \<longleftrightarrow> stages_ok T s \<and> (few T \<longrightarrow> counted (sig_part s))"

lemma process_init_inv: "process_init s \<Longrightarrow> process_inv T s"
  by (auto simp: process_init_def threads_init_def sig_init_def stages_ok_def process_inv_def counted_def holders_def)

lemma process_step_inv: "process_inv T s \<Longrightarrow> process_any T nd s s' \<Longrightarrow> process_inv T s'"
  using stages_step counted_step by (auto simp: process_inv_def few_def)

interpretation proc: invariant_system process_init "process_any T nd" "process_inv T" for T nd
  by unfold_locales (auto intro: process_init_inv process_step_inv)

section \<open>Every run ends\<close>

text \<open>
  What is left to do: the stages of every thread; among states with the same stages, the turns of the
  compare-and-swap loops, where a value that is out of date costs one more turn; then the main thread.
  Taking or giving back a number makes loaded values out of date, but it moves a thread on.
\<close>

fun stage_left :: "thread_phase \<Rightarrow> stage \<Rightarrow> sig_pc \<Rightarrow> nat" where
  "stage_left NotStarted g p = 6"
| "stage_left Running Starting p = 5"
| "stage_left Running Working Outside = 4"
| "stage_left Running Working (Loaded i) = 4"
| "stage_left Running Working p = 3"
| "stage_left Running Leaving p = 2"
| "stage_left Detached g p = 1"
| "stage_left Finished g p = 0"
| "stage_left Crashed g p = 0"

lemma stage_left_running: "stage_left Running g p < 6"
  by (cases g; cases p) simp_all

fun turns_left :: "int \<Rightarrow> sig_pc \<Rightarrow> nat" where
  "turns_left n Outside = 1"
| "turns_left n (Loaded i) = (if i = n then 0 else 2)"
| "turns_left n p = 0"

fun main_left :: "main_pc \<Rightarrow> nat" where
  "main_left (Inserting t) = 4"
| "main_left Launching = 3"
| "main_left Testing = 2"
| "main_left Asleep = 1"
| "main_left Returned = 0"

definition work_left :: "nat set \<Rightarrow> process \<Rightarrow> nat" where
  "work_left T s = (\<Sum>t \<in> T. stage_left (phase_of (thr_part s) t) (stage_of s t) (sig_pc_of (sig_part s) t))"

definition spins_left :: "nat set \<Rightarrow> process \<Rightarrow> nat" where
  "spins_left T s = (\<Sum>t \<in> T. turns_left (sig_counter (sig_part s)) (sig_pc_of (sig_part s) t))"

definition progress :: "nat set \<Rightarrow> (process \<times> process) set" where
  "progress T = measures [work_left T, spins_left T, \<lambda>s. main_left (main_at (thr_part s))]"

lemma sum_one_less:
  fixes f g :: "'a \<Rightarrow> nat"
  assumes "finite T" "t \<in> T" "f t < g t" "\<And>u. u \<in> T \<Longrightarrow> u \<noteq> t \<Longrightarrow> f u = g u"
  shows "sum f T < sum g T"
proof -
  have "sum f T = f t + sum f (T - {t})" "sum g T = g t + sum g (T - {t})" using assms(1,2) by (simp_all add: sum.remove)
  moreover have "sum f (T - {t}) = sum g (T - {t})" by (rule sum.cong) (use assms(4) in auto)
  ultimately show ?thesis using assms(3) by simp
qed

text \<open>A step that moves thread \<open>t\<close> on, and one that only turns its loop.\<close>

lemma work_less:
  assumes "finite T" "t \<in> T"
    and "stage_left (phase_of (thr_part s') t) (stage_of s' t) (sig_pc_of (sig_part s') t) <
      stage_left (phase_of (thr_part s) t) (stage_of s t) (sig_pc_of (sig_part s) t)"
    and "\<And>u. u \<noteq> t \<Longrightarrow> phase_of (thr_part s') u = phase_of (thr_part s) u \<and> stage_of s' u = stage_of s u \<and>
      sig_pc_of (sig_part s') u = sig_pc_of (sig_part s) u"
  shows "(s', s) \<in> progress T"
proof -
  have "work_left T s' < work_left T s"
    unfolding work_left_def using assms by (intro sum_one_less) auto
  then show ?thesis by (simp add: progress_def)
qed

lemma spins_less:
  assumes "finite T" "t \<in> T" "thr_part s' = thr_part s" "stage_of s' = stage_of s"
    and "sig_counter (sig_part s') = sig_counter (sig_part s)" "stage_of s t = Working" "phase_of (thr_part s) t = Running"
    and "stage_left Running Working (sig_pc_of (sig_part s') t) = stage_left Running Working (sig_pc_of (sig_part s) t)"
    and "turns_left (sig_counter (sig_part s)) (sig_pc_of (sig_part s') t) <
      turns_left (sig_counter (sig_part s)) (sig_pc_of (sig_part s) t)"
    and "\<And>u. u \<noteq> t \<Longrightarrow> sig_pc_of (sig_part s') u = sig_pc_of (sig_part s) u"
  shows "(s', s) \<in> progress T"
proof -
  have "spins_left T s' < spins_left T s"
    unfolding spins_left_def using assms by (intro sum_one_less) auto
  moreover have "work_left T s' = work_left T s"
    unfolding work_left_def by (rule sum.cong) (use assms in \<open>auto, metis\<close>)
  ultimately show ?thesis by (simp add: progress_def)
qed

lemma main_less:
  assumes "phase_of (thr_part s') = phase_of (thr_part s)" "stage_of s' = stage_of s" "sig_part s' = sig_part s"
    and "main_left (main_at (thr_part s')) < main_left (main_at (thr_part s))"
  shows "(s', s) \<in> progress T"
  using assms by (simp add: progress_def work_left_def spins_left_def)

lemma process_progress:
  assumes "finite T" "process_step T nd s s'"
  shows "(s', s) \<in> progress T"
  using assms(2)
proof cases
  case (p_launch t)
  then show ?thesis by (intro work_less [OF assms(1), of t]) (auto simp: process_defs stage_left_running)
next
  case (p_load t)
  show ?thesis
  proof (cases "sig_counter (sig_part s) = SIGRTMAX")
    case True
    then show ?thesis using p_load by (intro work_less [OF assms(1), of t]) (auto simp: process_defs)
  next
    case False
    then show ?thesis using p_load by (intro spins_less [OF assms(1), of t]) (auto simp: process_defs)
  qed
next
  case (p_exchange t cur)
  show ?thesis
  proof (cases "sig_counter (sig_part s) = cur")
    case True
    then show ?thesis using p_exchange by (intro work_less [OF assms(1), of t]) (auto simp: process_defs)
  next
    case False
    then show ?thesis using p_exchange by (intro spins_less [OF assms(1), of t]) (auto simp: process_defs)
  qed
next
  case (p_login t)
  then show ?thesis by (cases "sig_pc_of (sig_part s) t")
    (intro work_less [OF assms(1), of t]; auto simp: process_defs)+
next
  case (p_login_failed t)
  then show ?thesis by (intro work_less [OF assms(1), of t]) (auto simp: process_defs)
next
  case (p_teardown t i)
  then show ?thesis by (intro work_less [OF assms(1), of t]) (auto simp: process_defs)
next
  case (p_cleanup t)
  then show ?thesis by (intro work_less [OF assms(1), of t]) (auto simp: process_defs Let_def)
next
  case (p_exit t)
  then show ?thesis by (intro work_less [OF assms(1), of t]) (auto simp: process_defs)
qed (intro main_less; simp add: process_defs)+

text \<open>A process that cannot go on is done, unless a thread has crashed.\<close>

lemma stuck_done:
  assumes "reachable process_init (process_any T nd) s" "\<nexists>s'. process_step T nd s s'"
    and "\<And>t. phase_of (thr_part s) t \<noteq> Crashed"
  shows "main_at (thr_part s) = Returned \<and> (\<forall>t. phase_of (thr_part s) t = NotStarted \<or> phase_of (thr_part s) t = Finished)"
proof -
  have ok: "stages_ok T s" using proc.inv_reachable [OF assms(1)] by (simp add: process_inv_def)
  have th: "threads_inv (thr_part s)" using thr.inv_reachable [OF process_reach_threads [OF assms(1)]] .
  have nr: "phase_of (thr_part s) t \<noteq> Running" for t
  proof
    assume r: "phase_of (thr_part s) t = Running"
    then have "t \<in> T" using ok by (auto simp: stages_ok_def)
    then have "\<exists>s'. process_step T nd s s'" using r ok
        p_login [of t T s nd] p_load [of t T s nd] p_exchange [of t T s _ nd] p_teardown [of t T s _ nd] p_cleanup [of t T s nd]
      unfolding running_def stages_ok_def by (cases "stage_of s t"; cases "sig_pc_of (sig_part s) t") blast+
    then show False using assms(2) by blast
  qed
  have "phase_of (thr_part s) t \<noteq> Detached" for t
    using assms(2) ok p_exit [of t T s nd] unfolding stages_ok_def by (metis thread_phase.distinct(3))
  note nd = nr this
  then have "thread_set (thr_part s) = {}" using th assms(3) by (auto simp: threads_inv_def)
  then have "main_at (thr_part s) = Returned"
    using assms(2) th p_wait [of s T nd] p_test [of s T nd] p_insert [of s _ T nd]
    unfolding threads_inv_def by (cases "main_at (thr_part s)") blast+
  then show ?thesis using nd assms(3) by (metis thread_phase.exhaust)
qed

section \<open>A run\<close>

definition process0 :: process where
  "process0 = \<lparr>thr_part = threads0, sig_part = sigs0, stage_of = (\<lambda>_. Starting)\<rparr>"

text \<open>One thread is launched, logs in, takes a number, gives it back and leaves, while the main thread sleeps.\<close>

definition process1 :: process where
  "process1 = on_threads (WaitAll_test (WaitAll_test ((finish_launch 7 (start_thread 7 threads0))\<lparr>main_at := Testing\<rparr>)))
     (on_signals (setup_alone 7 sigs0) (to_stage 7 Working process0))"

lemma reach_process1: "reachable process_init (process_any {7} True) process1 \<and> sig_counter (sig_part process1) = 35"
proof -
  let ?p = "process_any {7} True"
  let ?a = "on_threads (start_thread 7 threads0) process0"
  let ?b = "on_threads (finish_launch 7 (thr_part ?a)) ?a"
  let ?c = "to_stage 7 Working ?b"
  let ?d = "on_signals (sig_load 7 (sig_part ?c)) ?c"
  let ?e = "on_signals (sig_exchange 7 SIGRTMIN (sig_part ?d)) ?d"
  let ?f = "on_threads ((thr_part ?e)\<lparr>main_at := Testing\<rparr>) ?e"
  let ?g = "on_threads (WaitAll_test (thr_part ?f)) ?f"
  note defs = process_defs process0_def threads0_def sigs0_def SIGRTMIN_def SIGRTMAX_def
  have "reachable process_init ?p process0"
    by (rule reach_init) (simp add: process_init_def process0_def threads_init_def sig_init_def threads0_def sigs0_def)
  moreover have "?p process0 ?a" using p_launch [of process0 7 "{7}" True] by (simp add: any_step process0_def threads0_def)
  moreover have "?p ?a ?b" by (intro any_step p_insert) (simp add: defs)
  moreover have "?p ?b ?c" by (intro any_step p_login) (simp_all add: defs)
  moreover have "?p ?c ?d" by (intro any_step p_load) (simp_all add: defs)
  moreover have "?p ?d ?e" by (intro any_step p_exchange) (simp_all add: defs)
  moreover have "?p ?e ?f" by (intro any_step p_wait) (simp add: defs)
  moreover have "?p ?f ?g" by (intro any_step p_test) (simp add: defs)
  ultimately have "reachable process_init ?p ?g" by (meson reachable.reach_step)
  moreover have "?g = process1" by (simp add: process1_def setup_alone_def defs)
  ultimately show ?thesis by (simp add: process1_def setup_alone_def defs)
qed

section \<open>Properties\<close>

text \<open>C8. The process comes to an end: if every session ends, whatever the schedule, any finite number of
  server threads and the main thread can take finitely many steps only, up to spurious wakeups of the
  condition variable; in particular the compare-and-swap loops do not keep each other busy for
  ever. No wakeup is lost: when nothing can go on and no thread has crashed, \<open>WaitAll\<close> has returned
  and every launched thread has finished.\<close>

theorem process_completes:
  assumes "finite T"
  shows "wf {(s', s). process_step T nd s s'} \<and>
    (\<forall>s. reachable process_init (process_any T nd) s \<longrightarrow> (\<nexists>s'. process_step T nd s s') \<longrightarrow>
       (\<forall>t. phase_of (thr_part s) t \<noteq> Crashed) \<longrightarrow>
       main_at (thr_part s) = Returned \<and>
       (\<forall>t. phase_of (thr_part s) t = NotStarted \<or> phase_of (thr_part s) t = Finished))"
proof
  have "wf (progress T)" by (simp add: progress_def)
  then show "wf {(s', s). process_step T nd s s'}"
    by (rule wf_subset) (auto intro: process_progress [OF assms])
qed (use stuck_done in blast)

theorem process_completes_witness:
  "wf {(s', s). process_step {7} True s s'} \<and> (\<exists>s'. process_step {7} True process1 s') \<and> main_at (thr_part process1) = Asleep"
proof -
  have a: "main_at (thr_part process1) = Asleep" "phase_of (thr_part process1) t \<noteq> Crashed" for t
    by (simp_all add: process1_def process_defs threads0_def)
  have "\<exists>s'. process_step {7} True process1 s'"
    using process_completes [of "{7}" True] reach_process1 a by (metis finite.intros main_pc.distinct(19))
  then show ?thesis using process_completes [of "{7}" True] a(1) by simp
qed

text \<open>C26. The counter of signal numbers is balanced: as long as no more threads are launched than there are
  numbers, under every interleaving with teardowns it exceeds \<open>SIGRTMIN\<close> by the number of threads that
  hold a number, no thread goes without one, and it is back at \<open>SIGRTMIN\<close> when \<open>WaitAll\<close> has returned.\<close>

theorem signal_counter_balanced:
  assumes "reachable process_init (process_any T nd) s" "few T"
  shows "sig_counter (sig_part s) = SIGRTMIN + int (card (holders (sig_part s))) \<and>
    (\<forall>t. sig_pc_of (sig_part s) t \<noteq> Skipped) \<and>
    (main_at (thr_part s) = Returned \<longrightarrow> sig_counter (sig_part s) = SIGRTMIN)"
proof -
  have inv: "stages_ok T s" "counted (sig_part s)" using proc.inv_reachable [OF assms(1)] assms(2) by (simp_all add: process_inv_def)
  have "holders (sig_part s) = {}" if "main_at (thr_part s) = Returned"
  proof -
    have "phase_of (thr_part s) t \<noteq> Running" for t
      using thr.inv_reachable [OF process_reach_threads [OF assms(1)]] that by (auto simp: threads_inv_def)
    then have "stage_of s t \<noteq> Working" for t using inv(1) by (auto simp: stages_ok_def)
    then have "sig_pc_of (sig_part s) t = Outside \<or> sig_pc_of (sig_part s) t = Gone" for t
      using inv(1) by (cases "stage_of s t") (auto simp: stages_ok_def)
    then show ?thesis unfolding holders_def by (auto, metis sig_pc.distinct)
  qed
  then show ?thesis using inv(2) by (auto simp: counted_def)
qed

theorem signal_counter_balanced_witness:
  "sig_counter (sig_part process1) = 35 \<and> card (holders (sig_part process1)) = 1"
proof -
  have "few {7}" by (simp add: few_def SIGRTMIN_def SIGRTMAX_def)
  from signal_counter_balanced [OF conjunct1 [OF reach_process1] this] reach_process1 show ?thesis
    by (simp add: SIGRTMIN_def)
qed

end
