(* ===== verification/Reading.thy ===== *)
theory Reading
  imports Worker_Invariant
begin

text \<open>
  The byte stream and the lines that a worker processes. A worker reads in bursts: each call of its
  callback is one \<open>RecvMsg\<close>, whose result is cut into lines, and the lines go to \<open>ProcessMessageLine\<close> one
  after the other. The theory follows the lines through all rounds of the event loop and compares
  them with the lines of the whole stream. While every burst ends with a line they are the same;
  when the stream pauses inside a line, what follows the pause is taken for a line of its own.
\<close>

section \<open>What was received and what was processed\<close>

text \<open>The bytes that a trace has delivered on a descriptor.\<close>

fun received :: "int \<Rightarrow> trace \<Rightarrow> string" where
  "received fd [] = []"
| "received fd (EvRecv fd' r # tr) = (if fd' = fd then recv_data r @ received fd tr else received fd tr)"
| "received fd (_ # tr) = received fd tr"

lemma received_append [simp]: "received fd (xs @ ys) = received fd xs @ received fd ys"
  by (induction fd xs rule: received.induct) simp_all

lemma received_burst [simp]: "received fd (map (EvRecv fd) rs) = concat (map recv_data rs)"
  by (induction rs) simp_all

text \<open>How a worker comes from one state to another by processing lines: in between it only waits and
  receives.\<close>

inductive processed :: "env \<Rightarrow> 'a wstate plugin_code \<Rightarrow> 'a wstate \<Rightarrow> string list \<Rightarrow> 'a wstate \<Rightarrow> bool" for e P s where
  start: "processed e P s [] s"
| errno: "processed e P s ls t \<Longrightarrow> processed e P s ls (t\<lparr>w_errno := en\<rparr>)"
| waited: "processed e P s ls t \<Longrightarrow> processed e P s ls (log_io (EvEpollWait ep n timeout w) t)"
| receive: "processed e P s ls t \<Longrightarrow> processed e P s ls (log_io (EvRecv fd r) t)"
| line: "processed e P s ls t \<Longrightarrow> ProcessMessageLine e P l t = (Inr b, u) \<Longrightarrow>
    processed e P s (ls @ [l]) (u\<lparr>run_flag := b\<rparr>)"

interpretation trail: receiving_invariant "processed e P s ls" for e P s ls
  by unfold_locales (auto intro: processed.intros)

interpretation socket: receiving_invariant "\<lambda>s. irc_fd s = fd" for fd
  by unfold_locales (simp_all add: log_io_def)

lemma processed_lines:
  "processed e P s ls t \<Longrightarrow> process_lines e P ks t = (Inr (), u) \<Longrightarrow> processed e P s (ls @ ks) u"
proof (induction ks arbitrary: ls t)
  case (Cons k ks)
  obtain r v where v: "ProcessMessageLine e P k t = (r, v)" by fastforce
  with Cons.prems(2) obtain b where b: "r = Inr b" by (cases r) simp_all
  have "processed e P s (ls @ [k]) (v\<lparr>run_flag := b\<rparr>)" using Cons.prems(1) v b by (simp add: processed.line)
  from Cons.IH [OF this] show ?case using Cons.prems(2) v b by simp
qed simp

section \<open>One burst\<close>

text \<open>Handlers neither receive nor change the descriptor.\<close>

definition input_frame :: "('cb, 'a) worker_scheme \<Rightarrow> _" where
  "input_frame s = (irc_fd s, \<lambda>fd. received fd (w_trace s))"

interpretation input: io_untouched input_frame
  by unfold_locales
    (auto simp: leaves_def input_frame_def sys_send_def sys_dlopen_def sys_dlclose_def log_io_def set_errno_if_def Let_def
      split: prod.split)

lemma input_process_lines: "leaves input_frame (process_lines e (version_plugin e a) ls)"
proof (induction ls)
  case (Cons l ls)
  have "leaves input_frame (cmod (\<lambda>s. s\<lparr>run_flag := b\<rparr>))" for b by (simp add: leaves_def input_frame_def)
  then show ?case using Cons by (auto intro!: leaves_cbind leaves_cseq input.process_line)
qed (simp only: process_lines.simps leaves_basic)


text \<open>A call of the callback receives some bytes and processes the lines of what \<open>RecvMsg\<close> keeps of them.\<close>

lemma callback_burst:
  assumes "processed e (version_plugin e a) s ls t" "worker_callback e (version_plugin e a) t = (Inr (), u)"
  shows "\<exists>k v. RecvMsg e (irc_fd t) t = (Inr k, v) \<and> irc_fd u = irc_fd t \<and>
    received (irc_fd t) (w_trace u) = received (irc_fd t) (w_trace v) \<and>
    processed e (version_plugin e a) s (ls @ TokenizeMessageMultiple k) u"
proof -
  obtain k v rs where v: "RecvMsg e (irc_fd t) t = (Inr k, v)"
    using RecvMsg_run [of e "irc_fd t" t] by blast
  have fd: "irc_fd v = irc_fd t" using keepsD [OF socket.RecvMsg_keeps refl v] by simp
  have trail: "processed e (version_plugin e a) s ls v"
    using keepsD [OF trail.RecvMsg_keeps assms(1) v] by simp
  have "process_lines e (version_plugin e a) (TokenizeMessageMultiple k) v = (Inr (), u)"
    using assms(2) v by (cases "k = []") (simp_all add: worker_callback_def TokenizeMessageMultiple_pieces c_str_def)
  from processed_lines [OF trail this] leavesD [OF input_process_lines this] v fd show ?thesis
    unfolding input_frame_def by (intro exI [of _ k] exI [of _ v]) (simp add: fun_eq_iff)
qed

section \<open>Bursts that end with a line\<close>

text \<open>The next reads of 4096 bytes each deliver data without NUL, and the last of them, at most \<open>tries\<close> after
  the first, ends with LF.\<close>

fun burst_ends_line :: "env \<Rightarrow> int \<Rightarrow> nat \<Rightarrow> trace \<Rightarrow> bool" where
  "burst_ends_line e fd tries tr =
     (case os_recv e tr fd 4096 of
        RecvErr en \<Rightarrow> False
      | RecvData d \<Rightarrow> d \<noteq> [] \<and> NUL \<notin> set d \<and>
          (last d = LF \<or> (case tries of 0 \<Rightarrow> False | Suc n \<Rightarrow> burst_ends_line e fd n (tr @ [EvRecv fd (RecvData d)]))))"

declare burst_ends_line.simps [simp del]

text \<open>Whenever \<open>RecvMsg\<close> is called, its first read finds nothing, or its at most six reads collect a burst that
  ends with LF. A server that sends whole lines, but more than six reads take at once, does not satisfy this: the
  sixth read may end inside a line.\<close>

definition bursts_end_lines :: "env \<Rightarrow> int \<Rightarrow> bool" where
  "bursts_end_lines e fd \<longleftrightarrow> (\<forall>tr. (\<exists>en. os_recv e tr fd 4096 = RecvErr en) \<or> os_recv e tr fd 4096 = RecvData [] \<or>
     burst_ends_line e fd 5 tr)"

lemma recv_loop_whole:
  "burst_ends_line e fd tries (w_trace s) \<Longrightarrow>
   \<exists>d t. recv_loop e fd tries buf s = (Inr (Some (buf @ d)), t) \<and> d \<noteq> [] \<and> last d = LF \<and> NUL \<notin> set d \<and>
     received fd (w_trace t) = received fd (w_trace s) @ d"
proof (induction tries arbitrary: buf s)
  case 0
  then show ?case by (auto simp: burst_ends_line.simps [of e fd 0] recv_loop.simps [of e fd 0] sys_recv_def Let_def
        set_errno_if_def log_io_def split: recv_result.splits)
next
  case (Suc n)
  then obtain d where d: "os_recv e (w_trace s) fd 4096 = RecvData d" "d \<noteq> []" "NUL \<notin> set d"
    by (auto simp: burst_ends_line.simps [of e fd "Suc n"] split: recv_result.splits)
  let ?s = "log_io (EvRecv fd (RecvData d)) s"
  have step: "recv_loop e fd (Suc n) buf s = (if last d = LF then (Inr (Some (buf @ d)), ?s) else recv_loop e fd n (buf @ d) ?s)"
    using d by (simp add: recv_loop.simps [of e fd "Suc n"] sys_recv_def Let_def set_errno_if_def)
  have rec: "received fd (w_trace ?s) = received fd (w_trace s) @ d" by (simp add: log_io_def)
  show ?case
  proof (cases "last d = LF")
    case False
    then have "burst_ends_line e fd n (w_trace ?s)"
      using Suc.prems d by (simp add: burst_ends_line.simps [of e fd "Suc n"] log_io_def)
    from Suc.IH [OF this, of "buf @ d"] obtain d' t where "recv_loop e fd n (buf @ d) ?s = (Inr (Some (buf @ d @ d')), t)"
        "d' \<noteq> []" "last d' = LF" "NUL \<notin> set d'" "received fd (w_trace t) = received fd (w_trace ?s) @ d'" by auto
    then show ?thesis using step False d rec by (intro exI [of _ "d @ d'"]) auto
  qed (use step d rec in auto)
qed

lemma RecvMsg_whole:
  assumes "bursts_end_lines e fd"
  shows "\<exists>d t. RecvMsg e fd s = (Inr d, t) \<and> (d = [] \<or> last d = LF) \<and> NUL \<notin> set d \<and>
    received fd (w_trace t) = received fd (w_trace s) @ d"
proof (cases "burst_ends_line e fd 5 (w_trace s)")
  case True
  from recv_loop_whole [OF this, of "[]"] show ?thesis
    by (auto simp: RecvMsg_def str_at_def last_conv_nth)
next
  case False
  then have "(\<exists>en. os_recv e (w_trace s) fd 4096 = RecvErr en) \<or> os_recv e (w_trace s) fd 4096 = RecvData []"
    using assms by (auto simp: bursts_end_lines_def)
  then show ?thesis
    by (auto simp: RecvMsg_def recv_loop.simps [of e fd 5] sys_recv_def Let_def set_errno_if_def log_io_def)
qed

lemma line_pieces_append:
  "a = [] \<or> last a = LF \<Longrightarrow> line_pieces acc (a @ b) = (if a = [] then line_pieces acc b else line_pieces acc a @ line_pieces [] b)"
  by (induction acc a rule: line_pieces.induct) (auto split: if_splits)


section \<open>A pause inside a line\<close>

lemma complete_lines_none: "LF \<notin> set a \<Longrightarrow> complete_lines a = []"
  by (auto simp: complete_lines_def dropWhile_eq_Nil_conv)

lemma RecvMsg_paused:
  assumes "a \<noteq> []" "LF \<notin> set a" "os_recv e (w_trace s) fd 4096 = RecvData a"
    and "os_recv e (w_trace s @ [EvRecv fd (RecvData a)]) fd 4096 = RecvErr EAGAIN"
  shows "RecvMsg e fd s = (Inr [], s\<lparr>w_trace := w_trace s @ map (EvRecv fd) [RecvData a, RecvErr EAGAIN], w_errno := EAGAIN\<rparr>)"
proof -
  obtain b c where bc: "a = b @ [c]" using assms(1) rev_exhaust by blast
  have "recv_loop e fd (Suc (Suc n)) [] s = (Inr (Some a),
      s\<lparr>w_trace := w_trace s @ map (EvRecv fd) [RecvData a, RecvErr EAGAIN], w_errno := EAGAIN\<rparr>)" for n
    using assms bc
    by (auto simp: recv_loop.simps [of e fd "Suc n" for n] sys_recv_def Let_def set_errno_if_def log_io_def)
  from this [of 3] show ?thesis
    using discard_loop_spec [of "length a" a] assms(2) bc complete_lines_none [of b]
    by (auto simp: RecvMsg_def str_at_def numeral_eq_Suc simp del: discard_loop.simps)
qed

text \<open>When the connection is closed after the read, even the complete lines of \<open>a\<close> are lost.\<close>

lemma RecvMsg_loses_lines:
  assumes "a \<noteq> []" "last a \<noteq> LF" "os_recv e (w_trace s) fd 4096 = RecvData a"
    and "os_recv e (w_trace s @ [EvRecv fd (RecvData a)]) fd 4096 = RecvData []"
  shows "fst (RecvMsg e fd s) = Inr []"
proof -
  have "fst (recv_loop e fd (Suc (Suc n)) [] s) = Inr None" for n
    using assms
    by (simp add: recv_loop.simps [of e fd "Suc n" for n] sys_recv_def Let_def set_errno_if_def log_io_def)
  from this [of 3] show ?thesis
    by (auto simp: RecvMsg_def numeral_eq_Suc cbind_apply split: prod.splits)
qed

section \<open>The lines of the stream\<close>

text \<open>What was processed since \<open>s\<close> is the lines of what was received since, and no line is open.\<close>

definition in_step :: "env \<Rightarrow> 'a wstate plugin_code \<Rightarrow> 'a wstate \<Rightarrow> 'a wstate \<Rightarrow> bool" where
  "in_step e P s t \<longleftrightarrow> irc_fd t = irc_fd s \<and> (\<exists>data. processed e P s (line_pieces [] data) t \<and>
     received (irc_fd s) (w_trace t) = received (irc_fd s) (w_trace s) @ data \<and> (data = [] \<or> last data = LF))"

lemma in_step_callback:
  assumes "bursts_end_lines e (irc_fd s)" "in_step e (version_plugin e a) s t"
    and "worker_callback e (version_plugin e a) t = (Inr (), u)"
  shows "in_step e (version_plugin e a) s u"
proof -
  obtain data where data: "irc_fd t = irc_fd s" "processed e (version_plugin e a) s (line_pieces [] data) t"
      "received (irc_fd s) (w_trace t) = received (irc_fd s) (w_trace s) @ data" "data = [] \<or> last data = LF"
    using assms(2) by (auto simp: in_step_def)
  obtain d v where v: "RecvMsg e (irc_fd s) t = (Inr d, v)" "d = [] \<or> last d = LF" "NUL \<notin> set d"
      "received (irc_fd s) (w_trace v) = received (irc_fd s) (w_trace t) @ d"
    using RecvMsg_whole [OF assms(1)] by blast
  from callback_burst [OF data(2) assms(3)] v(1) data(1)
  have u: "irc_fd u = irc_fd s" "received (irc_fd s) (w_trace u) = received (irc_fd s) (w_trace v)"
      "processed e (version_plugin e a) s (line_pieces [] data @ TokenizeMessageMultiple d) u" by auto
  have "TokenizeMessageMultiple d = line_pieces [] d" using v(3) by (simp add: TokenizeMessageMultiple_pieces c_str_id)
  then have "line_pieces [] (data @ d) = line_pieces [] data @ TokenizeMessageMultiple d"
    using line_pieces_append [OF data(4)] by simp
  then show ?thesis using u data v unfolding in_step_def by (intro conjI exI [of _ "data @ d"]) (auto simp: last_append)
qed

lemma in_step_loop:
  assumes "bursts_end_lines e (irc_fd s)"
  shows "callback_invariant (in_step e (version_plugin e a) s) e (version_plugin e a)"
proof
  show "returns_keeping (in_step e (version_plugin e a) s) (worker_callback e (version_plugin e a))"
    by (rule returns_keepingI) (simp add: in_step_callback [OF assms])
qed (auto simp: in_step_def log_io_def intro: processed.errno processed.waited [unfolded log_io_def])

section \<open>The flag\<close>







section \<open>Properties\<close>

text \<open>C7. As long as every burst that the at most six reads of one \<open>RecvMsg\<close> collect is free of NUL and ends
  with LF (or the first read finds nothing), a worker loses, joins and reorders nothing: after any number of
  rounds that returned, with the version plugin as plugin code, the lines it has handed to
  \<open>ProcessMessageLine\<close>, in their order, are exactly the lines of the bytes that it has received since.\<close>

theorem worker_reads_stream:
  assumes "bursts_end_lines e (irc_fd s)" "(worker_round e (version_plugin e a))\<^sup>*\<^sup>* s u"
  shows "\<exists>data. received (irc_fd s) (w_trace u) = received (irc_fd s) (w_trace s) @ data \<and>
    processed e (version_plugin e a) s (line_pieces [] data) u"
proof -
  have "in_step e (version_plugin e a) s s"
    by (auto simp: in_step_def intro!: exI [of _ "[]"] processed.start)
  with callback_invariant.rounds_keep [OF in_step_loop [OF assms(1)] assms(2)] show ?thesis
    by (auto simp: in_step_def)
qed

text \<open>A server that sends one line in two packets and then nothing.\<close>

definition ping_env :: env where
  "ping_env = calm_env\<lparr>
     os_recv := \<lambda>tr fd n. if received fd tr = [] then RecvData ''PING :''
       else if received fd tr = ''PING :'' then RecvData [CHR ''a'', CR, LF] else RecvErr EAGAIN,
     os_epoll_wait := \<lambda>_ _ _ _. WaitEvents [\<lparr>ev_events = EPOLLIN, ev_fd = 3\<rparr>]\<rparr>"

lemma ping_env_simps [simp]:
  "ndebug ping_env" "os_dlsym ping_env h symbol \<noteq> None"
  "os_epoll_wait ping_env tr ep n timeout = WaitEvents [\<lparr>ev_events = EPOLLIN, ev_fd = 3\<rparr>]"
  "os_recv ping_env tr fd k = (if received fd tr = [] then RecvData ''PING :''
     else if received fd tr = ''PING :'' then RecvData [CHR ''a'', CR, LF] else RecvErr EAGAIN)"
  by (simp_all add: ping_env_def calm_env_def)

lemma ping_env_whole: "bursts_end_lines ping_env fd"
proof -
  have one: "received fd tr = ''PING :'' \<Longrightarrow> burst_ends_line ping_env fd n tr" for tr n
    by (subst burst_ends_line.simps) simp
  have "received fd tr = [] \<Longrightarrow> burst_ends_line ping_env fd 5 tr" for tr
    by (subst burst_ends_line.simps) (simp add: one numeral_eq_Suc)
  with one show ?thesis by (auto simp: bursts_end_lines_def)
qed

lemma ping_env_RecvMsg:
  "received fd (w_trace s) = [] \<Longrightarrow>
   RecvMsg ping_env fd s = (Inr (''PING :a'' @ [CR, LF]),
     log_io (EvRecv fd (RecvData [CHR ''a'', CR, LF])) (log_io (EvRecv fd (RecvData ''PING :'')) s))"
  by (simp add: RecvMsg_def recv_loop.simps [of _ _ "Suc n" for n] numeral_eq_Suc sys_recv_def Let_def
      set_errno_if_def log_io_def str_at_def)

text \<open>One round of a worker with this server.\<close>

lemma ping_round:
  assumes "spinning s" "irc_fd s = 3" "received 3 (w_trace s) = []"
  shows "\<exists>u r. worker_round ping_env (version_plugin ping_env a) s u \<and> EvSend 3 ''PONG :a'' r \<in> set (w_trace u) \<and>
    received 3 (w_trace u) = ''PING :a'' @ [CR, LF]"
proof -
  let ?P = "version_plugin ping_env a"
  let ?w = "log_io (EvEpollWait (em_fd s) (card (dom (fd_map s))) (-1) (WaitEvents [\<lparr>ev_events = EPOLLIN, ev_fd = irc_fd s\<rparr>])) s"
  let ?v = "log_io (EvRecv 3 (RecvData [CHR ''a'', CR, LF])) (log_io (EvRecv 3 (RecvData ''PING :'')) ?w)"
  have w: "irc_fd ?w = 3" "received 3 (w_trace ?w) = []" using assms(2,3) by (simp_all add: log_io_def)
  obtain m where m: "IRCMessage_new ''PING :a'' DEFAULT_TYPE = Inr m" "command m = ''PING''" "GetParameters m = ['':a'']"
    using IRCMessage_new_render [of "[]" "[]" "''PING''" "['':a'']"]
    by (auto simp: wf_command_def wf_word_def render_message_def)
  obtain r en where pong: "ProcessMessageLine ping_env ?P ''PING :a'' ?v = (Inr True, ?v\<lparr>w_trace := w_trace ?v @
      [EvSend (irc_fd ?v) (''PONG :'' @ drop 1 (GetParameters m ! 0)) r], w_errno := en\<rparr>)"
    using ping_is_answered [OF m(1,2), of ping_env ?P ?v] by blast
  obtain u where u: "worker_callback ping_env ?P ?w = (Inr (), u)" "EvSend 3 ''PONG :a'' r \<in> set (w_trace u)"
    using ping_env_RecvMsg [OF w(2)] TokenizeMessageMultiple_single [of "''PING :a''"] pong w(1) m(3)
    by (simp add: worker_callback_def wf_line_def cbind_apply log_io_def)
  have "ev_post u = []" using leavesD [OF frame_callback u(1)] assms(1) by (simp add: loop_frame_def spinning_def log_io_def)
  from woken_round [OF _ assms(1) u(1) this] have "worker_round ping_env ?P s u"
    using assms(1,2) by (auto simp: worker_round_def spinning_def)
  moreover have "received 3 (w_trace u) = ''PING :a'' @ [CR, LF]"
    using callback_burst [OF processed.start u(1)] ping_env_RecvMsg [OF w(2)] w by (auto simp: log_io_def)
  ultimately show ?thesis using u(2) by blast
qed

theorem worker_reads_stream_witness:
  "\<exists>u. (worker_round ping_env (version_plugin ping_env 9))\<^sup>*\<^sup>* (worker0\<lparr>fd_map := [3 \<mapsto>
       \<lparr>ctx_ev = \<lparr>ev_events = EPOLLIN, ev_fd = 3\<rparr>, ctx_cb = OnMessage, ctx_enabled = True\<rparr>]\<rparr>) u \<and>
     received 3 (w_trace u) = ''PING :a'' @ [CR, LF] \<and>
     processed ping_env (version_plugin ping_env 9) (worker0\<lparr>fd_map := [3 \<mapsto>
       \<lparr>ctx_ev = \<lparr>ev_events = EPOLLIN, ev_fd = 3\<rparr>, ctx_cb = OnMessage, ctx_enabled = True\<rparr>]\<rparr>) [''PING :a''] u"
proof -
  let ?P = "version_plugin ping_env 9 :: worker_cb worker plugin_code"
  let ?s = "worker0\<lparr>fd_map := [3 \<mapsto> \<lparr>ctx_ev = \<lparr>ev_events = EPOLLIN, ev_fd = 3\<rparr>, ctx_cb = OnMessage, ctx_enabled = True\<rparr>]\<rparr>"
  have s: "spinning ?s" "irc_fd ?s = 3" "received 3 (w_trace ?s) = []" by (simp_all add: worker0_def spinning_def)
  then obtain u where u: "worker_round ping_env ?P ?s u" "received 3 (w_trace u) = ''PING :a'' @ [CR, LF]"
    using ping_round by blast
  have "\<exists>data. received 3 (w_trace u) = data \<and> processed ping_env ?P ?s (line_pieces [] data) u"
    using worker_reads_stream [OF ping_env_whole r_into_rtranclp [of "worker_round ping_env ?P", OF u(1)]]
    unfolding s(2,3) by simp
  then have "processed ping_env ?P ?s [''PING :a''] u" unfolding u(2) by simp
  then show ?thesis using u by blast
qed






text \<open>C39. A line that arrives in two parts with a pause between them is not put together: when the stream
  pauses after \<open>a\<close>, the callback drops \<open>a\<close> and processes nothing, and when the rest \<open>b\<close> of the line arrives it is
  processed as a line of its own, although the stream has the one line \<open>a @ b\<close>. If \<open>b\<close> reads as a request to
  stop, the worker stops.\<close>

theorem split_line_forges_command:
  assumes "ndebug e" "a \<noteq> []" "LF \<notin> set a" "CR \<notin> set a" "NUL \<notin> set a" "wf_line b"
    and "os_recv e (w_trace s) (irc_fd s) 4096 = RecvData a"
      "os_recv e (w_trace s @ [EvRecv (irc_fd s) (RecvData a)]) (irc_fd s) 4096 = RecvErr EAGAIN"
    and "irc_fd u = irc_fd s" "os_recv e (w_trace u) (irc_fd s) 4096 = RecvData (b @ [CR, LF])"
    and "worker_callback e P u = (Inr (), v)"
  shows "TokenizeMessageMultiple (a @ b @ [CR, LF]) = [a @ b] \<and>
    worker_callback e P s = (Inr (), s\<lparr>w_trace := w_trace s @ map (EvRecv (irc_fd s)) [RecvData a, RecvErr EAGAIN],
      w_errno := EAGAIN\<rparr>) \<and>
    (run_flag v \<longleftrightarrow> \<not> stop_line b)"
proof (intro conjI)
  show "TokenizeMessageMultiple (a @ b @ [CR, LF]) = [a @ b]"
    using TokenizeMessageMultiple_single [of "a @ b"] assms(2-6) by (simp add: wf_line_def)
  show "worker_callback e P s = (Inr (), s\<lparr>w_trace := w_trace s @ map (EvRecv (irc_fd s)) [RecvData a, RecvErr EAGAIN],
      w_errno := EAGAIN\<rparr>)"
    using RecvMsg_paused [OF assms(2,3,7,8)] by (simp add: worker_callback_def)
  have "process_lines e P [b] (log_io (EvRecv (irc_fd s) (RecvData (b @ [CR, LF]))) u) = (Inr (), v)"
    using assms(9,11) RecvMsg_at_once [OF assms(10)] TokenizeMessageMultiple_single [OF assms(6)]
    by (simp add: worker_callback_def)
  then have "process_lines e P ([] @ [b]) (log_io (EvRecv (irc_fd s) (RecvData (b @ [CR, LF]))) u) = (Inr (), v)" by simp
  from process_lines_last [OF this] obtain w f t where "ProcessMessageLine e P b w = (Inr f, t)" "v = t\<lparr>run_flag := f\<rparr>" by blast
  then show "run_flag v \<longleftrightarrow> \<not> stop_line b"
    using ProcessMessageLine_stop_line [OF assms(1), of b P w] assms(6) by (auto simp: wf_line_def)
qed


text \<open>The second half of a user's message to a channel reads as a QUIT.\<close>

definition pausing_env :: env where
  "pausing_env = calm_env\<lparr>os_recv := \<lambda>tr fd n.
     if length tr = 0 then RecvData '':eve!e@h PRIVMSG #c :'' else if length tr = 1 then RecvErr EAGAIN
     else RecvData (''QUIT :now'' @ [CR, LF])\<rparr>"

lemma split_message_goes_on: "\<not> stop_line ('':eve!e@h PRIVMSG #c :'' @ ''QUIT :now'')"
proof -
  obtain m where "IRCMessage_new ('':eve!e@h PRIVMSG #c :'' @ ''QUIT :now'') DEFAULT_TYPE = Inr m" "command m = ''PRIVMSG''"
      "source m = ''eve!e@h''"
    using IRCMessage_new_render [of "[]" "''eve!e@h''" "''PRIVMSG''" "[''#c'', '':QUIT'', '':now'']"]
    by (auto simp: wf_command_def wf_word_def render_message_def)
  then show ?thesis
    by (simp add: stop_line_def quit_requested_def owner_source_def)
qed

theorem split_line_forges_command_witness:
  "\<exists>t v. worker_callback pausing_env (version_plugin pausing_env 9) worker0 = (Inr (), t) \<and>
     worker_callback pausing_env (version_plugin pausing_env 9) t = (Inr (), v) \<and> run_flag t \<and> \<not> run_flag v \<and>
     \<not> stop_line ('':eve!e@h PRIVMSG #c :'' @ ''QUIT :now'')"
proof -
  let ?P = "version_plugin pausing_env 9 :: worker_cb worker plugin_code"
  let ?t = "worker0\<lparr>w_trace := w_trace worker0 @ map (EvRecv (irc_fd worker0))
    [RecvData '':eve!e@h PRIVMSG #c :'', RecvErr EAGAIN], w_errno := EAGAIN\<rparr>"
  have env: "ndebug pausing_env" "\<And>h symbol. os_dlsym pausing_env h symbol \<noteq> None"
    by (simp_all add: pausing_env_def calm_env_def)
  obtain v where v: "worker_callback pausing_env ?P ?t = (Inr (), v)" using callback_returns [OF env] by blast
  have "worker_callback pausing_env ?P worker0 = (Inr (), ?t) \<and> (run_flag v \<longleftrightarrow> \<not> stop_line ''QUIT :now'')"
    by (rule conjunct2 [OF split_line_forges_command [OF env(1) _ _ _ _ _ _ _ _ _ v]])
      (simp_all add: pausing_env_def worker0_def wf_line_def)
  moreover have "run_flag ?t" by (simp add: worker0_def)
  ultimately show ?thesis using v quit_line_stops split_message_goes_on by blast
qed

end
