(* ===== verification/Wire.thy ===== *)
theory Wire
  imports Program Reading
begin

text \<open>
  What the bot puts on the wire. Everything it sends is one message of the protocol: the text of a line
  without line breaks inside, framed by CR in front and CR LF behind, or a PONG, which the source sends
  without any. Names, channels and replies are made of parts of received lines, so this is the
  statement that nobody can make the bot send a command of their choice by smuggling in a line
  break. It holds for every state that a worker reaches and for whole sessions. How the peer reads
  the stream is the tokenizer's view of it.
\<close>

section \<open>Messages on the wire\<close>

definition clean :: "string \<Rightarrow> bool" where
  "clean p \<longleftrightarrow> CR \<notin> set p \<and> LF \<notin> set p \<and> NUL \<notin> set p"

definition payload :: "string \<Rightarrow> string" where
  "payload d = filter (\<lambda>c. c \<noteq> CR \<and> c \<noteq> LF) d"

definition verbs :: "string list" where
  "verbs = [''PRIVMSG '', ''NICK '', ''JOIN '', ''PART '', ''USER '', ''QUIT '']"

definition wire_line :: "string \<Rightarrow> bool" where
  "wire_line d \<longleftrightarrow> d = CR # payload d @ [CR, LF] \<and> NUL \<notin> set d \<and> list_ex (\<lambda>v. prefix v (payload d)) verbs"

definition wire_pong :: "string \<Rightarrow> bool" where
  "wire_pong d \<longleftrightarrow> clean d \<and> prefix ''PONG :'' d"

definition wire_message :: "string \<Rightarrow> bool" where
  "wire_message d \<longleftrightarrow> wire_line d \<or> wire_pong d"

lemma clean_simps [simp]:
  "clean []" "clean (c # p) \<longleftrightarrow> c \<noteq> CR \<and> c \<noteq> LF \<and> c \<noteq> NUL \<and> clean p" "clean (p @ q) \<longleftrightarrow> clean p \<and> clean q"
  by (auto simp: clean_def)

lemma clean_subset: "set p \<subseteq> set q \<Longrightarrow> clean q \<Longrightarrow> clean p"
  by (auto simp: clean_def)

lemma payload_clean: "clean p \<Longrightarrow> payload p = p"
  by (auto simp: payload_def clean_def intro!: filter_True)

lemma payload_framed: "clean p \<Longrightarrow> payload (CR # p @ [CR, LF]) = p"
  using payload_clean [of p] by (simp add: payload_def)

lemma wire_lineI: "clean p \<Longrightarrow> v \<in> set verbs \<Longrightarrow> prefix v p \<Longrightarrow> wire_line (CR # p @ [CR, LF])"
  by (auto simp: wire_line_def payload_framed list_ex_iff) (auto simp: clean_def)

lemma wire_commands:
  "clean c \<Longrightarrow> wire_message (CR # ''JOIN '' @ c @ [CR, LF])" "clean c \<Longrightarrow> wire_message (CR # ''PART '' @ c @ [CR, LF])"
  "clean c \<Longrightarrow> wire_message (CR # ''NICK '' @ c @ [CR, LF])" "clean c \<Longrightarrow> wire_message (CR # ''QUIT '' @ c @ [CR, LF])"
  "clean c \<Longrightarrow> clean msg \<Longrightarrow> wire_message (CR # ''PRIVMSG '' @ c @ '' :'' @ msg @ [CR, LF])"
  "clean c \<Longrightarrow> wire_message (CR # ''USER '' @ c @ '' 0 * :'' @ c @ [CR, LF])"
  "clean c \<Longrightarrow> wire_message (''PONG :'' @ c)"
  using wire_lineI [of "''JOIN '' @ c" "''JOIN ''"] wire_lineI [of "''PART '' @ c" "''PART ''"]
    wire_lineI [of "''NICK '' @ c" "''NICK ''"] wire_lineI [of "''QUIT '' @ c" "''QUIT ''"]
    wire_lineI [of "''PRIVMSG '' @ c @ '' :'' @ msg" "''PRIVMSG ''"]
    wire_lineI [of "''USER '' @ c @ '' 0 * :'' @ c" "''USER ''"]
  by (simp_all add: wire_message_def verbs_def wire_pong_def)

lemmas wire_commands_simp = wire_commands [simplified]

section \<open>What a message is made of\<close>

definition clean_message :: "IRCMessage \<Rightarrow> bool" where
  "clean_message m \<longleftrightarrow> clean (line m) \<and> clean (source m)"

lemma clean_new: "wf_line l \<Longrightarrow> IRCMessage_new l t = Inr m \<Longrightarrow> clean_message m"
proof -
  assume l: "wf_line l" and m: "IRCMessage_new l t = Inr m"
  have "line m = l" "spec_message l t = Inr (msg_observe m)" using IRCMessage_new_InrD [OF m] by blast+
  then have "set (source m) \<subseteq> set l" "line m = l"
    using spec_message_parts(2) [of l t "msg_observe m"] by (simp_all add: msg_observe_def)
  then show ?thesis using l clean_subset [of "source m" l] by (simp add: clean_message_def wf_line_def clean_def)
qed

lemma clean_contents: "clean_message m \<Longrightarrow> clean (sv_contents (line m) v)"
  using set_seg_subset [of "line m" "fst v" "snd v"] by (auto simp: clean_message_def sv_contents_def intro: clean_subset)

lemma clean_params: "clean_message m \<Longrightarrow> p \<in> set (GetParameters m) \<Longrightarrow> clean p"
  by (auto simp: GetParameters_def clean_contents)

lemma clean_accessors:
  assumes "clean_message m"
  shows "GetUser nd m = Inr u \<Longrightarrow> clean (u_nickname u)" "GetChannel m = Inr c \<Longrightarrow> clean c"
    "rbind (vec_idx (GetParameters m) 0) (\<lambda>p. sv_substr p 1) = Inr p \<Longrightarrow> clean p"
    "clean (c_str (drop k (line m)))"
proof -
  assume u: "GetUser nd m = Inr u"
  then have "IsUserMessage (source m)" using GetUser_server [of m nd] by (cases "IsUserMessage (source m)") auto
  then have "u_nickname u = invoker m" using GetUser_invoker [of m nd] u by auto
  moreover have "set (invoker m) \<subseteq> set (source m)" by (auto simp: invoker_def dest: set_takeWhileD)
  ultimately show "clean (u_nickname u)" using assms clean_subset by (auto simp: clean_message_def)
next
  assume "GetChannel m = Inr c"
  then show "clean c" using clean_params [OF assms] by (auto simp: GetChannel_def vec_at_def split: if_splits)
next
  assume "rbind (vec_idx (GetParameters m) 0) (\<lambda>p. sv_substr p 1) = Inr p"
  then have "0 < length (GetParameters m)" "p = drop 1 (GetParameters m ! 0)"
    by (auto simp: rbind_eq_Inr vec_idx_def sv_substr_def split: if_splits)
  then show "clean p" using clean_params [OF assms nth_mem] set_drop_subset [of 1 "GetParameters m ! 0"]
    by (auto intro: clean_subset)
next
  show "clean (c_str (drop k (line m)))"
  proof (rule clean_subset [of _ "line m"])
    show "set (c_str (drop k (line m))) \<subseteq> set (line m)"
      using set_drop_subset [of k "line m"] by (auto simp: c_str_def dest!: set_takeWhileD)
  qed (use assms in \<open>simp add: clean_message_def\<close>)
qed

section \<open>The invariant\<close>

fun event_ok :: "io_event \<Rightarrow> bool" where
  "event_ok (EvSend fd d r) = wire_message d"
| "event_ok _ = True"

text \<open>What was sent is well formed, and so are the names of commands, which \<open>,help\<close> sends.\<close>

definition wire_inv :: "('cb, 'a) server_scheme \<Rightarrow> bool" where
  "wire_inv s \<longleftrightarrow> list_all event_ok (w_trace s) \<and> finite (dom (user_command_map s)) \<and>
     (\<forall>k \<in> dom (user_command_map s). clean k)"

lemma wire_inv_log [simp]: "wire_inv (log_io ev s) \<longleftrightarrow> wire_inv s \<and> event_ok ev"
  by (auto simp: wire_inv_def log_io_def)

lemma wire_inv_fields [simp]:
  "wire_inv (set_errno_if b en s) = wire_inv s" "wire_inv (s\<lparr>plugins_map := pm\<rparr>) = wire_inv s"
  "wire_inv (s\<lparr>chan_map := cm\<rparr>) = wire_inv s" "wire_inv (s\<lparr>nickname := n\<rparr>) = wire_inv s"
  by (simp_all add: wire_inv_def set_errno_if_def)

lemma wire_sys:
  "wire_message d \<Longrightarrow> keeps wire_inv (SendMsg e fd d)" "keeps wire_inv (sys_dlopen e path)"
  "keeps wire_inv (sys_dlclose h)" "keeps wire_inv (CloseHandle u)"
  by (auto simp: keeps_def triple_def SendMsg_def sys_send_def sys_dlopen_def sys_dlclose_def CloseHandle_def Let_def
      split: prod.split option.split)

lemma wire_cmod:
  "keeps wire_inv (cmod (\<lambda>s. s\<lparr>plugins_map := f s\<rparr>))" "keeps wire_inv (cmod (\<lambda>s. s\<lparr>chan_map := g s\<rparr>))"
  "keeps wire_inv (cmod (\<lambda>s. s\<lparr>nickname := n\<rparr>))"
  by (auto intro: keeps_cmod)

lemmas wire_prims = keeps_basic wire_sys wire_cmod

lemma wire_ops:
  "clean c \<Longrightarrow> clean msg \<Longrightarrow> keeps wire_inv (SendChannel e c msg)" "clean c \<Longrightarrow> keeps wire_inv (JoinChannel e c)"
  "clean c \<Longrightarrow> keeps wire_inv (PartChannel e c)" "clean (c_str d) \<Longrightarrow> keeps wire_inv (SetNickname e d)"
  "keeps wire_inv (UpdateNickname old new)" "keeps wire_inv (UpdateJoinChannel c')"
  "keeps wire_inv (UpdatePartChannel c')" "keeps wire_inv (insert_plugin name h)" "keeps wire_inv (OpenHandle e name)"
  unfolding SendChannel_def JoinChannel_def PartChannel_def SetNickname_def UpdateNickname_def
    UpdateJoinChannel_def UpdatePartChannel_def insert_plugin_def PrivMsg_def IRC_Join_def IRC_Part_def
    IRC_Nick_def OpenHandle_def Let_def
  by (auto intro!: keeps_cbind keeps_cseq wire_prims simp: wire_commands_simp split: option.split)

lemma wire_reply:
  assumes "clean_message m" "clean reply"
  shows "keeps wire_inv (SendInvokerReply e m reply)"
  unfolding SendInvokerReply_def GetNickname_def Let_def
  by (intro keeps_cpure_cbind keeps_cbind keeps_basic wire_ops) (auto simp: assms(2) dest: clean_accessors(1,2) [OF assms(1)])

section \<open>Handlers\<close>

text \<open>What is asked of the code of a plugin, and the version plugin's answer.\<close>

definition plugin_wire_safe :: "('cb, 'a) server_scheme plugin_code \<Rightarrow> bool" where
  "plugin_wire_safe P \<longleftrightarrow> (\<forall>a. keeps wire_inv (fn_register P a) \<and> keeps wire_inv (fn_delete P a) \<and>
     (\<forall>m. clean_message m \<longrightarrow> keeps wire_inv (fn_help P a m) \<and> keeps wire_inv (fn_command P a m)))"

lemma version_wire_safe: "plugin_wire_safe (version_plugin e a)"
  unfolding plugin_wire_safe_def
proof (intro allI conjI impI)
  show "keeps wire_inv (fn_register (version_plugin e a) b)" "keeps wire_inv (fn_delete (version_plugin e a) b)" for b
    by (auto simp: keeps_def triple_def version_plugin_tables wire_inv_def)
  fix b m assume m: "clean_message m"
  show "keeps wire_inv (fn_command (version_plugin e a) b m)"
    by (simp add: version_plugin_def UserCommandForward_def Plugin_version_def wire_reply [OF m])
  have "version_help_map k = Some h \<Longrightarrow> clean h" for k h by (auto simp: version_help_map_def split: if_splits)
  then show "keeps wire_inv (fn_help (version_plugin e a) b m)"
    unfolding version_plugin_def HelpCallbackImpl_def plugin_code.simps
    by (intro keeps_cpure_cbind wire_reply [OF m]) (auto simp: map_at_def split: option.splits)
qed

text \<open>Iterating over a map meets nothing but keys.\<close>

definition order_ok :: "env \<Rightarrow> bool" where
  "order_ok e \<longleftrightarrow> (\<forall>S. finite S \<longrightarrow> set (map_order e S) \<subseteq> S)"

lemma plugin_list_clean:
  "plugin_list_loop ks acc = Inr l \<Longrightarrow> \<forall>k \<in> set ks. clean k \<Longrightarrow> clean acc \<Longrightarrow> clean l"
proof (induction ks arbitrary: acc)
  case (Cons k ks)
  have "clean (drop 1 k)" using Cons.prems(2) set_drop_subset [of 1 k] by (auto intro: clean_subset)
  then show ?case using Cons by (auto simp: sv_substr_def split: if_splits)
qed simp

lemma wire_permission:
  "clean_message m \<Longrightarrow> keeps wire_inv (InvokerPermissionCheck e m k)"
  unfolding InvokerPermissionCheck_def
  by (auto intro!: keeps_cpure_cbind keeps_cseq keeps_basic wire_reply)

lemma wire_plugin_calls:
  assumes "plugin_wire_safe P" "clean_message m"
  shows "keeps wire_inv (call_ptr (fn_register P) p)" "keeps wire_inv (call_ptr (fn_delete P) p)"
    "keeps wire_inv (call_ptr (\<lambda>a. fn_help P a m) p)"
  using assms by (cases p; simp add: call_ptr_def plugin_wire_safe_def keeps_basic)+

lemma wire_simple_builtins:
  assumes "clean_message m"
  shows "keeps wire_inv (BuiltinCommandHi e m)" "keeps wire_inv (BuiltinCommandNick e m)"
    "keeps wire_inv (BuiltinCommandJoin e m)" "keeps wire_inv (BuiltinCommandPart e m)"
  unfolding BuiltinCommandHi_def BuiltinCommandNick_def BuiltinCommandJoin_def BuiltinCommandPart_def
  by (auto intro!: keeps_cbind [OF wire_permission [OF assms]] keeps_cbind keeps_basic wire_ops wire_reply
      clean_contents clean_accessors(4) simp: assms)

lemma wire_guard: "keeps wire_inv k \<Longrightarrow> keeps wire_inv (guard_handle h k)"
  unfolding guard_handle_def by (intro keeps_ctry keeps_cseq wire_prims) simp_all

lemma wire_listing:
  assumes "order_ok e" "clean_message m"
  shows "keeps wire_inv (cbind (cget user_command_map) (\<lambda>tab.
      cbind (cpure (plugin_list_loop (map_order e (dom tab)) ''Plugin commands available: '')) (\<lambda>l. SendInvokerReply e m l)))"
proof (intro keeps_cget_cbind keeps_cpure_cbind wire_reply [OF assms(2)])
  fix s l
  assume s: "wire_inv s" and l: "plugin_list_loop (map_order e (dom (user_command_map s))) ''Plugin commands available: '' = Inr l"
  have "\<forall>k \<in> set (map_order e (dom (user_command_map s))). clean k"
    using s assms(1) by (auto simp: wire_inv_def order_ok_def)
  from plugin_list_clean [OF l this] show "clean l" by simp
qed

lemma wire_plugin_builtins:
  assumes "plugin_wire_safe P" "order_ok e" "clean_message m"
  shows "keeps wire_inv (BuiltinCommandLoadPlugin e P m)" "keeps wire_inv (BuiltinCommandUnloadPlugin e P m)"
    "keeps wire_inv (BuiltinCommandHelp e P m)"
proof -
  note parts = keeps_cseq keeps_basic wire_prims wire_ops wire_reply [OF assms(3)] wire_guard
    wire_plugin_calls [OF assms(1,3)]
  show "keeps wire_inv (BuiltinCommandLoadPlugin e P m)" "keeps wire_inv (BuiltinCommandUnloadPlugin e P m)"
    unfolding BuiltinCommandLoadPlugin_def BuiltinCommandUnloadPlugin_def Let_def
    by (auto intro!: keeps_cbind parts simp: clean_contents [OF assms(3)] split: option.split)
  show "keeps wire_inv (BuiltinCommandHelp e P m)"
    unfolding BuiltinCommandHelp_def Let_def
    by (auto intro!: keeps_cbind [OF keeps_basic(4)] keeps_cbind [OF keeps_basic(3)] parts wire_listing [OF assms(2,3)] split: option.split)
qed

lemma wire_static:
  assumes "plugin_wire_safe P" "order_ok e" "clean_message m" "static_command_map e P c = Some f"
  shows "keeps wire_inv (f m)"
  using assms(4) unfolding static_commands
  by (auto simp: UserCommandForward_def wire_simple_builtins [OF assms(3)] wire_plugin_builtins [OF assms(1-3)]
      wire_reply [OF assms(3)])

lemma wire_privmsg:
  assumes "plugin_wire_safe P" "order_ok e" "clean_message m"
  shows "keeps wire_inv (BuiltinPrivMsg e P m)"
proof -
  have "keeps wire_inv (case static_command_map e P c of Some f \<Rightarrow> f m
      | None \<Rightarrow> cbind (cget user_command_map) (\<lambda>tab. cbind (cpure (GetUserCommand m)) (\<lambda>c.
            case tab c of Some cb \<Rightarrow> fn_command P cb m | None \<Rightarrow> cret ())))" for c
    using assms(1,3) wire_static [OF assms]
    by (auto intro!: keeps_cbind keeps_basic simp: plugin_wire_safe_def split: option.split)
  then show ?thesis unfolding BuiltinPrivMsg_def
    by (intro keeps_ctry keeps_cseq keeps_cbind keeps_basic) simp_all
qed

fun variant_clean :: "IRCMessageVariant \<Rightarrow> bool" where
  "variant_clean (VMessage m) = clean_message m"
| "variant_clean (VPing m) = clean_message m"
| "variant_clean (VNick m) = clean_message m"
| "variant_clean (VJoin m) = clean_message m"
| "variant_clean (VPart m) = clean_message m"
| "variant_clean (VPrivMsg m) = clean_message m"
| "variant_clean _ = True"

lemma variant_clean_from:
  "clean_message m \<Longrightarrow> GetIRCMessageVariantFrom nd m = Inr mv \<Longrightarrow> variant_clean mv"
  by (auto simp: GetIRCMessageVariantFrom_def GetSetIRCMessageType_def IRCMessagePrivMsg_new_def Let_def rbind_def
      clean_message_def split: IRCMessageType.splits sum.splits if_splits)

lemma wire_visitor:
  assumes "plugin_wire_safe P" "order_ok e" "variant_clean mv"
  shows "keeps wire_inv (Visitor e P mv)"
proof (cases mv)
  case (VPing m)
  then have "clean_message m" using assms(3) by simp
  from clean_accessors(3) [OF this] show ?thesis unfolding VPing Visitor.simps BuiltinPong_def
    by (intro keeps_cpure_cbind keeps_cbind wire_prims wire_commands) blast
next
  case (VPrivMsg m)
  then show ?thesis using wire_privmsg [OF assms(1,2)] assms(3) by simp
qed (auto simp: BuiltinNickname_def BuiltinJoin_def BuiltinPart_def intro!: keeps_cbind wire_prims wire_ops)

lemma wire_process_line:
  assumes "plugin_wire_safe P" "order_ok e" "wf_line l"
  shows "keeps wire_inv (ProcessMessageLine e P l)"
proof -
  have "keeps wire_inv (cbind (cpure (IRCMessage_new l DEFAULT_TYPE)) (\<lambda>msg.
        cbind (cpure (GetIRCMessageVariantFrom (ndebug e) msg)) (\<lambda>mv.
          if mv = VQuit then cret False else cseq (Visitor e P mv) (cret True))))"
    by (intro keeps_cpure_cbind) (auto intro!: keeps_cseq keeps_basic wire_visitor [OF assms(1,2)]
        intro: variant_clean_from clean_new [OF assms(3)])
  then show ?thesis unfolding ProcessMessageLine_def
    by (intro keeps_ctry keeps_basic) (auto split: cpp_error.splits)
qed

lemma wire_worker_invariant:
  assumes "plugin_wire_safe P" "order_ok e"
  shows "worker_invariant wire_inv e P"
proof unfold_locales
  show "wire_inv (log_io ev s) = wire_inv s" if "loop_event ev" for ev and s :: "'a wstate"
    using that by (cases ev) simp_all
qed (use wire_process_line [OF assms] in \<open>simp_all add: wire_inv_def\<close>)

section \<open>Sessions\<close>

lemma wire_session_start:
  assumes "clean nick" "clean password" "clean ch"
  shows "keeps wire_inv (session_start e nick password ch)"
proof -
  have "wire_message (CR # ''PRIVMSG '' @ ''NickServ'' @ '' :'' @ (''identify '' @ password) @ [CR, LF])"
    using assms(2) by (intro wire_commands) simp_all
  then show ?thesis
    unfolding session_start_def IRC_Login_def IRC_Nick_def PrivMsg_def Let_def
    by (auto intro!: keeps_cbind keeps_cseq wire_prims wire_ops simp: assms wire_commands_simp)
qed

lemma wire_close_plugins: "keeps wire_inv (close_plugins ks)"
proof (induction ks)
  case (Cons k ks)
  then show ?case unfolding close_plugins.simps by (intro keeps_cbind keeps_cseq wire_prims)
qed (simp only: close_plugins.simps keeps_basic)

lemma wire_dtor:
  fixes P :: "'a wstate plugin_code"
  assumes "plugin_wire_safe P" "order_ok e"
  shows "returns_keeping wire_inv (Manager_dtor e (worker_runner e P))"
proof -
  note static = callback_invariant.static_keeps [OF worker_invariant.loop_invariant [OF wire_worker_invariant [OF assms]]]
  have close: "keeps wire_inv (sys_close fd)" for fd by (simp add: sys_close_def keeps_cmod)
  have poll: "keeps wire_inv (sys_poll fd n)" for fd n by (simp add: sys_poll_def keeps_cmod)
  have "wire_message (CR # ''QUIT '' @ ''Goodbye cruel world!'' @ [CR, LF])" by (intro wire_commands) simp
  then have "keeps (wire_inv :: 'a wstate \<Rightarrow> bool) (Server_dtor e)"
    unfolding Server_dtor_def IRC_Quit_def IRC_dtor_def
    by (auto intro!: keeps_cbind keeps_cseq wire_prims wire_close_plugins close poll)
  moreover have "returns_keeping wire_inv (EpollManager_dtor (worker_runner e P))"
    unfolding EpollManager_dtor_def
    by (intro returns_keeping_cseq returns_keeping_cbind returns_keeping_basic static)
      (simp add: keeps_returns close returns_keeping_basic)
  ultimately show ?thesis unfolding Manager_dtor_def by (intro returns_keeping_cseq) (simp_all only: keeps_returns)
qed

lemma wire_session_body:
  assumes "plugin_wire_safe P" "order_ok e" "clean nick" "clean password" "clean ch" "wire_inv m"
    and "session_body e P nick password ch m = Some (Inr (), t)"
  shows "wire_inv t"
proof -
  obtain b s where s: "session_start e nick password ch m = (Inr b, s)" using session_start_run by blast
  have ws: "wire_inv s" using keepsD [OF wire_session_start [OF assms(3-5)] assms(6) s] by simp
  note dtor = returns_keepingD [OF wire_dtor [OF assms(1,2)]]
  show ?thesis
  proof (cases b)
    case False
    then show ?thesis using assms(7) s dtor [OF ws] by (simp add: session_body_def)
  next
    case True
    then obtain u where u: "WorkerRun e P s = Some (Inr (), u)" "Manager_dtor e (worker_runner e P) u = (Inr (), t)"
      using assms(7) s by (auto simp: session_body_def split: option.splits sum.splits)
    have "wire_inv u" by (rule worker_invariant.WorkerRun_keeps [OF wire_worker_invariant [OF assms(1,2)] ws u(1)])
    from dtor [OF this u(2)] show ?thesis by simp
  qed
qed

section \<open>The stream as its reader sees it\<close>

text \<open>No two answers to PING in a row.\<close>

fun separated :: "string list \<Rightarrow> bool" where
  "separated (a # b # ds) \<longleftrightarrow> \<not> (wire_pong a \<and> wire_pong b) \<and> separated (b # ds)"
| "separated _ \<longleftrightarrow> True"

lemma wire_lineD: "wire_line d \<Longrightarrow> d = CR # payload d @ [CR, LF] \<and> clean (payload d) \<and> payload d \<noteq> []"
  by (auto simp: wire_line_def payload_def clean_def verbs_def)

lemma wire_pongD: "wire_pong d \<Longrightarrow> payload d = d \<and> clean d \<and> d \<noteq> []"
  by (auto simp: wire_pong_def payload_clean)

lemma line_pieces_clean:
  assumes "clean p" "p \<noteq> []" "r = [] \<or> hd r = CR"
  shows "line_pieces [] (p @ r) = p # line_pieces [] r"
proof -
  have "\<forall>c \<in> set p. c \<notin> set [CR, LF]" using assms(1) by (auto simp: clean_def)
  from line_pieces_token [OF assms(2) this, of "[]" r] assms(3) show ?thesis by (cases r) auto
qed

lemma line_pieces_stream:
  "list_all wire_message ds \<Longrightarrow> separated ds \<Longrightarrow> line_pieces [] (concat ds) = map payload ds"
proof (induction ds)
  case (Cons d ds)
  have "separated ds" using Cons.prems(2) by (cases ds) simp_all
  then have IH: "line_pieces [] (concat ds) = map payload ds" using Cons by simp
  show ?case
  proof (cases "wire_line d")
    case True
    note d = wire_lineD [OF True]
    then have "line_pieces [] (concat (d # ds)) = line_pieces [] (payload d @ CR # LF # concat ds)"
      by (metis append.assoc append_Cons append_Nil concat.simps(2) insertI1 line_pieces.simps(2))
    also have "\<dots> = payload d # line_pieces [] (concat ds)" using d by (simp add: line_pieces_clean)
    finally show ?thesis using IH by simp
  next
    case False
    then have p: "wire_pong d" using Cons.prems(1) by (simp add: wire_message_def)
    have "concat ds = [] \<or> hd (concat ds) = CR"
    proof (cases ds)
      case (Cons b bs)
      then have "\<not> wire_pong b" using p \<open>separated (d # ds)\<close> by simp
      then have "wire_line b" using Cons.prems \<open>list_all wire_message (d # ds)\<close> Cons by (simp add: wire_message_def)
      from wire_lineD [OF this] have "hd (b @ concat bs) = CR" by (metis append_Cons list.sel(1))
      then show ?thesis using Cons by simp
    qed simp
    then show ?thesis using wire_pongD [OF p] IH by (simp add: line_pieces_clean)
  qed
qed simp

lemma wire_no_nul: "list_all wire_message ds \<Longrightarrow> NUL \<notin> set (concat ds)"
  by (induction ds) (auto simp: wire_message_def wire_line_def wire_pong_def clean_def)

lemma stream_tokens:
  assumes "list_all wire_message ds" "separated ds"
  shows "TokenizeMessageMultiple (concat ds) = map payload ds"
  using line_pieces_stream [OF assms] wire_no_nul [OF assms(1)] by (simp add: TokenizeMessageMultiple_pieces c_str_id)

text \<open>Two answers in a row are read as one line.\<close>

lemma pongs_merge:
  assumes "wire_pong a" "wire_pong b"
  shows "TokenizeMessageMultiple (a @ b) = [a @ b]"
proof -
  have "clean (a @ b)" "a @ b \<noteq> []" using assms wire_pongD by auto
  then show ?thesis using line_pieces_clean [of "a @ b" "[]"]
    by (simp add: TokenizeMessageMultiple_pieces c_str_id clean_def)
qed

lemma sent_on_ok: "list_all event_ok tr \<Longrightarrow> no_short_send fd tr \<Longrightarrow> list_all wire_message (sent_on fd tr)"
  by (induction fd tr rule: sent_on.induct) auto

lemma wire_server_thread:
  assumes "order_ok e" "clean nick" "clean password" "clean ch" "list_all event_ok (w_trace w)"
    and "server_thread e (version_plugin e a) nick password ch c sig w = Some (Inr (), tr)"
  shows "list_all event_ok tr"
proof -
  let ?fd = "os_epoll_create e (w_trace w)"
  let ?m = "Manager_new ?fd c sig (log_io (EvEpollCreate ?fd) w)"
  obtain t where t: "session_body e (version_plugin e a) nick password ch ?m = Some (Inr (), t)" "tr = w_trace t"
    using assms(6) by (auto simp: server_thread_def CreateNew_def sys_epoll_create_def Let_def split: if_splits)
  have "wire_inv ?m" using assms(5) by (simp add: wire_inv_def Manager_new_def)
  from wire_session_body [OF version_wire_safe assms(1-4) this t(1)] show ?thesis using t(2) by (simp add: wire_inv_def)
qed

section \<open>Properties\<close>

text \<open>C6. Nobody can make the bot speak for them: whatever bytes arrive, in every state that a worker with the
  version plugin reaches after any number of rounds, also of a run that never ends, each message
  sent is either a PONG or one of the six commands the bot knows, framed as a single line, with no
  line break and no NUL inside.\<close>

theorem worker_wire_safe:
  assumes "order_ok e" "wire_inv s" "(worker_round e (version_plugin e a))\<^sup>*\<^sup>* s u" "EvSend fd d r \<in> set (w_trace u)"
  shows "wire_line d \<or> wire_pong d"
proof -
  have "wire_inv u"
    by (rule callback_invariant.rounds_keep [OF worker_invariant.loop_invariant
      [OF wire_worker_invariant [OF version_wire_safe assms(1)]] assms(3,2)])
  then show ?thesis using assms(4) by (auto simp: wire_inv_def list_all_iff wire_message_def)
qed

lemma order_ok_calm: "order_ok calm_env"
  by (simp add: order_ok_def calm_env_def)

text \<open>A worker answers a PING.\<close>

theorem worker_wire_safe_witness:
  "\<exists>u r. (worker_round ping_env (version_plugin ping_env 9))\<^sup>*\<^sup>* (worker0\<lparr>fd_map := [3 \<mapsto>
       \<lparr>ctx_ev = \<lparr>ev_events = EPOLLIN, ev_fd = 3\<rparr>, ctx_cb = OnMessage, ctx_enabled = True\<rparr>]\<rparr>) u \<and>
     EvSend 3 ''PONG :a'' r \<in> set (w_trace u) \<and> (wire_line ''PONG :a'' \<or> wire_pong ''PONG :a'')"
proof -
  let ?P = "version_plugin ping_env 9 :: worker_cb worker plugin_code"
  let ?s = "worker0\<lparr>fd_map := [3 \<mapsto> \<lparr>ctx_ev = \<lparr>ev_events = EPOLLIN, ev_fd = 3\<rparr>, ctx_cb = OnMessage, ctx_enabled = True\<rparr>]\<rparr>"
  have s: "spinning ?s" "irc_fd ?s = 3" "received 3 (w_trace ?s) = []" "wire_inv ?s"
    by (simp_all add: worker0_def spinning_def wire_inv_def)
  have o: "order_ok ping_env" using order_ok_calm by (simp add: order_ok_def ping_env_def)
  obtain u r where u: "worker_round ping_env ?P ?s u" "EvSend 3 ''PONG :a'' r \<in> set (w_trace u)"
    using ping_round [OF s(1-3)] by blast
  from worker_wire_safe [OF o s(4) r_into_rtranclp [of "worker_round ping_env ?P", OF u(1)] u(2)] u show ?thesis by blast
qed

text \<open>C22. The stream of a finished session is read as what was meant: if the nickname, the password and the
  channel contain no line break and no NUL, the plugin code is that of the version plugin, iterating over a hash
  map meets only keys of it, and no \<open>send\<close> on the descriptor was short, then splitting the bytes that the kernel
  has accepted on it into lines gives the accepted messages one by one, in order, unless two PONGs follow each
  other.\<close>

theorem session_stream_framed:
  assumes "order_ok e" "clean nick" "clean password" "clean ch"
    and "server_thread e (version_plugin e a) nick password ch c sig \<lparr>w_trace = [], w_errno = 0\<rparr> = Some (Inr (), tr)"
    and "no_short_send fd tr" "separated (sent_on fd tr)"
  shows "TokenizeMessageMultiple (concat (sent_on fd tr)) = map payload (sent_on fd tr)"
  using stream_tokens [OF sent_on_ok [OF _ assms(6)] assms(7)] wire_server_thread [OF assms(1-4) _ assms(5)] by simp

text \<open>A session whose sends all succeed and whose wait fails: the worker ends at once.\<close>

definition wire_frame :: "'a wstate \<Rightarrow> _" where
  "wire_frame s = (plugins_map s, fd_frame s, ev_pre s, \<lambda>fd. (sent_on fd (w_trace s), no_short_send fd (w_trace s)))"

lemma wire_frame_steps:
  "leaves wire_frame (worker_setup e)" "leaves wire_frame (DeleteFd e fd)" "leaves wire_frame TearDownSignalDelivery"
proof -
  have c: "leaves wire_frame (cmod (\<lambda>s. s\<lparr>srv_state := st\<rparr>))" "leaves wire_frame (cmod (\<lambda>s. s\<lparr>run_flag := b\<rparr>))"
    "leaves wire_frame (cmod (\<lambda>s. s\<lparr>sig_id := f s\<rparr>))" "leaves wire_frame (cmod (\<lambda>s. s\<lparr>fd_map := g s\<rparr>))"
    "leaves wire_frame (cmod (log_io (EvSigmask n)))" "leaves wire_frame (cmod (log_io (EvSetName name)))"
    "leaves wire_frame (cmod (\<lambda>s. s\<lparr>w_errno := n\<rparr>))"
    for st b f g n name by (simp_all add: leaves_def wire_frame_def fd_frame_def log_io_def)
  have ctl: "leaves wire_frame (sys_epoll_ctl e ep opn fd evs)" for ep opn fd evs
    by (auto simp: leaves_def wire_frame_def fd_frame_def sys_epoll_ctl_def log_io_def set_errno_if_def split: prod.split)
  have "leaves wire_frame (RegisterFd e fd evs cb cfg)" for fd evs cb cfg
    unfolding RegisterFd_def Let_def by (auto intro!: leaves_cbind leaves_cseq leaves_basic ctl c split: option.split)
  moreover have "leaves wire_frame (SetupSignalDelivery name)" for name
    unfolding SetupSignalDelivery_def by (auto intro!: leaves_cbind leaves_cseq leaves_basic c)
  ultimately show "leaves wire_frame (worker_setup e)" unfolding worker_setup_def SetState_def
    by (auto intro!: leaves_cbind leaves_cseq leaves_basic c)
  show "leaves wire_frame (DeleteFd e fd)" unfolding DeleteFd_def
    by (auto intro!: leaves_cbind leaves_cseq leaves_basic ctl c split: option.split)
  show "leaves wire_frame TearDownSignalDelivery" unfolding TearDownSignalDelivery_def by (rule c)
qed

lemma calm_worker:
  assumes "loop_ok s"
  shows "\<exists>t. WorkerRun calm_env P s = Some (Inr (), t) \<and> wire_frame t = wire_frame s"
proof -
  obtain s1 where s1: "worker_setup calm_env s = (Inr (), s1)" "loop_ok s1" "run_flag s1" using worker_setup_run [OF assms] by blast
  let ?w = "log_io (EvEpollWait (em_fd s1) (card (dom (fd_map s1))) (-1) (WaitErr 9)) s1\<lparr>w_errno := 9\<rparr>"
  have "wait_loop calm_env (card (dom (fd_map s1))) (-1) s1 = Some (WaitErr 9, ?w)"
    by (subst wait_loop.simps) (simp add: calm_env_def sys_epoll_wait_def Let_def set_errno_if_def log_io_def)
  then have l: "worker_loop calm_env P s1 = Some (Inr (), ?w)"
    using s1 by (subst worker_loop.simps) (simp add: RunEventLoop_def loop_ok_def cbind_apply)
  have fw: "wire_frame ?w = wire_frame s"
    using leavesD [OF wire_frame_steps(1) s1(1)] by (simp add: wire_frame_def fd_frame_def log_io_def)
  obtain b t2 where d: "DeleteFd calm_env (irc_fd ?w) ?w = (Inr b, t2)" using DeleteFd_run by blast
  obtain t where t: "TearDownSignalDelivery t2 = (Inr (), t)" by (simp add: TearDownSignalDelivery_def)
  have "wire_frame t = wire_frame s"
    using leavesD [OF wire_frame_steps(3) t] leavesD [OF wire_frame_steps(2) d] fw by simp
  moreover have "WorkerRun calm_env P s = Some (Inr (), t)" using s1(1) l d t by (simp add: WorkerRun_def cbind_apply)
  ultimately show ?thesis by blast
qed

lemma calm_start:
  "\<exists>s. session_start calm_env nick [] ch m = (Inr True, s) \<and> loop_frame s = loop_frame m \<and> plugins_map s = plugins_map m \<and>
     sent_on (irc_fd m) (w_trace s) = sent_on (irc_fd m) (w_trace m) @
       [CR # ''USER '' @ nick @ '' 0 * :'' @ nick @ [CR, LF], CR # ''NICK '' @ nick @ [CR, LF],
        CR # ''JOIN '' @ ch @ [CR, LF], CR # ''PRIVMSG '' @ ch @ '' :Hello!'' @ [CR, LF]] \<and>
     no_short_send fd (w_trace s) = no_short_send fd (w_trace m)"
proof -
  obtain s where s: "session_start calm_env nick [] ch m = (Inr True, s)"
      "w_trace s = w_trace m @ map (\<lambda>d. EvSend (irc_fd m) d (int (length d)))
        [CR # ''USER '' @ nick @ '' 0 * :'' @ nick @ [CR, LF], CR # ''NICK '' @ nick @ [CR, LF],
         CR # ''JOIN '' @ ch @ [CR, LF], CR # ''PRIVMSG '' @ ch @ '' :Hello!'' @ [CR, LF]]"
    using session_start_run [of calm_env nick "[]" ch m]
    by (auto simp: login_ok_def login_traces_def send_to_def send_ok_def Let_def calm_env_def)
  have "leaves plugins_map (SendMsg calm_env fd d)" for fd d
    by (auto simp: leaves_def SendMsg_def sys_send_def log_io_def set_errno_if_def split: prod.split)
  moreover have "leaves plugins_map (cmod (\<lambda>s. s\<lparr>chan_map := f s\<rparr>))" for f by (simp add: leaves_def)
  ultimately have "leaves plugins_map (session_start calm_env nick [] ch)"
    unfolding session_start_def IRC_Login_def IRC_Nick_def PrivMsg_def JoinChannel_def IRC_Join_def SendChannel_def Let_def
    by (auto intro!: leaves_cbind leaves_cseq leaves_basic split: option.split)
  from leavesD [OF this s(1)] leavesD [OF session_start_frame(1) s(1)] s show ?thesis by auto
qed

lemma calm_dtor:
  assumes "plugins_map m = Map.empty" "ev_exit m = []" "0 \<le> irc_fd m"
  shows "\<exists>t. Manager_dtor calm_env run m = (Inr (), t) \<and>
    sent_on (irc_fd m) (w_trace t) = sent_on (irc_fd m) (w_trace m) @ [CR # ''QUIT '' @ ''Goodbye cruel world!'' @ [CR, LF]] \<and>
    no_short_send fd (w_trace t) = no_short_send fd (w_trace m)"
  using assms
  by (simp add: Manager_dtor_def Server_dtor_def IRC_Quit_def IRC_dtor_def EpollManager_dtor_def SendMsg_def sys_send_def
      sys_close_def sys_poll_def calm_env_def cbind_apply cseq_def set_errno_if_def log_io_def Let_def)

theorem session_stream_framed_witness:
  "\<exists>tr. server_thread calm_env (version_plugin calm_env 9) ''kbot'' [] ''#c'' conn0 SIGRTMIN \<lparr>w_trace = [], w_errno = 0\<rparr> =
       Some (Inr (), tr) \<and>
     TokenizeMessageMultiple (concat (sent_on 3 tr)) =
       [''USER kbot 0 * :kbot'', ''NICK kbot'', ''JOIN #c'', ''PRIVMSG #c :Hello!'', ''QUIT Goodbye cruel world!'']"
proof -
  let ?P = "version_plugin calm_env 9 :: worker_cb worker plugin_code" and ?w = "\<lparr>w_trace = [], w_errno = 0\<rparr>"
  let ?m = "Manager_new 4 conn0 SIGRTMIN (log_io (EvEpollCreate 4) ?w) :: worker_cb worker"
  have m: "irc_fd ?m = 3" "plugins_map ?m = Map.empty" "ev_exit ?m = []" "sent_on 3 (w_trace ?m) = []" "no_short_send 3 (w_trace ?m)"
    by (simp_all add: Manager_new_def conn0_def)
  have ok: "loop_ok ?m" by (rule Manager_new_ok) simp
  obtain s where s: "session_start calm_env ''kbot'' [] ''#c'' ?m = (Inr True, s)" "loop_frame s = loop_frame ?m"
      "plugins_map s = Map.empty" "no_short_send 3 (w_trace s)"
      "sent_on 3 (w_trace s) = [CR # ''USER kbot 0 * :kbot'' @ [CR, LF], CR # ''NICK kbot'' @ [CR, LF],
        CR # ''JOIN #c'' @ [CR, LF], CR # ''PRIVMSG #c :Hello!'' @ [CR, LF]]"
    using calm_start [of "''kbot''" "''#c''" ?m 3] m by auto
  obtain u where u: "WorkerRun calm_env ?P s = Some (Inr (), u)" "wire_frame u = wire_frame s"
    using calm_worker [OF loop_ok_frame [OF ok s(2)]] by blast
  have "fd_frame u = fd_frame ?m" using u(2) fd_frame_loop [OF s(2)] by (simp add: wire_frame_def)
  then have uf: "plugins_map u = Map.empty" "ev_exit u = []" "irc_fd u = 3" "sent_on 3 (w_trace u) = sent_on 3 (w_trace s)"
      "no_short_send 3 (w_trace u)"
    using u(2) s(3,4) m by (simp_all add: wire_frame_def fd_frame_def fun_eq_iff)
  obtain t where t: "Manager_dtor calm_env (worker_runner calm_env ?P) u = (Inr (), t)" "no_short_send 3 (w_trace t)"
      "sent_on 3 (w_trace t) = sent_on 3 (w_trace s) @ [CR # ''QUIT '' @ ''Goodbye cruel world!'' @ [CR, LF]]"
    using calm_dtor [OF uf(1,2), of "worker_runner calm_env ?P" 3] uf(3-5) by auto
  have "os_epoll_create calm_env tr = 4" for tr by (simp add: calm_env_def)
  then have run: "server_thread calm_env ?P ''kbot'' [] ''#c'' conn0 SIGRTMIN ?w = Some (Inr (), w_trace t)"
    using s(1) u(1) t(1) by (simp add: server_thread_def CreateNew_def sys_epoll_create_def session_body_def Let_def)
  have sep: "separated (sent_on 3 (w_trace t))" unfolding t(3) s(5) by (simp add: wire_pong_def)
  have "map payload (sent_on 3 (w_trace t)) =
      [''USER kbot 0 * :kbot'', ''NICK kbot'', ''JOIN #c'', ''PRIVMSG #c :Hello!'', ''QUIT Goodbye cruel world!'']"
    unfolding t(3) s(5) by (simp add: payload_def)
  then show ?thesis using session_stream_framed [OF order_ok_calm _ _ _ run t(2) sep] run by auto
qed

end
