(* ===== verification/Diagnostics.thy ===== *)
theory Diagnostics
  imports Server IRC_Message
begin

text \<open>
  What the program prints about itself: the names of services and server states with their tables
  (\<open>src/src/IRC.hh\<close>, \<open>src/src/Server.hh\<close>), the output operators of \<open>IRC\<close> and \<open>IRCMessage\<close>, and the lines of
  \<open>Server::DumpInfo\<close> (\<open>src/src/Server.cc\<close>). Printing changes no state, so these are functions to text; a
  subscript of a table is checked.
\<close>

section \<open>Names\<close>

datatype IRCService = kAtheme | IRCService_kMax

text \<open>\<open>static_cast<int>\<close>\<close>

fun IRCService_int :: "IRCService \<Rightarrow> nat" where
  "IRCService_int kAtheme = 0"
| "IRCService_int IRCService_kMax = 1"

definition IRCServiceStringTable :: "string list" where
  "IRCServiceStringTable = [''Atheme IRC Services'']"

definition IRC_StateToString :: "IRCService \<Rightarrow> string result" where
  "IRC_StateToString s = vec_idx IRCServiceStringTable (IRCService_int s)"

fun ServerState_int :: "ServerState \<Rightarrow> nat" where
  "ServerState_int kSetup = 0"
| "ServerState_int kConnected = 1"
| "ServerState_int kLoggedIn = 2"
| "ServerState_int kFailed = 3"
| "ServerState_int ServerState_kMax = 4"

definition ServerStateStringTable :: "string list" where
  "ServerStateStringTable = [''Uninitialized'', ''Connected'', ''Logged In'', ''Failed'']"

definition Server_StateToString :: "ServerState \<Rightarrow> string result" where
  "Server_StateToString s = vec_idx ServerStateStringTable (ServerState_int s)"

section \<open>Output operators\<close>

definition show_IRC :: "IRCService \<Rightarrow> string result" where
  "show_IRC service_type =
     rbind (IRC_StateToString service_type) (\<lambda>n. Inr (''Service: '' @ n @ '' (SSL: '' @ ''false'' @ '')''))"

definition show_IRCMessage :: "IRCMessage \<Rightarrow> string" where
  "show_IRCMessage m =
     (if tags m \<noteq> [] then ''Tags='' @ tags m @ '' '' else []) @
     ''Source='' @ source m @ '' Command='' @ command m @ '' Param='' @
     concat (map (\<lambda>sv. sv @ '' '') (GetParameters m)) @ [LF]"

section \<open>The dump of a server\<close>




section \<open>Properties\<close>

text \<open>The subscript of the table is in range for every state but \<open>kMax\<close>, which counts them.\<close>

lemma state_names: "(\<exists>n. Server_StateToString s = Inr n) \<longleftrightarrow> s \<noteq> ServerState_kMax"
  by (cases s) (simp_all add: Server_StateToString_def vec_idx_def ServerStateStringTable_def)



end
