(* ===== verification/Stack_Ptr.thy ===== *)
theory Stack_Ptr
  imports Kbot_Prelude
begin

text \<open>
  The pointer to an object in the caller's stack frame (\<open>src/src/staging/Util.hh\<close>): \<open>alloca\<close> in the
  frame, placement \<open>new\<close> of one object or of a value-initialised array, the accessors of \<open>StackPtr\<close> and
  its destructor with and without a deleter. A frame is a region of bytes that grows up to the end of
  the stack, past which \<open>alloca\<close> is undefined; a live object is a cell at its address. Sizes are 64-bit
  words, as \<open>size_t\<close> is, and wrap around. The accessors compute addresses and check nothing; reading or
  assigning where no object lives is undefined. Padding between reservations is left out.
\<close>

section \<open>Frames\<close>

text \<open>\<open>limit\<close> is the end of what \<open>alloca\<close> has reserved so far, \<open>stack_end\<close> how far the stack reaches, \<open>deleted\<close> what
  the deleters were called with.\<close>

record 'v frame =
  limit :: nat
  stack_end :: nat
  cells :: "nat \<rightharpoonup> 'v"
  deleted :: "nat option list"

type_synonym size_t = "64 word"

definition alloca :: "size_t \<Rightarrow> 'v frame \<Rightarrow> (nat \<times> 'v frame) result" where
  "alloca n s =
     (if limit s + unat n \<le> stack_end s then Inr (limit s, s\<lparr>limit := limit s + unat n\<rparr>)
      else Inl (UB ''stack overflow''))"

text \<open>Placement \<open>new\<close> of consecutive objects of \<open>sz\<close> bytes from an address on. Writing past what has been
  reserved is undefined.\<close>

fun place :: "nat \<Rightarrow> nat \<Rightarrow> 'v list \<Rightarrow> (nat \<rightharpoonup> 'v) \<Rightarrow> (nat \<rightharpoonup> 'v)" where
  "place sz p [] c = c"
| "place sz p (v # vs) c = place sz (p + sz) vs (c(p \<mapsto> v))"

definition placement_new :: "size_t \<Rightarrow> nat \<Rightarrow> 'v list \<Rightarrow> 'v frame \<Rightarrow> ('v frame) result" where
  "placement_new sz p vs s =
     (if p + length vs * unat sz \<le> limit s then Inr (s\<lparr>cells := place (unat sz) p vs (cells s)\<rparr>)
      else Inl (UB ''placement new past the frame''))"

section \<open>The pointer\<close>

text \<open>The member \<open>ptr\<close>; \<open>None\<close> is the null pointer.\<close>

type_synonym StackPtr = "nat option"

definition StackPtr_null :: StackPtr where
  "StackPtr_null = None"

definition StackPtr_of :: "nat \<Rightarrow> StackPtr" where
  "StackPtr_of p = Some p"

definition StackPtr_get :: "StackPtr \<Rightarrow> nat option" where
  "StackPtr_get sp = sp"

definition StackPtr_bool :: "StackPtr \<Rightarrow> bool" where
  "StackPtr_bool sp \<longleftrightarrow> sp \<noteq> None"

text \<open>The references that \<open>*p\<close>, \<open>p->\<close> and \<open>p[i]\<close> yield, as addresses.\<close>

definition StackPtr_deref :: "StackPtr \<Rightarrow> nat result" where
  "StackPtr_deref sp = (case sp of None \<Rightarrow> Inl (UB ''null StackPtr'') | Some p \<Rightarrow> Inr p)"

definition StackPtr_index :: "size_t \<Rightarrow> StackPtr \<Rightarrow> size_t \<Rightarrow> nat result" where
  "StackPtr_index sz sp i =
     (case sp of None \<Rightarrow> Inl (UB ''null StackPtr'') | Some p \<Rightarrow> Inr (p + unat i * unat sz))"

text \<open>Reading and assigning through a reference.\<close>

definition load :: "'v frame \<Rightarrow> nat result \<Rightarrow> 'v result" where
  "load s r = rbind r (\<lambda>p. case cells s p of None \<Rightarrow> Inl (UB ''no object'') | Some v \<Rightarrow> Inr v)"

definition store :: "'v \<Rightarrow> nat result \<Rightarrow> 'v frame \<Rightarrow> ('v frame) result" where
  "store v r s = rbind r (\<lambda>p. case cells s p of
     None \<Rightarrow> Inl (UB ''no object'') | Some _ \<Rightarrow> Inr (s\<lparr>cells := (cells s)(p \<mapsto> v)\<rparr>))"

text \<open>\<open>~StackPtrBase\<close>: with a deleter, it is called with the pointer, null or not; without one nothing
  happens.\<close>

definition StackPtr_dtor :: "bool \<Rightarrow> StackPtr \<Rightarrow> 'v frame \<Rightarrow> 'v frame" where
  "StackPtr_dtor has_deleter sp s = (if has_deleter then s\<lparr>deleted := deleted s @ [sp]\<rparr> else s)"

section \<open>Making pointers\<close>

text \<open>\<open>T[]\<close>: \<open>zero\<close> is the value-initialised element. The product of the sizes is a \<open>size_t\<close>.\<close>

definition make_stack_ptr_array :: "size_t \<Rightarrow> 'v \<Rightarrow> size_t \<Rightarrow> 'v frame \<Rightarrow> (StackPtr \<times> 'v frame) result" where
  "make_stack_ptr_array sz zero n s =
     rbind (alloca (sz * n) s) (\<lambda>(p, s1).
     rbind (placement_new sz p (replicate (unat n) zero) s1) (\<lambda>s2. Inr (StackPtr_of p, s2)))"

text \<open>\<open>T\<close>: \<open>v\<close> is the object that the constructor makes of the arguments.\<close>

definition make_stack_ptr :: "size_t \<Rightarrow> 'v \<Rightarrow> 'v frame \<Rightarrow> (StackPtr \<times> 'v frame) result" where
  "make_stack_ptr sz v s =
     rbind (alloca sz s) (\<lambda>(p, s1).
     rbind (placement_new sz p [v] s1) (\<lambda>s2. Inr (StackPtr_of p, s2)))"

text \<open>\<open>T\<close> with one argument of type \<open>size_t\<close>: of the two overloads of \<open>__make_stack_ptr\<close> the one for arrays is
  the more specialised, so that many objects are constructed in the room for one.\<close>

definition make_stack_ptr_size_arg :: "size_t \<Rightarrow> 'v \<Rightarrow> size_t \<Rightarrow> 'v frame \<Rightarrow> (StackPtr \<times> 'v frame) result" where
  "make_stack_ptr_size_arg sz zero n s =
     rbind (alloca sz s) (\<lambda>(p, s1).
     rbind (placement_new sz p (replicate (unat n) zero) s1) (\<lambda>s2. Inr (StackPtr_of p, s2)))"

section \<open>Layout\<close>

text \<open>Live objects lie in what has been reserved.\<close>

definition frame_ok :: "'v frame \<Rightarrow> bool" where
  "frame_ok s \<longleftrightarrow> (\<forall>p \<in> dom (cells s). p < limit s)"

lemma frame_okD: "frame_ok s \<Longrightarrow> cells s q = Some v \<Longrightarrow> q < limit s"
  by (auto simp: frame_ok_def dom_def)

lemma place_other: "q < p \<Longrightarrow> place sz p vs c q = c q"
  by (induction vs arbitrary: p c) auto

lemma place_nth: "0 < sz \<Longrightarrow> i < length vs \<Longrightarrow> place sz p vs c (p + i * sz) = Some (vs ! i)"
proof (induction vs arbitrary: i p c)
  case (Cons v vs)
  show ?case
  proof (cases i)
    case 0
    then show ?thesis using Cons.prems place_other [of p "p + sz" sz vs] by simp
  next
    case (Suc j)
    then show ?thesis using Cons.IH [of j "p + sz"] Cons.prems by (simp add: add.assoc)
  qed
qed simp

lemma place_dom: "0 < sz \<Longrightarrow> q \<in> dom (place sz p vs c) \<Longrightarrow> q \<in> dom c \<or> q < p + length vs * sz"
proof (induction vs arbitrary: p c)
  case (Cons v vs)
  have "q \<in> dom (c(p \<mapsto> v)) \<or> q < p + sz + length vs * sz"
    using Cons.IH [OF Cons.prems(1), of "p + sz" "c(p \<mapsto> v)"] Cons.prems(2) unfolding place.simps .
  then show ?case using Cons.prems(1) by (auto simp: add.assoc)
qed simp

lemma place_new_other: "0 < sz \<Longrightarrow> p \<le> q \<Longrightarrow> (\<forall>i < length vs. q \<noteq> p + i * sz) \<Longrightarrow> place sz p vs c q = c q"
proof (induction vs arbitrary: p c)
  case (Cons v vs)
  have ne: "q \<noteq> p" using Cons.prems(3) by force
  have rest: "\<forall>i < length vs. q \<noteq> p + sz + i * sz" using Cons.prems(3) by (auto simp: add.assoc dest: spec [of _ "Suc _"])
  have "place sz (p + sz) vs (c(p \<mapsto> v)) q = (c(p \<mapsto> v)) q"
  proof (cases "p + sz \<le> q")
    case True
    then show ?thesis by (rule Cons.IH [OF Cons.prems(1) _ rest])
  next
    case False
    then show ?thesis by (simp add: place_other)
  qed
  then show ?case using ne by simp
qed simp

lemma mult_no_wrap: "unat sz * unat n < 2 ^ 64 \<Longrightarrow> unat (sz * n) = unat sz * unat (n :: size_t)"
  by (simp add: unat_word_ariths)

lemma array_run:
  assumes "frame_ok s" "0 < sz" "unat sz * unat n < 2 ^ 64" "limit s + unat sz * unat n \<le> stack_end s"
  shows "make_stack_ptr_array sz zero n s =
    Inr (Some (limit s), s\<lparr>limit := limit s + unat sz * unat n,
      cells := place (unat sz) (limit s) (replicate (unat n) zero) (cells s)\<rparr>)"
  using mult_no_wrap [OF assms(3)] assms(4)
  by (simp add: make_stack_ptr_array_def alloca_def placement_new_def StackPtr_of_def mult.commute)

lemma array_frame_ok:
  assumes "frame_ok s" "0 < sz" "unat sz * unat n < 2 ^ 64" "limit s + unat sz * unat n \<le> stack_end s"
    and "make_stack_ptr_array sz zero n s = Inr (sp, t)"
  shows "frame_ok t"
proof -
  have sz: "0 < unat sz" using assms(2) by (simp add: word_gt_0 unat_gt_0)
  have t: "limit t = limit s + unat sz * unat n"
    "cells t = place (unat sz) (limit s) (replicate (unat n) zero) (cells s)"
    using assms(5) unfolding array_run [OF assms(1-4)] by auto
  show ?thesis unfolding frame_ok_def
  proof
    fix q assume "q \<in> dom (cells t)"
    then have "q \<in> dom (cells s) \<or> q < limit s + length (replicate (unat n) zero) * unat sz"
      unfolding t(2) by (rule place_dom [OF sz])
    then show "q < limit t" unfolding t(1) by (auto simp: mult.commute dest: frame_okD [OF assms(1)])
  qed
qed

lemma make_run:
  "make_stack_ptr sz v s = (if limit s + unat sz \<le> stack_end s
     then Inr (Some (limit s), s\<lparr>limit := limit s + unat sz, cells := (cells s)(limit s \<mapsto> v)\<rparr>)
     else Inl (UB ''stack overflow''))"
  by (simp add: make_stack_ptr_def alloca_def placement_new_def StackPtr_of_def)

section \<open>Sizes that do not fit\<close>

text \<open>Nothing checks the size. An array that the stack has no room for is undefined; one whose size in bytes
  does not fit into \<open>size_t\<close> gets less room than it has elements, and is undefined as well.\<close>

lemma array_too_large:
  assumes "stack_end s < limit s + unat sz * unat n"
  shows "\<exists>w. make_stack_ptr_array sz zero n s = Inl (UB w)"
proof (cases "limit s + unat (sz * n) \<le> stack_end s")
  case True
  then have "\<not> limit s + unat n * unat sz \<le> limit s + unat (sz * n)" using assms by (simp add: mult.commute)
  with True show ?thesis by (simp add: make_stack_ptr_array_def alloca_def placement_new_def)
qed (simp add: make_stack_ptr_array_def alloca_def)

lemma array_overflow:
  assumes "2 ^ 64 \<le> unat sz * unat n"
  shows "\<exists>w. make_stack_ptr_array sz zero n s = Inl (UB w)"
proof (cases "limit s + unat (sz * n) \<le> stack_end s")
  case True
  have "unat (sz * n) < 2 ^ 64" using unsigned_less [of "sz * n"] by simp
  then have "\<not> limit s + unat n * unat sz \<le> limit s + unat (sz * n)" using assms by (simp add: mult.commute)
  with True show ?thesis by (simp add: make_stack_ptr_array_def alloca_def placement_new_def)
qed (simp add: make_stack_ptr_array_def alloca_def)

lemma size_arg_overruns:
  assumes "0 < sz" "1 < n"
  shows "\<exists>w. make_stack_ptr_size_arg sz zero n s = Inl (UB w)"
proof -
  have "0 < unat sz" "1 < unat n" using assms by (simp_all add: word_less_nat_alt)
  then have "unat sz < unat n * unat sz" by simp
  then show ?thesis by (simp add: make_stack_ptr_size_arg_def alloca_def placement_new_def)
qed

text \<open>One object: it is there, it can be assigned, and the rest of the frame is untouched.\<close>

lemma stack_object_roundtrip:
  assumes "frame_ok s" "make_stack_ptr sz v s = Inr (sp, t)"
  shows "load t (StackPtr_deref sp) = Inr v" "\<And>q w. cells s q = Some w \<Longrightarrow> cells t q = Some w"
    "\<exists>t'. store w (StackPtr_deref sp) t = Inr t' \<and> load t' (StackPtr_deref sp) = Inr w"
proof -
  have "cells s (limit s) = None" using frame_okD [OF assms(1), of "limit s"] by (cases "cells s (limit s)") auto
  then show "load t (StackPtr_deref sp) = Inr v" "\<And>q w. cells s q = Some w \<Longrightarrow> cells t q = Some w"
    "\<exists>t'. store w (StackPtr_deref sp) t = Inr t' \<and> load t' (StackPtr_deref sp) = Inr w"
    using assms(2) by (auto simp: make_run load_def store_def StackPtr_deref_def split: if_splits)
qed

section \<open>Properties\<close>

text \<open>C30. An array made on the stack: if its size in bytes fits into \<open>size_t\<close> and into what is left of the
  stack, every index below its length refers to an element of its own, which is there and
  value-initialised, and all objects that were alive before keep their values. If the stack has no
  room for it, making it is undefined.\<close>

theorem stack_array_correct:
  assumes "frame_ok s" "0 < sz" "unat sz * unat n < 2 ^ 64"
  shows "if limit s + unat sz * unat n \<le> stack_end s
    then \<exists>sp t. make_stack_ptr_array sz zero n s = Inr (sp, t) \<and> StackPtr_bool sp \<and> frame_ok t \<and>
      (\<forall>i < n. load t (StackPtr_index sz sp i) = Inr zero) \<and>
      (\<forall>i < n. \<forall>j < n. StackPtr_index sz sp i = StackPtr_index sz sp j \<longrightarrow> i = j) \<and>
      (\<forall>q v. cells s q = Some v \<longrightarrow> cells t q = Some v)
    else \<exists>w. make_stack_ptr_array sz zero n s = Inl (UB w)"
proof (cases "limit s + unat sz * unat n \<le> stack_end s")
  case fits: True
  let ?c = "place (unat sz) (limit s) (replicate (unat n) zero) (cells s)"
  let ?t = "s\<lparr>limit := limit s + unat sz * unat n, cells := ?c\<rparr>"
  note run = array_run [OF assms fits, of zero]
  have sz: "0 < unat sz" using assms(2) by (simp add: word_gt_0 unat_gt_0)
  have "?c (limit s + unat i * unat sz) = Some zero" if "i < n" for i
    using place_nth [OF sz, of "unat i" "replicate (unat n) zero" "limit s" "cells s"] that by (simp add: word_less_nat_alt)
  then have inside: "\<forall>i < n. load ?t (StackPtr_index sz (Some (limit s)) i) = Inr zero"
    by (simp add: load_def StackPtr_index_def)
  have "\<forall>q v. cells s q = Some v \<longrightarrow> cells ?t q = Some v"
    using frame_okD [OF assms(1)] by (simp add: place_other)
  moreover have "unat i = unat j \<longrightarrow> i = j" for i j :: size_t by (simp add: word_unat_eq_iff)
  ultimately show ?thesis using fits run inside array_frame_ok [OF assms fits run] sz
    by (simp add: StackPtr_bool_def StackPtr_index_def)
qed (simp add: array_too_large)

definition frame0 :: "int frame" where
  "frame0 = \<lparr>limit = 8, stack_end = 64, cells = [0 \<mapsto> 7], deleted = []\<rparr>"

theorem stack_array_correct_witness:
  "(\<exists>sp t. make_stack_ptr_array 4 0 2 frame0 = Inr (sp, t) \<and> load t (StackPtr_index 4 sp 1) = Inr 0 \<and>
     cells t 0 = Some 7) \<and> (\<exists>w. make_stack_ptr_array 4 0 20 frame0 = Inl (UB w))"
proof -
  have f: "frame_ok frame0" "(0::size_t) < 4" by (simp_all add: frame_ok_def frame0_def)
  from stack_array_correct [OF f, of 2 0] obtain sp t where
    t: "make_stack_ptr_array 4 0 2 frame0 = Inr (sp, t)" "\<forall>i < 2. load t (StackPtr_index 4 sp i) = Inr 0"
      "\<forall>q v. cells frame0 q = Some v \<longrightarrow> cells t q = Some v"
    by (auto simp: frame0_def)
  have "load t (StackPtr_index 4 sp 1) = Inr 0" using t(2) by simp
  moreover have "cells t 0 = Some 7" using t(3) by (simp add: frame0_def)
  moreover have "\<exists>w. make_stack_ptr_array 4 0 20 frame0 = Inl (UB w)"
    using stack_array_correct [OF f, of 20 0] by (simp add: frame0_def)
  ultimately show ?thesis using t(1) by auto
qed

end
