(* ===== verification/Views.thy ===== *)
theory Views
  imports IRC_Message
begin

text \<open>
  The memory behind a message. An \<open>IRCMessage\<close> owns its line in a \<open>std::string\<close> and holds views into
  it; its move constructor is defaulted (\<open>src/src/IRC.hh\<close>), so moving a message moves the string and
  copies the views as they are. \<open>ProcessMessageLine\<close> moves each message into a variant before its
  handler reads it. The string is the one of libstdc++: up to 15 characters are kept inside the
  object, longer ones in an allocated buffer that a move hands over. So the views of a moved short
  message point into the object it was moved from. The theory shows what they read there.
\<close>

section \<open>Strings in memory\<close>

type_synonym object = nat

datatype buffer = Local object | Heap object

text \<open>A live buffer has its characters with the terminator; a heap buffer is named after the object
  that allocated it.\<close>

type_synonym memory = "buffer \<rightharpoonup> string"

record cpp_string =
  s_at :: buffer
  s_size :: nat

definition local_capacity :: nat where
  "local_capacity = 15"

definition string_new :: "object \<Rightarrow> string \<Rightarrow> memory \<Rightarrow> cpp_string \<times> memory" where
  "string_new x l mem =
     (let p = (if length l \<le> local_capacity then Local x else Heap x) in
      (\<lparr>s_at = p, s_size = length l\<rparr>, mem(p \<mapsto> l @ [NUL])))"

text \<open>The move constructor of the string, into object \<open>y\<close> from the string of object \<open>x\<close>: characters kept
  inside \<open>x\<close> are copied with their terminator, an allocated buffer changes hands, and \<open>x\<close> becomes the
  empty string, by a terminator in its first byte.\<close>

definition string_move :: "object \<Rightarrow> object \<Rightarrow> cpp_string \<Rightarrow> memory \<Rightarrow> cpp_string \<times> cpp_string \<times> memory" where
  "string_move y x s mem =
     (let empty = \<lparr>s_at = Local x, s_size = 0\<rparr> in
      if s_at s = Local x then
        (case mem (Local x) of
           Some bs \<Rightarrow> (\<lparr>s_at = Local y, s_size = s_size s\<rparr>, empty,
                       mem(Local y \<mapsto> take (Suc (s_size s)) bs, Local x \<mapsto> bs[0 := NUL]))
         | None \<Rightarrow> (\<lparr>s_at = Local y, s_size = s_size s\<rparr>, empty, mem))
      else (s, empty, mem(Local x \<mapsto> [NUL])))"

text \<open>The destructor frees an allocated buffer; what is inside the object goes with the object.\<close>

definition string_dtor :: "object \<Rightarrow> cpp_string \<Rightarrow> memory \<Rightarrow> memory" where
  "string_dtor x s mem = mem(s_at s := None, Local x := None)"

section \<open>Views\<close>

text \<open>\<open>std::string_view\<close>: a default-constructed one is empty, any other has its first position and the
  one past its end in a buffer. Reading a view of a buffer that is gone, or past its end, has no
  value.\<close>

datatype view = NoView | View buffer nat nat

fun read_view :: "memory \<Rightarrow> view \<Rightarrow> string option" where
  "read_view mem NoView = Some []"
| "read_view mem (View p a b) =
     (case mem p of Some bs \<Rightarrow> if a \<le> b \<and> b \<le> length bs then Some (seg bs a b) else None | None \<Rightarrow> None)"

text \<open>\<open>data()\<close> as a C string, which reads past the end of the view up to the terminator.\<close>

fun read_c_str :: "memory \<Rightarrow> view \<Rightarrow> string option" where
  "read_c_str mem NoView = None"
| "read_c_str mem (View p a b) =
     (case mem p of Some bs \<Rightarrow> if NUL \<in> set (drop a bs) then Some (c_str (drop a bs)) else None | None \<Rightarrow> None)"

section \<open>Where the views of a message are\<close>

definition tags_range :: "string \<Rightarrow> (nat \<times> nat) option" where
  "tags_range l =
     (case parse_tag_section l of Inl _ \<Rightarrow> None | Inr (i, _) \<Rightarrow> if i = 0 then None else Some (1, i - 1))"

text \<open>The pairs of the tags, as positions in the tags.\<close>

function tag_ranges :: "string \<Rightarrow> nat \<Rightarrow> ((nat \<times> nat) \<times> (nat \<times> nat)) list" where
  "tag_ranges tgs prev =
     (case str_find (CHR ''='') tgs prev of
        None \<Rightarrow> []
      | Some i \<Rightarrow>
          (case str_find (CHR '';'') tgs (i + 1) of
             None \<Rightarrow> [((prev, i), (i + 1, length tgs))]
           | Some j \<Rightarrow> ((prev, i), (i + 1, j)) # tag_ranges tgs (j + 1)))"
  by pat_completeness auto
termination
  by (relation "measure (\<lambda>(tgs, prev). Suc (length tgs) - prev)") (auto dest!: str_find_bounds)

declare tag_ranges.simps [simp del]

definition kv_ranges :: "string \<Rightarrow> ((nat \<times> nat) \<times> (nat \<times> nat)) list" where
  "kv_ranges l =
     (case parse_tag_section l of Inl _ \<Rightarrow> []
      | Inr (_, tgs, _) \<Rightarrow> map (map_prod (map_prod Suc Suc) (map_prod Suc Suc)) (tag_ranges tgs 0))"

definition source_range :: "string \<Rightarrow> (nat \<times> nat) option" where
  "source_range l =
     (case parse_tag_section l of Inl _ \<Rightarrow> None
      | Inr (i, _) \<Rightarrow>
          (case parse_source_section l i of Inl _ \<Rightarrow> None | Inr (k, _) \<Rightarrow> if k = i then None else Some (i + 1, k - 1)))"

definition command_range :: "string \<Rightarrow> (nat \<times> nat) option" where
  "command_range l =
     (case parse_tag_section l of Inl _ \<Rightarrow> None
      | Inr (i, _) \<Rightarrow>
          (case parse_source_section l i of Inl _ \<Rightarrow> None
           | Inr (k, _) \<Rightarrow>
               (case parse_command_section l k of Inl _ \<Rightarrow> None | Inr (n, _) \<Rightarrow> if n = k then None else Some (k, n - 1))))"

definition range_contents :: "string \<Rightarrow> (nat \<times> nat) option \<Rightarrow> string" where
  "range_contents l r = (case r of None \<Rightarrow> [] | Some v \<Rightarrow> sv_contents l v)"

definition in_line :: "string \<Rightarrow> nat \<times> nat \<Rightarrow> bool" where
  "in_line l v \<longleftrightarrow> fst v \<le> snd v \<and> snd v \<le> length l"

lemma section_ranges:
  "parse_tag_section l = Inr (i, tgs, kv) \<Longrightarrow>
     (i = 0 \<and> tgs = []) \<or> (2 \<le> i \<and> in_line l (1, i - 1) \<and> tgs = sv_contents l (1, i - 1))"
  "parse_source_section l i = Inr (k, src) \<Longrightarrow>
     (k = i \<and> src = []) \<or> (i + 2 \<le> k \<and> in_line l (i + 1, k - 1) \<and> src = sv_contents l (i + 1, k - 1))"
  "parse_command_section l k = Inr (n, cmd) \<Longrightarrow>
     (n = k \<and> cmd = [] \<and> (l @ [NUL]) ! k = NUL) \<or> (k + 1 \<le> n \<and> in_line l (k, n - 1) \<and> cmd = sv_contents l (k, n - 1))"
  by (auto simp: parse_tag_section_def parse_source_section_def parse_command_section_def rbind_eq_Inr sv_range_def
      sv_contents_def in_line_def str_at_def nth_append split: if_splits option.splits prod.splits)

lemma tag_loop_ranges:
  "prev \<le> length tgs \<Longrightarrow> tag_loop tgs prev kv = Inr (kv', p) \<Longrightarrow>
     kv' = kv @ map (map_prod (sv_contents tgs) (sv_contents tgs)) (tag_ranges tgs prev) \<and>
     (\<forall>(a, b) \<in> set (tag_ranges tgs prev). in_line tgs a \<and> in_line tgs b)"
proof (induction tgs prev kv rule: tag_loop.induct)
  case (1 tgs prev kv)
  show ?case
  proof (cases "str_find (CHR ''='') tgs prev")
    case None
    have "tag_ranges tgs prev = []" by (subst tag_ranges.simps) (simp add: None)
    moreover have "kv' = kv" using "1.prems"(2) None by (simp add: tag_loop.simps [of tgs prev kv])
    ultimately show ?thesis by simp
  next
    case (Some i)
    note i = str_find_bounds [OF Some]
    show ?thesis
    proof (cases "str_find (CHR '';'') tgs (i + 1)")
      case None
      then show ?thesis using "1.prems" Some i
        by (auto simp: tag_loop.simps [of tgs prev kv] tag_ranges.simps [of tgs prev] sv_range_ok sv_contents_def in_line_def)
    next
      case j: (Some j)
      note jb = str_find_bounds [OF j]
      have "tag_loop tgs (j + 1) (kv @ [(seg tgs prev i, seg tgs (i + 1) j)]) = Inr (kv', p)"
        using "1.prems" Some i j jb by (simp add: tag_loop.simps [of tgs prev kv] sv_range_ok)
      from "1.IH" [OF Some _ j _ _ this] show ?thesis using Some i j jb
        by (auto simp: tag_ranges.simps [of tgs prev] sv_range_ok sv_contents_def in_line_def)
    qed
  qed
qed

lemma sv_contents_shift:
  assumes "in_line (sv_contents l (1, i)) v" "i \<le> length l"
  shows "sv_contents l (map_prod Suc Suc v) = sv_contents (sv_contents l (1, i)) v"
    "l \<noteq> [] \<Longrightarrow> in_line l (map_prod Suc Suc v)"
proof -
  obtain a b where v: "v = (a, b)" by (cases v)
  have b: "a \<le> b" "b \<le> i - 1" "Suc b \<le> length l \<or> b = 0"
    using assms by (auto simp: v in_line_def sv_contents_def seg_def)
  have "take (b - a) (drop a (take (i - 1) (drop 1 l))) = take (b - a) (take (i - 1 - a) (drop (Suc a) l))"
    by (simp add: drop_take)
  also have "\<dots> = take (b - a) (drop (Suc a) l)" using b by (simp add: min_def)
  finally show "sv_contents l (map_prod Suc Suc v) = sv_contents (sv_contents l (1, i)) v"
    by (simp add: v sv_contents_def seg_def)
  show "in_line l (map_prod Suc Suc v)" if "l \<noteq> []" using b that by (auto simp: v in_line_def Suc_le_eq)
qed

lemma tag_section_kv:
  assumes "parse_tag_section l = Inr (i, tgs, kv)"
  shows "kv = map (map_prod (sv_contents l) (sv_contents l)) (kv_ranges l)"
    "\<forall>(a, b) \<in> set (kv_ranges l). in_line l a \<and> in_line l b \<and> 1 \<le> fst a \<and> 1 \<le> fst b"
proof -
  have "(tgs = [] \<and> kv = []) \<or> (\<exists>j p. j < length l \<and> tgs = sv_contents l (1, j) \<and> tag_loop tgs 0 [] = Inr (kv, p))"
    using assms str_find_bounds [of SP l 1]
    by (auto simp: parse_tag_section_def rbind_eq_Inr sv_range_def sv_contents_def split: if_splits option.splits)
  then consider "tgs = []" "kv = []" | j p where "j \<le> length l" "tgs = sv_contents l (1, j)" "tag_loop tgs 0 [] = Inr (kv, p)" "l \<noteq> []"
    by (cases "l = []") (auto dest: less_imp_le)
  then have "kv = map (map_prod (sv_contents l) (sv_contents l)) (kv_ranges l) \<and>
    (\<forall>(a, b) \<in> set (kv_ranges l). in_line l a \<and> in_line l b \<and> 1 \<le> fst a \<and> 1 \<le> fst b)"
  proof cases
    case 1
    then show ?thesis using assms by (simp add: kv_ranges_def tag_ranges.simps [of "[]"] str_find_def)
  next
    case (2 j p)
    note r = tag_loop_ranges [OF _ 2(3), simplified]
    have "kv = map (map_prod (sv_contents tgs) (sv_contents tgs)) (tag_ranges tgs 0)" using r by simp
    also have "\<dots> = map (map_prod (sv_contents l) (sv_contents l)) (kv_ranges l)"
      using r sv_contents_shift(1) [OF _ 2(1)] by (auto simp: kv_ranges_def assms 2(2))
    finally show ?thesis
      using r sv_contents_shift(2) [OF _ 2(1,4)] by (fastforce simp: kv_ranges_def assms 2(2))
  qed
  then show "kv = map (map_prod (sv_contents l) (sv_contents l)) (kv_ranges l)"
    "\<forall>(a, b) \<in> set (kv_ranges l). in_line l a \<and> in_line l b \<and> 1 \<le> fst a \<and> 1 \<le> fst b" by blast+
qed

lemma param_loop_start:
  "param_loop l prev ps = Inr qs \<Longrightarrow> \<forall>v \<in> set qs. v \<in> set ps \<or> prev \<le> fst v"
proof (induction l prev ps rule: param_loop.induct)
  case (1 l prev ps)
  show ?case
  proof (cases "str_find SP l prev")
    case None
    then show ?thesis using "1.prems" by (auto simp: param_loop.simps [of l prev ps] split: sum.splits)
  next
    case (Some i)
    then obtain s where s: "sv_range l prev i = Inr s"
      using "1.prems" by (auto simp: param_loop.simps [of l prev ps] split: sum.splits)
    show ?thesis
    proof (cases "str_find_first_not_of SP l (i + 1)")
      case None
      then show ?thesis using "1.prems" Some s by (auto simp: param_loop.simps [of l prev ps])
    next
      case p: (Some p)
      have "prev \<le> p" using str_find_bounds [OF Some] str_find_first_not_of_bounds [OF p] by simp
      then show ?thesis using "1.IH" [OF Some s p] "1.prems" Some s p
        by (fastforce simp: param_loop.simps [of l prev ps])
    qed
  qed
qed

text \<open>The first byte of the line matters to the command only, unless it is the terminator's value already.\<close>

definition past_first :: "string \<Rightarrow> nat \<times> nat \<Rightarrow> bool" where
  "past_first l v \<longleftrightarrow> in_line l v \<and> (1 \<le> fst v \<or> (l @ [NUL]) ! 0 = NUL)"

lemma message_ranges:
  assumes "IRCMessage_new l t = Inr m"
  shows "tags m = range_contents l (tags_range l)" "source m = range_contents l (source_range l)"
    "command m = range_contents l (command_range l)"
    "\<forall>v \<in> set_option (tags_range l) \<union> set_option (source_range l) \<union> set (param_vec m). past_first l v"
    "\<forall>v \<in> set_option (command_range l). in_line l v"
    "tag_kv m = map (map_prod (sv_contents l) (sv_contents l)) (kv_ranges l)"
    "\<forall>(a, b) \<in> set (kv_ranges l). past_first l a \<and> past_first l b"
    "\<forall>v \<in> set_option (command_range l). 1 \<le> fst v \<longleftrightarrow> hd l \<in> {CHR ''@'', CHR '':''}"
proof -
  from assms obtain i tgs kv k src cmd ps where tag: "parse_tag_section l = Inr (i, tgs, kv)"
    and src: "parse_source_section l i = Inr (k, src)" and tail: "parse_command_and_params l k = Inr (cmd, ps)"
    and m: "m = \<lparr>line = l, tags = tgs, tag_kv = kv, source = src, command = cmd, param_vec = ps, message_type = t\<rparr>"
    by (auto simp: IRCMessage_new_def IRCMessage_body_def rbind_eq_Inr split: sum.splits cpp_error.splits prod.splits if_splits)
  from tail obtain n where cmd: "parse_command_section l k = Inr (n, cmd)" and ps: "param_loop l n [] = Inr ps"
    by (auto simp: parse_command_and_params_def rbind_eq_Inr split: if_splits)
  note r = section_ranges(1) [OF tag] section_ranges(2) [OF src] section_ranges(3) [OF cmd]
  show "tags m = range_contents l (tags_range l)" "source m = range_contents l (source_range l)"
    "command m = range_contents l (command_range l)" "\<forall>v \<in> set_option (command_range l). in_line l v"
    using r by (auto simp: m tag src cmd tags_range_def source_range_def command_range_def range_contents_def)
  show "tag_kv m = map (map_prod (sv_contents l) (sv_contents l)) (kv_ranges l)"
    "\<forall>(a, b) \<in> set (kv_ranges l). past_first l a \<and> past_first l b"
    using tag_section_kv [OF tag] by (auto simp: m past_first_def)
  have "l \<noteq> []" using tail
    by (auto simp: parse_command_and_params_def rbind_eq_Inr vec_idx_def sv_contents_def seg_def split: if_splits)
  then have "0 < k \<longleftrightarrow> hd l \<in> {CHR ''@'', CHR '':''}"
    using tag src r by (auto simp: parse_tag_section_def parse_source_section_def rbind_eq_Inr str_at_def hd_conv_nth
        split: if_splits option.splits)
  then show "\<forall>v \<in> set_option (command_range l). 1 \<le> fst v \<longleftrightarrow> hd l \<in> {CHR ''@'', CHR '':''}"
    using r(3) by (auto simp: tag src cmd command_range_def in_line_def)
  have "1 \<le> n \<or> (l @ [NUL]) ! 0 = NUL" using r by auto
  moreover have "\<forall>v \<in> set ps. in_line l v" using IRCMessage_new_InrD(4) [OF assms] by (auto simp: m in_line_def)
  ultimately have "\<forall>v \<in> set ps. past_first l v" using param_loop_start [OF ps] by (fastforce simp: past_first_def)
  then show "\<forall>v \<in> set_option (tags_range l) \<union> set_option (source_range l) \<union> set (param_vec m). past_first l v"
    using r by (auto simp: m tag src tags_range_def source_range_def past_first_def)
qed

section \<open>Messages as objects\<close>

text \<open>The members of a message object.\<close>

record message_object =
  o_id :: object
  o_line :: cpp_string
  o_tags :: view
  o_tag_kv :: "(view \<times> view) list"
  o_source :: view
  o_command :: view
  o_params :: "view list"
  o_type :: IRCMessageType

definition view_in :: "buffer \<Rightarrow> (nat \<times> nat) option \<Rightarrow> view" where
  "view_in p r = (case r of None \<Rightarrow> NoView | Some (a, b) \<Rightarrow> View p a b)"

text \<open>The constructor, as object \<open>x\<close>: \<open>line\<close> is initialised first, the views go into it.\<close>

definition IRCMessage_at :: "object \<Rightarrow> string \<Rightarrow> IRCMessageType \<Rightarrow> memory \<Rightarrow> (message_object \<times> memory) result" where
  "IRCMessage_at x l t mem =
     rbind (IRCMessage_new l t) (\<lambda>m.
       case string_new x l mem of (s, mem') \<Rightarrow>
         Inr (\<lparr>o_id = x, o_line = s, o_tags = view_in (s_at s) (tags_range l),
               o_tag_kv = map (map_prod (\<lambda>v. view_in (s_at s) (Some v)) (\<lambda>v. view_in (s_at s) (Some v))) (kv_ranges l),
               o_source = view_in (s_at s) (source_range l), o_command = view_in (s_at s) (command_range l),
               o_params = map (\<lambda>v. view_in (s_at s) (Some v)) (param_vec m), o_type = t\<rparr>, mem'))"

text \<open>\<open>IRCMessage(IRCMessage &&) = default\<close>: member by member; a moved vector leaves an empty one.\<close>

definition message_move :: "object \<Rightarrow> message_object \<Rightarrow> memory \<Rightarrow> message_object \<times> message_object \<times> memory" where
  "message_move y M mem =
     (case string_move y (o_id M) (o_line M) mem of (s, old, mem') \<Rightarrow>
       (M\<lparr>o_id := y, o_line := s\<rparr>, M\<lparr>o_line := old, o_tag_kv := [], o_params := []\<rparr>, mem'))"

text \<open>A message on its way through several objects, all of them alive: the parameter of
  \<open>GetIRCMessageVariantFrom\<close>, the alternative of its variant, the variant that is returned.\<close>

fun message_moves :: "object list \<Rightarrow> message_object \<Rightarrow> memory \<Rightarrow> message_object \<times> memory" where
  "message_moves [] M mem = (M, mem)"
| "message_moves (y # ys) M mem = (case message_move y M mem of (M', _, mem') \<Rightarrow> message_moves ys M' mem')"

text \<open>What the views of a message of object \<open>x\<close> go into, however often it was moved: a buffer with the
  line in it, with the first byte overwritten if the buffer is inside \<open>x\<close>.\<close>

definition backs :: "string \<Rightarrow> object \<Rightarrow> message_object \<Rightarrow> memory \<Rightarrow> buffer \<Rightarrow> bool" where
  "backs l x M mem p \<longleftrightarrow>
     (p = Heap x \<and> mem p = Some (l @ [NUL]) \<and> s_at (o_line M) = Heap x) \<or>
     (p = Local x \<and> (mem p = Some (l @ [NUL]) \<or> mem p = Some ((l @ [NUL])[0 := NUL])) \<and>
        (o_id M = x \<longrightarrow> s_at (o_line M) = Local x))"

lemma backs_move:
  assumes "backs l x M mem p" "y \<noteq> x" "message_move y M mem = (M', old, mem')"
  shows "backs l x M' mem' p"
    "o_tags M' = o_tags M" "o_source M' = o_source M" "o_command M' = o_command M" "o_params M' = o_params M"
    "o_tag_kv M' = o_tag_kv M"
  using assms by (auto simp: backs_def message_move_def string_move_def Let_def split: if_splits option.splits)

lemma backs_moves:
  assumes "backs l x M mem p" "x \<notin> set ys" "message_moves ys M mem = (M', mem')"
  shows "backs l x M' mem' p \<and> o_tags M' = o_tags M \<and> o_source M' = o_source M \<and> o_command M' = o_command M \<and>
    o_params M' = o_params M \<and> o_tag_kv M' = o_tag_kv M"
  using assms
proof (induction ys arbitrary: M mem)
  case (Cons y ys)
  obtain N old mem1 where N: "message_move y M mem = (N, old, mem1)" by (metis prod_cases3)
  have "y \<noteq> x" using Cons.prems(2) by auto
  note step = backs_move [OF Cons.prems(1) this N]
  show ?case using Cons.IH [OF step(1)] Cons.prems(2,3) N step(2-6) by simp
qed simp

lemma backs_new:
  assumes "IRCMessage_at x l t mem = Inr (M, mem')"
  shows "backs l x M mem' (s_at (o_line M))" "s_at (o_line M) = (if length l \<le> local_capacity then Local x else Heap x)"
  using assms by (auto simp: IRCMessage_at_def rbind_eq_Inr string_new_def backs_def Let_def split: if_splits)

section \<open>Reading\<close>

lemma drop_first: "1 \<le> a \<or> bs ! 0 = c \<Longrightarrow> drop a (bs[0 := c]) = drop a bs"
  by (metis drop_update_cancel less_eq_Suc_le list_update_id One_nat_def)

lemma seg_terminated: "b \<le> length l \<Longrightarrow> seg (l @ [c]) a b = seg l a b"
  by (simp add: seg_def)

lemma c_str_terminated: "a \<le> length l \<Longrightarrow> c_str (drop a (l @ [NUL])) = c_str (drop a l)"
  by (simp add: c_str_def takeWhile_tail)

lemma read_backed:
  assumes "backs l x M mem p" "past_first l v"
  shows "read_view mem (view_in p (Some v)) = Some (sv_contents l v)"
    "read_c_str mem (view_in p (Some v)) = Some (c_str (drop (fst v) l))"
proof -
  obtain bs where bs: "mem p = Some bs" "bs = l @ [NUL] \<or> bs = (l @ [NUL])[0 := NUL]"
    using assms(1) by (auto simp: backs_def)
  obtain a b where v: "v = (a, b)" by (cases v)
  have d: "drop a bs = drop a (l @ [NUL])" "length bs = Suc (length l)"
    using bs(2) assms(2) drop_first [of a "l @ [NUL]" NUL] unfolding past_first_def v by auto
  have "seg bs a b = seg (l @ [NUL]) a b" unfolding seg_def d(1) ..
  note d = this d
  show "read_view mem (view_in p (Some v)) = Some (sv_contents l v)"
    "read_c_str mem (view_in p (Some v)) = Some (c_str (drop (fst v) l))"
    using d assms(2) bs(1) c_str_terminated [of a l] seg_terminated [of b l NUL a]
    by (simp_all add: past_first_def in_line_def v view_in_def sv_contents_def)
qed

lemma read_backed_range:
  assumes "backs l x M mem p" "\<forall>v \<in> set_option r. past_first l v"
  shows "read_view mem (view_in p r) = Some (range_contents l r)"
  using read_backed(1) [OF assms(1)] assms(2) by (cases r) (auto simp: view_in_def range_contents_def)

lemma read_moved:
  assumes "IRCMessage_new l t = Inr m" "IRCMessage_at x l t mem = Inr (M, mem1)" "x \<notin> set ys"
    and "message_moves ys M mem1 = (M', mem2)"
  shows "read_view mem2 (o_tags M') = Some (tags m)" "read_view mem2 (o_source M') = Some (source m)"
    "map (read_view mem2) (o_params M') = map Some (GetParameters m)"
    "map (read_c_str mem2) (o_params M') = map (\<lambda>v. Some (c_str (drop (fst v) l))) (param_vec m)"
    "map (map_prod (read_view mem2) (read_view mem2)) (o_tag_kv M') = map (map_prod Some Some) (tag_kv m)"
    "hd l \<in> {CHR ''@'', CHR '':''} \<Longrightarrow> read_view mem2 (o_command M') = Some (command m)"
proof -
  let ?p = "s_at (o_line M)"
  note b = backs_moves [OF backs_new(1) [OF assms(2)] assms(3,4)]
  note r = message_ranges [OF assms(1)]
  have M: "o_tags M = view_in ?p (tags_range l)" "o_source M = view_in ?p (source_range l)"
    "o_params M = map (\<lambda>v. view_in ?p (Some v)) (param_vec m)" "o_command M = view_in ?p (command_range l)"
    "o_tag_kv M = map (map_prod (\<lambda>v. view_in ?p (Some v)) (\<lambda>v. view_in ?p (Some v))) (kv_ranges l)"
    using assms(1,2) by (auto simp: IRCMessage_at_def rbind_eq_Inr split: prod.splits)
  have l: "line m = l" by (rule IRCMessage_new_InrD(2) [OF assms(1)])
  show "read_view mem2 (o_tags M') = Some (tags m)" "read_view mem2 (o_source M') = Some (source m)"
    using b M r read_backed_range [of l x M' mem2 ?p] by auto
  show "map (read_view mem2) (o_params M') = map Some (GetParameters m)"
    "map (read_c_str mem2) (o_params M') = map (\<lambda>v. Some (c_str (drop (fst v) l))) (param_vec m)"
    using b M(3) r(4) l read_backed [of l x M' mem2 ?p] by (auto simp: GetParameters_def)
  have "map_prod (read_view mem2) (read_view mem2) (map_prod (\<lambda>v. view_in ?p (Some v)) (\<lambda>v. view_in ?p (Some v)) z) =
      map_prod Some Some (map_prod (sv_contents l) (sv_contents l) z)" if "z \<in> set (kv_ranges l)" for z
    using read_backed(1) [of l x M' mem2 ?p] b r(7) that by (cases z) auto
  then show "map (map_prod (read_view mem2) (read_view mem2)) (o_tag_kv M') = map (map_prod Some Some) (tag_kv m)"
    using b M(5) r(6) by simp
  show "read_view mem2 (o_command M') = Some (command m)" if "hd l \<in> {CHR ''@'', CHR '':''}"
    using that b M(4) r(3,5,8) read_backed_range [of l x M' mem2 ?p "command_range l"] by (auto simp: past_first_def)
qed

text \<open>The command is another matter: without tags and source in front of it, its first character is the one that
  the move overwrites. Long lines are not affected.\<close>

lemma moves_keep:
  assumes "o_id M \<noteq> x" "x \<notin> set ys" "message_moves ys M mem = (M', mem')"
  shows "mem' (Local x) = mem (Local x) \<and> mem' (Heap z) = mem (Heap z) \<and> o_command M' = o_command M"
  using assms
proof (induction ys arbitrary: M mem)
  case (Cons y ys)
  obtain N old mem1 where N: "message_move y M mem = (N, old, mem1)" by (metis prod_cases3)
  have "o_id N = y" "mem1 (Local x) = mem (Local x)" "mem1 (Heap z) = mem (Heap z)" "o_command N = o_command M"
    using N Cons.prems(1,2)
    by (auto simp: message_move_def string_move_def Let_def split: if_splits option.splits)
  then show ?case using Cons.IH [of N mem1] Cons.prems(2,3) N by auto
qed simp

lemma first_move:
  assumes "IRCMessage_at x l t mem = Inr (M, mem1)" "y \<noteq> x" "message_move y M mem1 = (M', old, mem2)"
  shows "o_id M' = y" "o_command M' = o_command M" "o_params M' = o_params M" "s_at (o_line old) = Local x"
    "length l \<le> local_capacity \<Longrightarrow> mem2 (Local x) = Some ((l @ [NUL])[0 := NUL])"
    "\<not> length l \<le> local_capacity \<Longrightarrow> mem2 (Heap x) = Some (l @ [NUL])"
proof -
  have "o_id M = x" using assms(1) by (auto simp: IRCMessage_at_def rbind_eq_Inr string_new_def Let_def)
  moreover have "mem1 (s_at (o_line M)) = Some (l @ [NUL])"
    using assms(1) by (auto simp: IRCMessage_at_def rbind_eq_Inr string_new_def Let_def)
  ultimately show "o_id M' = y" "o_command M' = o_command M" "o_params M' = o_params M" "s_at (o_line old) = Local x"
    "length l \<le> local_capacity \<Longrightarrow> mem2 (Local x) = Some ((l @ [NUL])[0 := NUL])"
    "\<not> length l \<le> local_capacity \<Longrightarrow> mem2 (Heap x) = Some (l @ [NUL])"
    using assms(2,3) backs_new(2) [OF assms(1)]
    by (auto simp: message_move_def string_move_def Let_def split: if_splits option.splits)
qed

lemma read_moved_command:
  assumes "IRCMessage_new l t = Inr m" "IRCMessage_at x l t mem = Inr (M, mem1)" "x \<notin> set ys" "ys \<noteq> []"
    and "message_moves ys M mem1 = (M', mem2)" "command_range l = Some (0, n)"
  shows "read_view mem2 (o_command M') = Some (if length l \<le> local_capacity then (command m)[0 := NUL] else command m)"
proof -
  obtain y zs N old mem3 where y: "ys = y # zs" "message_move y M mem1 = (N, old, mem3)"
    "message_moves zs N mem3 = (M', mem2)" "y \<noteq> x" "x \<notin> set zs"
    using assms(3-5) by (cases ys) (auto split: prod.splits)
  note f = first_move [OF assms(2) y(4,2)]
  have k: "mem2 (Local x) = mem3 (Local x)" "mem2 (Heap x) = mem3 (Heap x)" "o_command M' = o_command N"
    using moves_keep [OF _ y(5,3), of x] f(1) y(4) by simp_all
  have M: "o_command M = View (s_at (o_line M)) 0 n"
    using assms(1,2,6) by (auto simp: IRCMessage_at_def rbind_eq_Inr view_in_def split: prod.splits)
  have n: "n \<le> length l" "command m = take n l"
    using message_ranges(3,5) [OF assms(1)] assms(6) by (auto simp: range_contents_def sv_contents_def seg_def in_line_def)
  show ?thesis using k f(2,5,6) M backs_new(2) [OF assms(2)] n by (auto simp: seg_def take_update_swap list_update_append)
qed

lemma read_command:
  assumes "IRCMessage_new l t = Inr m" "IRCMessage_at x l t mem = Inr (M, mem1)" "x \<notin> set ys"
    and "message_moves ys M mem1 = (M', mem2)"
  shows "read_view mem2 (o_command M') =
    Some (if ys \<noteq> [] \<and> length l \<le> 15 \<and> hd l \<notin> {CHR ''@'', CHR '':''} then (command m)[0 := NUL] else command m)"
proof (cases "hd l \<in> {CHR ''@'', CHR '':''}")
  case True
  then show ?thesis using read_moved(6) [OF assms True] by auto
next
  case False
  note r = message_ranges(3,5,8) [OF assms(1)]
  have o: "o_command M = view_in (s_at (o_line M)) (command_range l)"
    using assms(1,2) by (auto simp: IRCMessage_at_def rbind_eq_Inr split: prod.splits)
  show ?thesis
  proof (cases "command_range l")
    case None
    have "o_command M' = o_command M" using backs_moves [OF backs_new(1) [OF assms(2)] assms(3,4)] by simp
    then show ?thesis using None o r(1) by (simp add: view_in_def range_contents_def)
  next
    case (Some v)
    then obtain n where v: "command_range l = Some (0, n)" using r(3) False by (cases v) auto
    show ?thesis
    proof (cases "ys = []")
      case True
      then have "M' = M" "mem2 = mem1" using assms(4) by simp_all
      moreover have "mem1 (s_at (o_line M)) = Some (l @ [NUL])"
        using assms(2) by (auto simp: IRCMessage_at_def rbind_eq_Inr string_new_def Let_def)
      ultimately show ?thesis using True o v r(1,2)
        by (simp add: view_in_def range_contents_def sv_contents_def in_line_def seg_terminated)
    next
      case ys: False
      then show ?thesis using read_moved_command [OF assms(1-3) ys assms(4) v] False by (simp add: local_capacity_def)
    qed
  qed
qed

text \<open>Where the object a message was moved from is gone as well, as in a message made from a temporary, a short
  message is left with views of nothing, and a long one with what it had.\<close>

lemma read_after_temporary:
  assumes "IRCMessage_new l t = Inr m" "IRCMessage_at x l t mem = Inr (M, mem1)" "y \<noteq> x"
    and "message_move y M mem1 = (M', old, mem2)"
  shows "map (read_view (string_dtor x (o_line old) mem2)) (o_params M') =
    (if length l \<le> local_capacity then map (\<lambda>_. None) (param_vec m) else map Some (GetParameters m))"
proof -
  let ?p = "s_at (o_line M)" let ?mem = "string_dtor x (o_line old) mem2"
  note f = first_move [OF assms(2-4)]
  have M: "o_params M' = map (\<lambda>v. view_in ?p (Some v)) (param_vec m)"
    using f(3) assms(1,2) by (auto simp: IRCMessage_at_def rbind_eq_Inr split: prod.splits)
  have mem: "?mem (Local x) = None" "?mem (Heap x) = mem2 (Heap x)" using f(4) by (simp_all add: string_dtor_def)
  have "read_view ?mem (view_in ?p (Some v)) = Some (sv_contents l v)"
    if "\<not> length l \<le> local_capacity" "v \<in> set (param_vec m)" for v
  proof -
    have "in_line l v" using message_ranges(4) [OF assms(1)] that(2) by (auto simp: past_first_def)
    then show ?thesis using mem f(6) [OF that(1)] backs_new(2) [OF assms(2)] that(1)
      by (cases v) (simp add: view_in_def in_line_def sv_contents_def seg_terminated)
  qed
  moreover have "read_view ?mem (view_in ?p (Some v)) = None" if "length l \<le> local_capacity" for v
    using mem backs_new(2) [OF assms(2)] that by (cases v) (simp add: view_in_def)
  ultimately show ?thesis using M IRCMessage_new_InrD(2) [OF assms(1)] by (simp add: GetParameters_def)
qed

section \<open>Properties\<close>

text \<open>C21. What a handler reads of a message that was moved: after any number of moves into other objects, while the
  object the message was first built in is alive, the views of the tags, of their pairs, of the source and of the
  parameters read what the constructor found in the line, also when the line is so short that they point into that
  object; a parameter read as a C string, as \<open>SetNickname\<close> does, is the rest of the line. The view of the command
  reads what the constructor found as well, but for a moved message whose line has at most 15 characters and starts
  with the command: there its first character reads as NUL.\<close>

theorem moved_message_reads:
  assumes "IRCMessage_new l t = Inr m" "IRCMessage_at x l t mem = Inr (M, mem1)" "x \<notin> set ys"
    and "message_moves ys M mem1 = (M', mem2)"
  shows "read_view mem2 (o_tags M') = Some (tags m) \<and> read_view mem2 (o_source M') = Some (source m) \<and>
    map (map_prod (read_view mem2) (read_view mem2)) (o_tag_kv M') = map (map_prod Some Some) (tag_kv m) \<and>
    map (read_view mem2) (o_params M') = map Some (GetParameters m) \<and>
    map (read_c_str mem2) (o_params M') = map (\<lambda>v. Some (c_str (drop (fst v) (line m)))) (param_vec m) \<and>
    read_view mem2 (o_command M') =
      Some (if ys \<noteq> [] \<and> length l \<le> 15 \<and> hd l \<notin> {CHR ''@'', CHR '':''} then (command m)[0 := NUL] else command m)"
  using read_moved [OF assms] IRCMessage_new_InrD(2) [OF assms(1)] read_command [OF assms] by simp

theorem moved_message_reads_witness:
  "\<exists>M mem1 M' mem2. IRCMessage_at 1 ''PING :a'' DEFAULT_TYPE Map.empty = Inr (M, mem1) \<and>
     message_moves [2, 3] M mem1 = (M', mem2) \<and> map (read_view mem2) (o_params M') = [Some '':a''] \<and>
     read_view mem2 (o_command M') = Some (NUL # ''ING'')"
proof -
  obtain m where m: "IRCMessage_new ''PING :a'' DEFAULT_TYPE = Inr m" "GetParameters m = ['':a'']" "command m = ''PING''"
    using IRCMessage_new_render [of "[]" "[]" "''PING''" "['':a'']"]
    by (auto simp: wf_command_def wf_word_def render_message_def)
  obtain M mem1 where M: "IRCMessage_at 1 ''PING :a'' DEFAULT_TYPE Map.empty = Inr (M, mem1)"
    using m(1) by (simp add: IRCMessage_at_def string_new_def Let_def)
  obtain M' mem2 where run: "message_moves [2, 3] M mem1 = (M', mem2)" by (metis surj_pair)
  then show ?thesis using moved_message_reads [OF m(1) M _ run] M m(2,3) by auto
qed

end
