(* ===== verification/Unit_Tests.thy ===== *)
theory Unit_Tests
  imports IRC_Dispatch Stack_Ptr Views
begin

text \<open>
  The unit tests of the repository (\<open>src/src/tests/test_irc_message.cc\<close>, \<open>src/src/tests/test_stack_ptr.cc\<close>)
  on the model: each test is a definition with the input and the assertions of the source, and a
  lemma that it passes. \<open>Traits\<close> is decided by the compiler, \<open>WithDeleter\<close> is empty.
\<close>

section \<open>Messages\<close>

definition with_message :: "string \<Rightarrow> (IRCMessage \<Rightarrow> bool) \<Rightarrow> bool" where
  "with_message l check = (case IRCMessage_new l DEFAULT_TYPE of Inr m \<Rightarrow> check m | Inl _ \<Rightarrow> False)"

definition throws_runtime_error :: "string \<Rightarrow> bool" where
  "throws_runtime_error l = (case IRCMessage_new l DEFAULT_TYPE of Inl (RuntimeError _) \<Rightarrow> True | _ \<Rightarrow> False)"

definition FullParsing1 :: bool where
  "FullParsing1 = with_message ''@url=;netsplit=tur,ty :dan!d@localhost PRIVMSG #chan :hey what's up!'' (\<lambda>m.
     tags m = ''url=;netsplit=tur,ty'' \<and> source m = ''dan!d@localhost'' \<and> command m = ''PRIVMSG'' \<and>
     (let vec = GetParameters m in
      length vec = 4 \<and> vec_idx vec 0 = Inr ''#chan'' \<and> vec_idx vec 1 = Inr '':hey'' \<and> vec_idx vec 2 = Inr ''what's'' \<and>
      vec_idx vec 3 = Inr ''up!''))"

definition TagParsing1 :: bool where
  "TagParsing1 = with_message ''@url=;netsplit=tur,ty :dan!d@localhost PRIVMSG #chan :Hey what's up!'' (\<lambda>m.
     length (tag_kv m) = 2 \<and> vec_idx (tag_kv m) 0 = Inr (''url'', []) \<and> vec_idx (tag_kv m) 1 = Inr (''netsplit'', ''tur,ty''))"

definition ParametersSpaces1 :: bool where
  "ParametersSpaces1 = with_message '':source command 1 2 3 4 '' (\<lambda>m.
     length (GetParameters m) = 4 \<and> vec_at (GetParameters m) 0 = Inr ''1'' \<and> vec_at (GetParameters m) 1 = Inr ''2'' \<and>
     vec_at (GetParameters m) 2 = Inr ''3'' \<and> vec_at (GetParameters m) 3 = Inr ''4'' \<and>
     vec_at (GetParameters m) 4 = Inl OutOfRange)"

definition BadMessage1 :: bool where
  "BadMessage1 \<longleftrightarrow>
     throws_runtime_error [] \<and> throws_runtime_error ''@url='' \<and> throws_runtime_error ''@url'' \<and>
     throws_runtime_error '':source_no_command'' \<and> throws_runtime_error '':source command_no_parameters'' \<and>
     with_message ''command pa ra me te rs'' (\<lambda>_. True) \<and> with_message '':source command pa ra me te rs'' (\<lambda>_. True) \<and>
     with_message ''@key=val;key= :source command pa ra me te rs'' (\<lambda>_. True)"

text \<open>An \<open>IRCMessagePrivMsg\<close> made from a temporary, and the user of its source.\<close>

definition with_user :: "string \<Rightarrow> (IRCUser \<Rightarrow> bool) \<Rightarrow> bool" where
  "with_user l check = with_message l (\<lambda>m. case IRCMessagePrivMsg_new False m of
     Inl _ \<Rightarrow> False | Inr _ \<Rightarrow> (case GetUser False m of Inr u \<Rightarrow> check u | Inl _ \<Rightarrow> False))"

definition UserRecord1 :: bool where
  "UserRecord1 \<longleftrightarrow>
     with_user '':dan!~d@localhost/foo command param'' (\<lambda>u.
       u_nickname u = ''dan'' \<and> u_username u = ''~d'' \<and> u_hostname u = ''localhost/foo'') \<and>
     with_message '':source. command param'' (\<lambda>m. \<not> IsPrivMsgMessage m) \<and>
     with_user '':dan!~d command param'' (\<lambda>u. u_nickname u = ''dan'' \<and> u_username u = ''~d'' \<and> u_hostname u = []) \<and>
     with_user '':dan! command param'' (\<lambda>u. u_nickname u = ''dan'' \<and> u_username u = [] \<and> u_hostname u = [] \<and>
       with_user '':dan!~d@ command param'' (\<lambda>u'. u_hostname u' = u_hostname u))"

lemma message_tests_pass: "FullParsing1" "TagParsing1" "ParametersSpaces1" "BadMessage1" "UserRecord1"
  by code_simp+

text \<open>The temporaries of the last test are gone when the users are read. It passes because all its lines are too
  long to be kept inside the object.\<close>

lemma UserRecord1_lines_on_heap:
  "list_all (\<lambda>l. local_capacity < length l) ['':dan!~d@localhost/foo command param'', '':dan!~d command param'',
     '':dan! command param'', '':dan!~d@ command param'']"
  by (simp add: local_capacity_def)

section \<open>Pointers into the stack\<close>

text \<open>A frame with a little room left on the stack.\<close>

definition empty_frame :: "'v frame" where
  "empty_frame = \<lparr>limit = 0, stack_end = 64, cells = Map.empty, deleted = []\<rparr>"

definition NonArray1 :: bool where
  "NonArray1 = (rbind (make_stack_ptr 4 (1 :: int) empty_frame) (\<lambda>(p, s).
     rbind (load s (StackPtr_deref p)) (\<lambda>v1.
     rbind (store 2 (StackPtr_deref p) s) (\<lambda>s'.
     rbind (load s' (StackPtr_deref p)) (\<lambda>v2.
     rbind (StackPtr_deref p) (\<lambda>r.
       Inr (v1 = 1 \<and> v2 = 2 \<and> StackPtr_get p = Some r \<and> StackPtr_bool p)))))) = Inr True)"

text \<open>The structure of the test: four characters and a number, 8 bytes.\<close>

definition NonArray2 :: bool where
  "NonArray2 = (rbind (make_stack_ptr 8 (''abcd'', 4 :: int) empty_frame) (\<lambda>(p, s).
     rbind (load s (StackPtr_deref p)) (\<lambda>(buf, i).
     rbind (store (buf, 5) (StackPtr_deref p) s) (\<lambda>s'.
     rbind (load s' (StackPtr_deref p)) (\<lambda>(_, i').
     rbind (StackPtr_deref p) (\<lambda>r.
       Inr (vec_idx buf 0 = Inr (CHR ''a'') \<and> vec_idx buf 1 = Inr (CHR ''b'') \<and> vec_idx buf 2 = Inr (CHR ''c'') \<and>
            vec_idx buf 3 = Inr (CHR ''d'') \<and> i = 4 \<and> i' = 5 \<and> StackPtr_get p = Some r \<and> StackPtr_bool p)))))) = Inr True)"

definition Array1 :: bool where
  "Array1 = (rbind (make_stack_ptr_array 4 (0 :: int) 2 empty_frame) (\<lambda>(p, s).
     rbind (store 1 (StackPtr_index 4 p 0) s) (\<lambda>s.
     rbind (store 2 (StackPtr_index 4 p 1) s) (\<lambda>s.
     rbind (load s (StackPtr_index 4 p 0)) (\<lambda>v0.
     rbind (load s (StackPtr_index 4 p 1)) (\<lambda>v1. Inr (v0 = 1 \<and> v1 = 2 \<and> StackPtr_bool p)))))) = Inr True)"

lemma pointer_tests_pass: "NonArray1" "NonArray2" "Array1"
  by code_simp+

end
