(* ===== verification/Spec2Isabelle.thy ===== *)
theory Spec2Isabelle
  imports Program Ownership Handover Locks Atomicity Process Wire Reading Diagnostics Unit_Tests
begin

text \<open>
  \<^bold>\<open>A model of kbot\<close>

  kbot is an IRC bot. A server thread connects a socket, logs in, joins a channel and then waits on
  an epoll descriptor; each time the socket is readable it receives what is there, cuts it into
  lines, parses each line into a message, classifies it and runs a handler. Messages of users can
  be commands (\<open>,join\<close>, \<open>,load\<close>, ...); commands can also come from plugins, shared objects that are
  loaded at run time. The main thread launches server threads and waits for all of them.

  \<^bold>\<open>Theories and what they model\<close>

  \<^item> \<open>Kbot_Prelude\<close>: C++ failures as values (\<open>cpp_error\<close>), the result type, a state-exception
    computation type \<open>('s, 'a) cpp\<close> in which the state survives a failure, the triples \<open>triple\<close>,
    \<open>keeps\<close>, \<open>returns_keeping\<close>, \<open>raises\<close> and \<open>leaves\<close> with which the component proofs are composed, and the searching
    and slicing operations of \<open>std::string\<close> and \<open>std::string_view\<close>, with undefined behaviour as a
    value (\<open>UB\<close>). An \<open>assert\<close> depends on the build flag \<open>ndebug\<close>.
  \<^item> \<open>OS_World\<close>: system calls, the dynamic loader and the iteration order of hash maps, which are not
    code of the repository. They are the parameter \<open>env\<close>, a record of functions whose answers may
    depend on the trace of all earlier calls; what the program did is that trace.
  \<^item> \<open>Interfaces\<close>: the locales \<open>flat_map\<close> (the container interface, interpreted on maps) and
    \<open>invariant_system\<close> (steps that keep an invariant), with reachability.
  \<^item> \<open>IRC_Message\<close> (\<open>src/src/IRC.hh\<close>): the constructor of \<open>IRCMessage\<close>, index by index, and a
    reference parser by splitting that it is proved equal to.
  \<^item> \<open>IRC_Dispatch\<close> (\<open>src/src/IRC.hh\<close>, \<open>src/src/IRC.cc\<close>): sources, capabilities, message kinds by the
    64-bit command mask, the message variant.
  \<^item> \<open>IRC_Client\<close> (\<open>src/src/IRC.cc\<close>): the commands that are sent, login, quit, the receive loop.
  \<^item> \<open>Epoll\<close> (\<open>src/src/Epoll.hh\<close>, \<open>src/src/Epoll.cc\<close>): the descriptor table, its operations and the
    event loop; callbacks are an argument.
  \<^item> \<open>Server\<close> (\<open>src/src/Server.hh\<close>, \<open>src/src/Server.cc\<close>): nickname, channels, plugin handles and
    commands, connecting. The record extends the event manager's, as a \<open>Manager\<close> is both.
  \<^item> \<open>UserCommand\<close> (\<open>src/src/UserCommand.hh\<close>, \<open>src/src/UserCommand.cc\<close>): replies, permission check,
    arity guard, the built-in commands and their table. Code of a loaded plugin is the parameter
    \<open>plugin_code\<close>, functions by address.
  \<^item> \<open>Plugin\<close> (\<open>src/plugins/Plugin.hh\<close>, \<open>src/plugins/Version.cc\<close>): the exported callbacks and the
    version plugin, which interprets the locale \<open>plugin_contract\<close> that loading relies on.
  \<^item> \<open>Manager\<close> (\<open>src/src/Manager.cc\<close>): message handlers, visitor, tokenizer, \<open>ProcessMessageLine\<close>; the
    locales \<open>untouched\<close> and \<open>io_untouched\<close> collect what no handler changes.
  \<^item> \<open>Signals\<close> and \<open>Threads\<close> (\<open>src/src/Manager.cc\<close>, \<open>src/src/Manager.hh\<close>): the two pieces of state
    that threads share, as interleaving step relations.
  \<^item> \<open>Worker\<close> (\<open>src/src/Manager.cc\<close>): \<open>WorkerRun\<close> around the event loop, and the destructors.
    \<open>Worker_Invariant\<close> has the locales \<open>receiving_invariant\<close> (kept by \<open>RecvMsg\<close>), \<open>callback_invariant\<close> (kept by
    the event loop and all rounds) and \<open>worker_invariant\<close>, which gives both from what every line keeps;
    \<open>Session\<close> interprets it for plugin handles, \<open>Wire\<close> uses it for what is sent.
  \<^item> \<open>Session\<close> (\<open>src/src/main.cc\<close>, \<open>src/src/Manager.cc\<close>): \<open>CreateNew\<close> and the function of the server
    thread, with the destructors that run at its end.
  \<^item> \<open>Options\<close> (\<open>src/src/main.cc\<close>): the command line, with \<open>getopt\<close> on the program's option string,
    \<open>std::stoi\<close>, the port and the password prompt.
  \<^item> \<open>Program\<close> (\<open>src/src/main.cc\<close>): \<open>main\<close>, which composes options, connecting, the session and the set
    of threads; whether the server thread ends before it is inserted into the set is a parameter.
  \<^item> \<open>Ownership\<close> (\<open>src/src/Epoll.cc\<close>, \<open>src/src/Database.cc\<close>, \<open>src/src/IRC.hh\<close>, \<open>src/src/Server.hh\<close>,
    \<open>src/src/Server.cc\<close>): the moves and destructors of the classes that own a descriptor or a handle,
    on a store of objects; the contract of such a class is the locale \<open>raii\<close>, interpreted on
    \<open>EpollManager\<close> and \<open>Database\<close>.
  \<^item> \<open>Handover\<close> (\<open>src/src/main.cc\<close>, \<open>src/src/Manager.hh\<close>): the objects that a server passes through from
    \<open>ConnectionNew\<close> to \<open>WorkerRun\<close>, and that one state may stand for them.
  \<^item> \<open>Views\<close> (\<open>src/src/IRC.hh\<close>): the memory behind a message, with the small buffer of the library's
    string, the views into it and the defaulted move constructor.
  \<^item> \<open>Locks\<close> (the mutexes of \<open>src/src/Server.hh\<close> and who takes them): operations as nested critical
    sections, threads that run them as a step relation; what the server relies on in the code of
    a plugin is the locale \<open>plugin_locking\<close>, interpreted on the version plugin.
  \<^item> \<open>Atomicity\<close> (the members of \<open>Server\<close> that threads call): each call as a lookup, a send and single
    writes under a mutex, interleaved with those of other threads; the locale \<open>guarded_sections\<close> says
    when such calls behave like atomic ones. \<open>GetNickname\<close> does not meet it, as its result is read
    without the mutex, and \<open>DumpInfo\<close> is two sections.
  \<^item> \<open>Process\<close> (\<open>src/src/main.cc\<close>, \<open>src/src/Manager.cc\<close>, \<open>src/src/Manager.hh\<close>): the main thread and any number of
    server threads with the state they share, \<open>Threads\<close> and \<open>Signals\<close> put together.
  \<^item> \<open>Wire\<close>: what the bot sends, over the handlers, the worker and the session.
  \<^item> \<open>Reading\<close>: the stream that a worker receives and the lines that it processes, over all rounds.
  \<^item> \<open>Diagnostics\<close>: the names of states and services, the output operators, \<open>DumpInfo\<close>.
  \<^item> \<open>Stack_Ptr\<close> (\<open>src/src/staging/Util.hh\<close>): pointers to objects in the stack frame of the caller.
  \<^item> \<open>Unit_Tests\<close>: the tests of \<open>src/src/tests\<close> as definitions, with proofs that they pass.

  \<^bold>\<open>What is shown\<close>

  \<^item> Parsing: the constructor is total and memory safe, equal to the reference parser, and inverts
    rendering; \<open>ParseSourceUser\<close> and the command mask are equal to their plain descriptions.
  \<^item> Receiving: at most six calls, complete lines only, bounded length; the tokenizer neither loses
    nor merges lines. Over all rounds a worker processes exactly the lines of the stream, as long as
    every burst that one \<open>RecvMsg\<close> collects ends with a line and has no NUL; what happens at a pause inside
    a line is a theorem of its own.
  \<^item> Event manager: in every reachable state the kernel watches what the table enables, and beyond that
    only descriptors whose removal it has refused, so the assertions of the others hold; masks
    are replaced precisely; events are delivered once and in order; a call of the loop ends.
  \<^item> Server: what each channel operation sends and does to the table; the table is backed by what was sent.
  \<^item> Commands: who may do what, where replies go, how a command can fail (by plugin code, or by calling a
    symbol that was not found, the arity guard excludes the rest), that plugin
    handles are neither leaked nor closed twice, that load and unload are inverse.
  \<^item> Messages: a line refines an abstract step on nickname and channels, commands of the owner included;
    which failures may leave a handler; when the bot stops.
  \<^item> Worker: with the version plugin no input makes it throw; it can be taken down only by a call through a
    symbol that was not found, or by an assertion of a debug build; what makes its loop return; what its
    destructors release.
  \<^item> Threads: waiting waits until every thread has left its function, and no wakeup is lost; a detached
    thread may still be on its way out then; cleanup is safe after insertion and crashes before it; signal
    numbers are distinct until a thread tears down.
  \<^item> Process: once sessions end, every schedule of the process ends, with the main thread returned and
    all server threads finished; the signal counter counts the threads that hold a number, and is
    back where it was at the end.
  \<^item> Wire: everything the bot sends is one framed line of a command it knows, or a PONG, whatever users
    write; what the kernel accepted of a session is read as the messages that were meant, if no \<open>send\<close> was
    short.
  \<^item> Memory of messages: what the views of a moved message read, member by member; only the command of a
    short line changes, by its first character.
  \<^item> Ownership: event managers and databases never leak or close twice under moves; a server that is
    moved during setup stays the same. The assignments of \<open>IRC\<close>, \<open>Server\<close> and \<open>CommandPlugin\<close> do not
    keep the contract, and lemmas say how. The moves of a session hand over its state unchanged, and
    destroying what was moved from does nothing.
  \<^item> Locking: no schedule of any number of threads deadlocks, and critical sections exclude each
    other; without the order the deadlock that a comment warns of is reachable. Interleaved calls of the
    members of a server are linearizable.
  \<^item> Program: the documented options round trip, ports are exact, no command line fails; a session hands its
    messages to \<open>send\<close> in order and goes on exactly after a login that reported no failure; a thread that returns
    has released everything exactly once; all ways in which the process can end are listed (a normal exit with
    everything released, or termination by a failed \<open>epoll_create\<close>, a missing symbol, an assertion of a debug
    build, or a thread that ends before its insertion); its exit status never tells of a failure.
  \<^item> Stack pointers: arrays are complete, initialised and disjoint unless their size wraps around or the
    stack has no room, which is undefined.

  Hypotheses on what is not code of the repository are named in the theorems: that \<open>epoll_wait\<close> reports
  registered descriptors only (\<open>wait_reports_registered\<close>), that iterating over a hash map meets its keys
  (\<open>session_env\<close>, \<open>order_ok\<close>), that plugin code leaves certain parts of the state alone (\<open>plugin_leaves_bot\<close>, shown
  for the version plugin). No property assumes that \<open>dlsym\<close> finds a symbol or that
  \<open>epoll_create\<close>, \<open>epoll_ctl\<close> or \<open>send\<close> succeed; where a statement is about release builds it says so (\<open>ndebug\<close>).

  Several statements pin down behaviour that looks unintended and say so: a stop request in the
  middle of a batch is lost, a line that arrives in two parts can forge a command, a closed connection makes the worker spin, plugin help never answers,
  a debug build aborts on messages of the server, the teardown returns the wrong signal number, a plugin without the
  expected symbol takes the process down, \<open>WaitAll\<close> does not wait for the end of detached threads, a refused
  removal leaves a descriptor watched without an entry.

  \<^bold>\<open>Loops, fuel and bounds\<close>

  Index loops are functions with a length measure. The loops that may run for ever, the retry
  around \<open>epoll_wait\<close> and the worker's loop, are partial functions into \<open>option\<close>, where \<open>None\<close> is
  not returning; that they return is proved where it holds. No fuel is used. The receive loop
  counts its own tries down. Words are 64 bits wide for command and capability masks, 32 for epoll
  events and 16 for the port; \<open>size_t\<close> positions are naturals, with every underflow made an error.

  \<^bold>\<open>What is not modelled\<close>

  A subscript of a \<open>std::string_view\<close> at \<open>size()\<close>, which the loop over the tags and \<open>ParseSourceUser\<close> use for the end
  of a range and which the standard does not allow: it is the address past the end, as an implementation without
  assertions computes it (\<open>sv_range\<close>). A failure to create a thread. Log messages other than those of \<open>DumpInfo\<close> and the output operators; reading the nickname through
  the reference that \<open>GetNickname\<close> returns after it released its mutex, which is a race that neither
  \<open>Locks\<close> nor \<open>Atomicity\<close> excludes; the memory order of atomics, which are sequentially consistent here;
  the small buffer of strings other than the line of a message; the sqlite library behind \<open>Database\<close>, and the
  flags of its header; static callbacks that register others of their phase; operations that are declared and never defined (\<open>SetTopic\<close>, \<open>GetTopic\<close>,
  \<open>UserDataCache\<close>). \<open>-l\<close> sets a flag that the program does not read.

  \<^bold>\<open>Left open\<close>

  The handlers of a message as sequences of linearizable calls, for several threads that work on one
  server; the session of \<open>Session\<close> as the part of a thread that \<open>Process\<close> leaves open; the stream of
  \<open>Reading\<close> for plugins other than the version plugin.
\<close>

end
